(* ===== verification/Prelude.thy ===== *)
theory Prelude
  imports Main "HOL-Library.Word"
begin

text \<open>
  Shared vocabulary of the development: the machine types of the C++ code, the outcome of a
  call that may end the process, reachability of a transition system with the locale that
  turns a one-step invariant into a statement on every reachable state, and a few list
  lemmas the components use.
\<close>

named_theorems wire_simps \<open>evaluation of the byte-order and packet layout functions\<close>
named_theorems player_simps \<open>field projections of the player's operations\<close>

section \<open>Machine types\<close>

type_synonym byte = "8 word"
type_synonym u8 = "8 word"
type_synonym u16 = "16 word"
type_synonym u32 = "32 word"
type_synonym u64 = "64 word"
type_synonym i64 = "64 word"
type_synonym bytes = "byte list"

section \<open>Outcome of a call\<close>

text \<open>
  \<open>Done\<close> is a normal return, \<open>Exited\<close> is \<open>exit(1)\<close> with the state at that moment,
  \<open>Stuck\<close> is a call that never returns because it waits for a lock its own thread holds.
\<close>

datatype 'a outcome = Done 'a | Exited 'a | Stuck

text \<open>
  A read through a pointer: \<open>Ok\<close> with the value, or \<open>OutOfBounds\<close> where the C++ code
  reads past the end of the object (undefined behaviour).
\<close>

datatype 'a access = Ok 'a | OutOfBounds

section \<open>Transition systems\<close>

inductive reachable :: "('s \<Rightarrow> bool) \<Rightarrow> ('s \<Rightarrow> 's \<Rightarrow> bool) \<Rightarrow> 's \<Rightarrow> bool"
  for init :: "'s \<Rightarrow> bool" and step :: "'s \<Rightarrow> 's \<Rightarrow> bool" where
  reach_init: "init s \<Longrightarrow> reachable init step s"
| reach_step: "reachable init step s \<Longrightarrow> step s t \<Longrightarrow> reachable init step t"

lemma reachable_rtranclp:
  "step\<^sup>*\<^sup>* s t \<Longrightarrow> reachable init step s \<Longrightarrow> reachable init step t"
  by (induction rule: rtranclp_induct) (auto intro: reach_step)

text \<open>A predicate closed under the steps of a system.\<close>

locale step_closed =
  fixes step :: "'s \<Rightarrow> 's \<Rightarrow> bool"
    and inv :: "'s \<Rightarrow> bool"
  assumes inv_step: "inv s \<Longrightarrow> step s t \<Longrightarrow> inv t"
begin

lemma inv_steps: "step\<^sup>*\<^sup>* s t \<Longrightarrow> inv s \<Longrightarrow> inv t"
  by (induction rule: rtranclp_induct) (auto intro: inv_step)

end

text \<open>A predicate that in addition holds in every initial state.\<close>

locale invariant_system = step_closed step inv
  for step :: "'s \<Rightarrow> 's \<Rightarrow> bool"
    and inv :: "'s \<Rightarrow> bool" +
  fixes init :: "'s \<Rightarrow> bool"
  assumes inv_init: "init s \<Longrightarrow> inv s"
begin

lemma inv_reachable: "reachable init step s \<Longrightarrow> inv s"
  by (induction rule: reachable.induct) (auto intro: inv_init inv_step)

end

section \<open>Lists\<close>

lemma take_append_exact [simp]: "n = length xs \<Longrightarrow> take n (xs @ ys) = xs"
  by simp

lemma drop_append_exact [simp]: "n = length xs \<Longrightarrow> drop n (xs @ ys) = ys"
  by simp

lemma foldl_snoc: "foldl f a (xs @ [x]) = f (foldl f a xs) x"
  by simp

text \<open>The pieces of length \<open>k\<close> of a list, the last one possibly shorter.\<close>

function chunks :: "nat \<Rightarrow> 'a list \<Rightarrow> 'a list list" where
  "chunks k xs = (if k = 0 \<or> xs = [] then [] else take k xs # chunks k (drop k xs))"
  by pat_completeness auto
termination
  by (relation "measure (\<lambda>(k, xs). length xs)") auto

declare chunks.simps [simp del]

lemma chunks_Nil [simp]: "chunks k [] = []"
  by (simp add: chunks.simps)

lemma chunks_step: "0 < k \<Longrightarrow> xs \<noteq> [] \<Longrightarrow> chunks k xs = take k xs # chunks k (drop k xs)"
  by (simp add: chunks.simps [of k xs])

lemma concat_chunks: "0 < k \<Longrightarrow> concat (chunks k xs) = xs"
  by (induction k xs rule: chunks.induct) (subst chunks.simps, auto)

lemma length_chunks: "0 < k \<Longrightarrow> length (chunks k xs) = (length xs + k - 1) div k"
proof (induction k xs rule: chunks.induct)
  case (1 k xs)
  show ?case
  proof (cases "xs = []")
    case True
    with 1 show ?thesis by simp
  next
    case False
    then have "0 < length xs" by simp
    then have ge: "k \<le> length xs + k - 1" by linarith
    from False 1 have "length (chunks k xs) = Suc ((length xs - k + k - 1) div k)"
      by (simp add: chunks_step)
    also have "(length xs - k + k - 1) div k = (length xs - 1) div k"
    proof (cases "length xs < k")
      case True
      then show ?thesis using 1(2) by (simp add: div_less)
    next
      case False
      then show ?thesis by simp
    qed
    also have "Suc ((length xs - 1) div k) = (length xs + k - 1) div k"
      using le_div_geq [OF 1(2) ge] by simp
    finally show ?thesis .
  qed
qed

lemma nth_chunks:
  "0 < k \<Longrightarrow> i < length (chunks k xs) \<Longrightarrow> chunks k xs ! i = take k (drop (i * k) xs)"
proof (induction k xs arbitrary: i rule: chunks.induct)
  case (1 k xs)
  show ?case
  proof (cases "xs = []")
    case True
    with 1 show ?thesis by simp
  next
    case False
    with 1 show ?thesis
      by (cases i) (auto simp: chunks_step add.commute)
  qed
qed

end
