(* ===== verification/Config_Fields.thy ===== *)
theory Config_Fields
  imports Main
begin

text \<open>
  The names of \<open>common/config/Fields.h\<close>: configuration files, sections and fields, default
  paths and the counters of the statistics.
\<close>

definition CLIENT_CONFIG_PATH :: string where "CLIENT_CONFIG_PATH = ''config/client.json''"
definition SERVER_CONFIG_PATH :: string where "SERVER_CONFIG_PATH = ''config/server.json''"

definition DEFAULT_LOG_PATH :: string where "DEFAULT_LOG_PATH = ''log/trace.log''"
definition DEFAULT_STAT_PATH :: string where "DEFAULT_STAT_PATH = ''log/statistics.log''"

definition LOG_SECTION :: string where "LOG_SECTION = ''log''"
definition SERVER_SECTION :: string where "SERVER_SECTION = ''server''"
definition GENERAL_SECTION :: string where "GENERAL_SECTION = ''general''"
definition PACKET_SECTION :: string where "PACKET_SECTION = ''packet''"
definition PLAYER_SECTION :: string where "PLAYER_SECTION = ''player''"
definition STAT_SECTION :: string where "STAT_SECTION = ''statistics''"

definition FIELD_IP :: string where "FIELD_IP = ''ip''"
definition FIELD_PORT :: string where "FIELD_PORT = ''port''"

definition ENCODING_MODE :: string where "ENCODING_MODE = ''encoded''"
definition PACKETS_AMOUNT :: string where "PACKETS_AMOUNT = ''amount''"
definition PACKET_GAP :: string where "PACKET_GAP = ''gap''"

definition STREAM_SOURCE :: string where "STREAM_SOURCE = ''source''"

definition SOCKET_SIZE :: string where "SOCKET_SIZE = ''rxBufferSize''"
definition BUFFER_INTERVAL :: string where "BUFFER_INTERVAL = ''bufferInterval''"
definition FRAME_ASSEMBLY_TIMEOUT :: string where "FRAME_ASSEMBLY_TIMEOUT = ''frameTimeout''"

definition FIELD_PATH :: string where "FIELD_PATH = ''path''"
definition FIELD_LEVEL :: string where "FIELD_LEVEL = ''level''"

definition COUNTERS :: string where "COUNTERS = ''counters''"
definition ACCEPTED_PACKETS :: string where "ACCEPTED_PACKETS = ''acceptedPackets''"
definition ACCEPTED_BLOCKS :: string where "ACCEPTED_BLOCKS = ''acceptedBlocks''"
definition EXPECTED_BLOCKS :: string where "EXPECTED_BLOCKS = ''expectedBlocks''"
definition ASSEMBLED_NALU :: string where "ASSEMBLED_NALU = ''assembledNalu''"
definition SKIPPED_NALU :: string where "SKIPPED_NALU = ''skippedNalu''"

lemmas counter_names = ACCEPTED_PACKETS_def ACCEPTED_BLOCKS_def EXPECTED_BLOCKS_def
  ASSEMBLED_NALU_def SKIPPED_NALU_def

lemma counter_names_distinct:
  "distinct [ACCEPTED_PACKETS, ACCEPTED_BLOCKS, EXPECTED_BLOCKS, ASSEMBLED_NALU, SKIPPED_NALU]"
  by (simp add: counter_names)

end
