(* ===== verification/Logger.thy ===== *)
theory Logger
  imports Prelude Config_Fields
begin

text \<open>
  The logger of \<open>common/log/Logger.h\<close>: a level, a path and one output file. The file
  system is a parameter (which paths can be opened for writing), the rendering of a log
  entry by the fmt library is a parameter, too. The other components only name what they
  log: a level, the format string of the source and its arguments (\<open>log_call\<close>).
\<close>

section \<open>Levels\<close>

datatype LogLevel = Debug | Info | Warning | Error

fun level_code :: "LogLevel \<Rightarrow> nat" where
  "level_code Debug = 0"
| "level_code Info = 1"
| "level_code Warning = 2"
| "level_code Error = 3"

lemma level_code_inj [simp]: "level_code a = level_code b \<longleftrightarrow> a = b"
  by (cases a; cases b) simp_all

lemma level_code_le_Error: "level_code l \<le> level_code Error"
  by (cases l) simp_all

text \<open>The enumerators are ordered as \<open>operator<\<close> on the enumeration orders them.\<close>

instantiation LogLevel :: linorder
begin

definition less_eq_LogLevel :: "LogLevel \<Rightarrow> LogLevel \<Rightarrow> bool" where
  "less_eq_LogLevel a b \<longleftrightarrow> level_code a \<le> level_code b"

definition less_LogLevel :: "LogLevel \<Rightarrow> LogLevel \<Rightarrow> bool" where
  "less_LogLevel a b \<longleftrightarrow> level_code a < level_code b"

instance
  by standard (auto simp: less_eq_LogLevel_def less_LogLevel_def)

end

section \<open>Calls of the other components\<close>

datatype log_arg = ArgNat nat | ArgInt int | ArgStr string | ArgBool bool
  | ArgStrs "string list" | ArgHex bytes

datatype log_call = LogCall LogLevel string "log_arg list"

fun call_level :: "log_call \<Rightarrow> LogLevel" where
  "call_level (LogCall l _ _) = l"

section \<open>State and operations\<close>

text \<open>
  \<open>_level\<close> is kept as the number of the enumeration value: the configuration casts any
  8-bit number to the enumeration. \<open>lg_files\<close> holds the lines of every file on disk.
\<close>

record logger =
  lg_level :: nat
  lg_filePath :: string
  lg_file :: "string option"
  lg_files :: "string \<rightharpoonup> string list"
  lg_cerr :: "string list"

definition logger_init :: "(string \<rightharpoonup> string list) \<Rightarrow> logger" where
  "logger_init files =
     \<lparr>lg_level = level_code Debug, lg_filePath = DEFAULT_LOG_PATH, lg_file = None,
      lg_files = files, lg_cerr = []\<rparr>"

definition SetLevel :: "nat \<Rightarrow> logger \<Rightarrow> logger" where
  "SetLevel level lg = lg\<lparr>lg_level := level\<rparr>"

text \<open>Opening with \<open>std::ios::trunc\<close> empties the file.\<close>

definition SetFilePath :: "(string \<Rightarrow> bool) \<Rightarrow> string \<Rightarrow> logger \<Rightarrow> logger outcome" where
  "SetFilePath can_open path lg =
     (if \<not> can_open path
      then Exited (lg\<lparr>lg_cerr := lg_cerr lg @ [''Log file cannot be opened/created: '' @ path]\<rparr>)
      else Done (lg\<lparr>lg_files := (lg_files lg)(path \<mapsto> []),
                   lg_file := Some path, lg_filePath := path\<rparr>))"

definition getLevel :: "nat \<Rightarrow> string" where
  "getLevel level =
     (if level = level_code Debug then ''DEBUG''
      else if level = level_code Info then ''INFO''
      else if level = level_code Warning then ''WARNING''
      else if level = level_code Error then ''ERROR''
      else ''UNKNOWN'')"

definition append_line :: "string \<Rightarrow> string \<Rightarrow> (string \<rightharpoonup> string list) \<Rightarrow> (string \<rightharpoonup> string list)" where
  "append_line p l fs = fs(p \<mapsto> (case fs p of None \<Rightarrow> [l] | Some ls \<Rightarrow> ls @ [l]))"

text \<open>
  Writing the line: \<open>thrown\<close> is the text of the exception the stream raises, if it does (the
  code never asks its stream to raise any).
\<close>

definition write_entry :: "string option \<Rightarrow> string \<Rightarrow> string \<Rightarrow> logger \<Rightarrow> logger" where
  "write_entry thrown p e lg =
     (case thrown of
        None \<Rightarrow> lg\<lparr>lg_files := append_line p e (lg_files lg)\<rparr>
      | Some what \<Rightarrow> lg\<lparr>lg_cerr := lg_cerr lg @ [''Logger exception: '' @ what @ '', message: '' @ e]\<rparr>)"

text \<open>
  \<open>entry\<close> renders time, level name, source location and message to one line (the call of
  \<open>fmt::format\<close>); \<open>where_when\<close> is the time and location of the call.
\<close>

definition log_entry :: "(string \<Rightarrow> bool) \<Rightarrow> (string \<Rightarrow> string option) \<Rightarrow>
    ('w \<Rightarrow> string \<Rightarrow> string \<Rightarrow> string) \<Rightarrow> LogLevel \<Rightarrow> string \<Rightarrow>
    'w \<Rightarrow> logger \<Rightarrow> logger" where
  "log_entry can_open thrown entry level msg where_when lg =
     (if level_code level < lg_level lg then lg
      else let e = entry where_when (getLevel (level_code level)) msg
       in case lg_file lg of
            Some p \<Rightarrow> write_entry (thrown e) p e lg
          | None \<Rightarrow>
              (if \<not> can_open (lg_filePath lg)
               then lg\<lparr>lg_cerr := lg_cerr lg @
                      [''Logger error: cannot open log file: '' @ lg_filePath lg @
                       '', message: '' @ e]\<rparr>
               else let p = lg_filePath lg
                 in write_entry (thrown e) p e
                      (lg\<lparr>lg_files := (lg_files lg)(p \<mapsto> []), lg_file := Some p\<rparr>)))"

text \<open>\<open>~Logger\<close>.\<close>

definition close_logger :: "logger \<Rightarrow> logger" where
  "close_logger lg = (case lg_file lg of Some _ \<Rightarrow> lg\<lparr>lg_file := None\<rparr> | None \<Rightarrow> lg)"

text \<open>The public method of each level on a message.\<close>

definition log_Debug where "log_Debug can_open thrown entry = log_entry can_open thrown entry Debug"
definition log_Info where "log_Info can_open thrown entry = log_entry can_open thrown entry Info"
definition log_Warn where "log_Warn can_open thrown entry = log_entry can_open thrown entry Warning"
definition log_Error where "log_Error can_open thrown entry = log_entry can_open thrown entry Error"



text \<open>A run of calls.\<close>

fun log_all :: "(string \<Rightarrow> bool) \<Rightarrow> (string \<Rightarrow> string option) \<Rightarrow>
    ('w \<Rightarrow> string \<Rightarrow> string \<Rightarrow> string) \<Rightarrow>
    (LogLevel \<times> string \<times> 'w) list \<Rightarrow> logger \<Rightarrow> logger" where
  "log_all can_open thrown entry [] lg = lg"
| "log_all can_open thrown entry ((level, msg, w) # cs) lg =
     log_all can_open thrown entry cs (log_entry can_open thrown entry level msg w lg)"



section \<open>Properties\<close>



definition logger_ok :: "logger \<Rightarrow> bool" where
  "logger_ok lg \<longleftrightarrow> (\<forall>p. lg_file lg = Some p \<longrightarrow> p = lg_filePath lg \<and> lg_files lg p \<noteq> None)"

lemma logger_ok_init: "logger_ok (logger_init files)"
  by (simp add: logger_ok_def logger_init_def)

lemma logger_ok_log: "logger_ok lg \<Longrightarrow> logger_ok (log_entry can_open thrown entry level msg w lg)"
  by (auto simp: logger_ok_def log_entry_def write_entry_def Let_def append_line_def split: option.splits)

lemma logger_ok_SetFilePath:
  "SetFilePath can_open path lg = Done lg' \<Longrightarrow> logger_ok lg'"
  by (auto simp: logger_ok_def SetFilePath_def split: if_splits)

lemma log_entry_level [simp]: "lg_level (log_entry can_open thrown entry level msg w lg) = lg_level lg"
  by (auto simp: log_entry_def write_entry_def Let_def split: option.split)





lemma log_silent:
  "level_code Error < lg_level lg \<Longrightarrow> log_all can_open thrown entry cs lg = lg"
  using level_code_le_Error
  by (induction can_open thrown entry cs lg rule: log_all.induct)
    (auto simp: log_entry_def intro: le_less_trans)

end
