(* ===== verification/Statistics.thy ===== *)
theory Statistics
  imports Logger
begin

text \<open>
  The counter registry of \<open>common/statistics/Statistics.h\<close>: registration, the three
  accesses by name, the start of the writer thread and the line it writes. The locale
  \<open>counter_store\<close> is the part of its contract the player relies on. The interleaving of
  the writer thread with \<open>Stop\<close> is the subject of \<open>Statistics_Shutdown\<close>.
\<close>

section \<open>State\<close>

text \<open>
  \<open>st_counters\<close> is the deque of names and atomic 64-bit values, \<open>st_index\<close> the hash map
  from names to positions, \<open>st_thread\<close> whether the writer thread is joinable, \<open>st_bad\<close> whether the
  file's stream is in an error state. The code keeps
  the names as views of strings owned by the configuration, which outlives their use.
\<close>

record statistics =
  st_started :: bool
  st_thread :: bool
  st_counters :: "(string \<times> i64) list"
  st_index :: "string \<rightharpoonup> nat"
  st_filePath :: string
  st_file :: "string option"
  st_bad :: bool
  st_files :: "string \<rightharpoonup> string list"
  st_log :: "log_call list"

definition statistics_init :: "(string \<rightharpoonup> string list) \<Rightarrow> statistics" where
  "statistics_init files =
     \<lparr>st_started = False, st_thread = False, st_counters = [], st_index = Map.empty,
      st_filePath = DEFAULT_STAT_PATH, st_file = None, st_bad = False, st_files = files, st_log = []\<rparr>"

definition stat_log :: "LogLevel \<Rightarrow> string \<Rightarrow> log_arg list \<Rightarrow> statistics \<Rightarrow> statistics" where
  "stat_log level msg args st = st\<lparr>st_log := st_log st @ [LogCall level msg args]\<rparr>"

section \<open>Operations\<close>

definition stat_SetFilePath :: "(string \<Rightarrow> bool) \<Rightarrow> string \<Rightarrow> statistics \<Rightarrow> statistics outcome" where
  "stat_SetFilePath can_open path st =
     (if \<not> can_open path
      then Exited (stat_log Warning ''Statistics file cannot be opened/created: {}'' [ArgStr path] st)
      else Done (st\<lparr>st_files := (st_files st)(path \<mapsto> []),
                   st_file := Some path, st_bad := False, st_filePath := path\<rparr>))"

definition RegisterCounter :: "string \<Rightarrow> statistics \<Rightarrow> statistics" where
  "RegisterCounter name st =
     (if st_started st
      then stat_log Warning ''Cannot register counter after statistics write start'' [] st
      else if st_index st name \<noteq> None then st
      else st\<lparr>st_index := (st_index st)(name \<mapsto> length (st_counters st)),
              st_counters := st_counters st @ [(name, 0)]\<rparr>)"

fun register_each :: "string list \<Rightarrow> statistics \<Rightarrow> statistics" where
  "register_each [] st = st"
| "register_each (name # names) st = register_each names (RegisterCounter name st)"

definition RegisterCounters :: "string list \<Rightarrow> statistics \<Rightarrow> statistics" where
  "RegisterCounters countersNames st =
     (if st_started st
      then stat_log Warning ''Cannot register counter after statistics write start'' [] st
      else register_each countersNames st)"

definition Increment :: "string \<Rightarrow> i64 \<Rightarrow> statistics \<Rightarrow> statistics" where
  "Increment name valueDelta st =
     (case st_index st name of
        None \<Rightarrow> st
      | Some i \<Rightarrow>
          st\<lparr>st_counters := (st_counters st)
               [i := (fst (st_counters st ! i), snd (st_counters st ! i) + valueDelta)]\<rparr>)"

definition stat_Set :: "string \<Rightarrow> i64 \<Rightarrow> statistics \<Rightarrow> statistics" where
  "stat_Set name v st =
     (case st_index st name of
        None \<Rightarrow> st
      | Some i \<Rightarrow> st\<lparr>st_counters := (st_counters st)[i := (fst (st_counters st ! i), v)]\<rparr>)"

definition stat_Get :: "string \<Rightarrow> statistics \<Rightarrow> i64" where
  "stat_Get name st =
     (case st_index st name of None \<Rightarrow> 0 | Some i \<Rightarrow> snd (st_counters st ! i))"

text \<open>
  Writing one line. \<open>Throws what\<close>: the formatting raises an exception, nothing is written.
  \<open>Lost k\<close>: the write fails when \<open>k\<close> characters have reached the file; the stream raises no
  exception, since the code never asks it to, but is in an error state from then on, in which
  every further output is silently dropped.
\<close>

datatype stream_write = Written | Lost nat | Throws string

definition put_line :: "stream_write \<Rightarrow> string \<Rightarrow> string \<Rightarrow> statistics \<Rightarrow> statistics" where
  "put_line wr p l st =
     (if st_bad st then st
      else (case wr of
              Written \<Rightarrow> st\<lparr>st_files := append_line p l (st_files st)\<rparr>
            | Lost k \<Rightarrow> (if k = 0 then st else st\<lparr>st_files := append_line p (take k l) (st_files st)\<rparr>)
                        \<lparr>st_bad := True\<rparr>
            | Throws what \<Rightarrow> st))"

text \<open>
  \<open>Stop\<close> when its lock is free and the writer thread ends.  \<open>Start\<close> holds the same,
  non-recursive lock while it runs, so its error path, which calls \<open>Stop\<close>, never returns.
  \<open>join_names\<close> is \<open>fmt::join\<close> with a comma, \<open>wr\<close> what becomes of the header.
\<close>

definition stat_Stop :: "statistics \<Rightarrow> statistics" where
  "stat_Stop st = st\<lparr>st_thread := False, st_file := None\<rparr>"

definition Start :: "(string \<Rightarrow> bool) \<Rightarrow> (string list \<Rightarrow> string) \<Rightarrow> stream_write \<Rightarrow> statistics \<Rightarrow>
    statistics outcome" where
  "Start can_open join_names wr st =
     (if st_started st then Done (stat_log Warning ''Statistics are already started'' [] st)
      else if st_file st = None \<and> \<not> can_open (st_filePath st)
      then Exited (stat_log Error ''Statistics file cannot be opened/created: {}''
                     [ArgStr (st_filePath st)] st)
      else let st1 = (case st_file st of
                        Some _ \<Rightarrow> st
                      | None \<Rightarrow> st\<lparr>st_files := (st_files st)(st_filePath st \<mapsto> []),
                                   st_file := Some (st_filePath st), st_bad := False\<rparr>)
       in if st_counters st1 = []
          then Done (stat_log Warning
                       ''Statistics counters list is empty, nothing to count and write'' [] st1)
          else (case wr of
                  Throws what \<Rightarrow> Stuck
                | _ \<Rightarrow> Done (put_line wr (the (st_file st1))
                              (''Timestamp,'' @ join_names (map fst (st_counters st1)))
                              (st1\<lparr>st_started := True, st_thread := True\<rparr>))))"

text \<open>
  A line holds the lock shared, as \<open>Increment\<close> and \<open>Set\<close> of other threads do, so those go on
  while the values are read one after the other: \<open>others i\<close> is what they do before the value at
  position \<open>i\<close> is read. Everything else that changes the registry waits for the end of the line.
\<close>

datatype shared_op = ShIncrement string i64 | ShSet string i64

fun shared_apply :: "shared_op \<Rightarrow> statistics \<Rightarrow> statistics" where
  "shared_apply (ShIncrement name d) st = Increment name d st"
| "shared_apply (ShSet name v) st = stat_Set name v st"

fun load_values :: "(nat \<Rightarrow> shared_op list) \<Rightarrow> nat \<Rightarrow> nat \<Rightarrow> statistics \<Rightarrow> i64 list \<times> statistics" where
  "load_values others i 0 st = ([], st)"
| "load_values others i (Suc k) st =
     (let st1 = fold shared_apply (others i) st
      in case load_values others (Suc i) k st1 of
           (vs, st2) \<Rightarrow> (snd (st_counters st1 ! i) # vs, st2))"

text \<open>\<open>now\<close> is the formatted time, \<open>join_values\<close> is \<open>fmt::join\<close> with a comma.\<close>

definition writeStatisticsLine :: "(i64 list \<Rightarrow> string) \<Rightarrow> stream_write \<Rightarrow> string \<Rightarrow>
    (nat \<Rightarrow> shared_op list) \<Rightarrow> statistics \<Rightarrow> statistics" where
  "writeStatisticsLine join_values wr now others st =
     (case st_file st of
        None \<Rightarrow> stat_log Warning ''Trying to write statistics line into closed file'' [] st
      | Some p \<Rightarrow>
          (case load_values others 0 (length (st_counters st)) st of (vs, st1) \<Rightarrow>
             (case wr of
                Throws what \<Rightarrow> stat_log Error ''Cannot write statistics entry by path: {}, error: {}''
                  [ArgStr (st_filePath st1), ArgStr what] st1
              | _ \<Rightarrow> put_line wr p (now @ '','' @ join_values vs) st1)))"

section \<open>Invariant\<close>

text \<open>The names are distinct and the map sends each of them to its position, no other.\<close>

definition stat_ok :: "statistics \<Rightarrow> bool" where
  "stat_ok st \<longleftrightarrow>
     (\<forall>k i. st_index st k = Some i \<longleftrightarrow> i < length (st_counters st) \<and> fst (st_counters st ! i) = k)"

definition registered :: "statistics \<Rightarrow> string \<Rightarrow> bool" where
  "registered st name \<longleftrightarrow> name \<in> fst ` set (st_counters st)"

lemma stat_log_fields [simp]:
  "st_started (stat_log l m a st) = st_started st"
  "st_thread (stat_log l m a st) = st_thread st"
  "st_counters (stat_log l m a st) = st_counters st"
  "st_index (stat_log l m a st) = st_index st"
  "st_file (stat_log l m a st) = st_file st"
  "st_files (stat_log l m a st) = st_files st"
  "st_bad (stat_log l m a st) = st_bad st"
  by (simp_all add: stat_log_def)

lemma stat_ok_index:
  "stat_ok st \<Longrightarrow> st_index st k = Some i \<Longrightarrow> i < length (st_counters st) \<and> fst (st_counters st ! i) = k"
  by (simp add: stat_ok_def)

lemma stat_ok_registered: "stat_ok st \<Longrightarrow> registered st k \<longleftrightarrow> st_index st k \<noteq> None"
  unfolding stat_ok_def registered_def set_conv_nth by force

lemma stat_ok_distinct: "stat_ok st \<Longrightarrow> distinct (map fst (st_counters st))"
  by (auto simp: stat_ok_def distinct_conv_nth) (metis option.inject)

lemma stat_ok_init: "stat_ok (statistics_init files)"
  by (simp add: stat_ok_def statistics_init_def)

lemma stat_ok_log [simp]: "stat_ok (stat_log l m a st) = stat_ok st"
  by (simp add: stat_ok_def stat_log_def)

lemma stat_ok_RegisterCounter: "stat_ok st \<Longrightarrow> stat_ok (RegisterCounter name st)"
  by (auto simp: RegisterCounter_def stat_ok_def nth_append less_Suc_eq)

lemma stat_ok_register_each: "stat_ok st \<Longrightarrow> stat_ok (register_each names st)"
  by (induction names st rule: register_each.induct) (simp_all add: stat_ok_RegisterCounter)

lemma stat_ok_RegisterCounters: "stat_ok st \<Longrightarrow> stat_ok (RegisterCounters names st)"
  by (simp add: RegisterCounters_def stat_ok_register_each)

text \<open>Both writes change the value at a position and keep its name.\<close>

lemma stat_ok_update:
  "stat_ok st \<Longrightarrow> stat_ok (st\<lparr>st_counters := (st_counters st)[i := (fst (st_counters st ! i), v)]\<rparr>)"
proof -
  have "fst ((st_counters st)[i := (fst (st_counters st ! i), v)] ! k) = fst (st_counters st ! k)"
    if "k < length (st_counters st)" for k
    using that by (cases "k = i") simp_all
  moreover assume "stat_ok st"
  ultimately show ?thesis by (auto simp: stat_ok_def)
qed

lemma stat_ok_Increment: "stat_ok st \<Longrightarrow> stat_ok (Increment name d st)"
  by (simp add: Increment_def stat_ok_update split: option.split)

lemma stat_ok_Set: "stat_ok st \<Longrightarrow> stat_ok (stat_Set name v st)"
  by (simp add: stat_Set_def stat_ok_update split: option.split)

text \<open>A line changes the file and the state of its stream only.\<close>

lemma put_line_fields [simp]:
  "st_started (put_line wr p l st) = st_started st" "st_counters (put_line wr p l st) = st_counters st"
  "st_index (put_line wr p l st) = st_index st" "st_file (put_line wr p l st) = st_file st"
  "st_thread (put_line wr p l st) = st_thread st"
  by (simp_all add: put_line_def split: stream_write.split)

lemma stat_ok_put [simp]: "stat_ok (put_line wr p l st) = stat_ok st"
  by (simp add: stat_ok_def)

lemma stat_ok_Start: "stat_ok st \<Longrightarrow> Start can_open j wr st = Done st' \<Longrightarrow> stat_ok st'"
  by (auto simp: Start_def Let_def stat_ok_def split: if_splits option.splits stream_write.splits)

text \<open>What other threads do while a line is written.\<close>

lemma stat_ok_shared: "stat_ok st \<Longrightarrow> stat_ok (fold shared_apply xs st)"
proof (induction xs arbitrary: st)
  case (Cons x xs)
  then show ?case by (cases x) (simp_all add: stat_ok_Increment stat_ok_Set)
qed simp

lemma load_values_eq:
  "load_values others i k st =
     (map (\<lambda>j. snd (st_counters (fold shared_apply (concat (map others [i..<Suc j])) st) ! j)) [i..<i + k],
      fold shared_apply (concat (map others [i..<i + k])) st)"
proof (induction k arbitrary: i st)
  case (Suc k)
  have "[i..<Suc j] = i # [Suc i..<Suc j]" if "i \<le> j" for j
    using that by (simp add: upt_conv_Cons del: upt_Suc)
  then have "map (\<lambda>j. snd (st_counters (fold shared_apply (concat (map others [i..<Suc j])) st) ! j)) [Suc i..<Suc i + k] =
      map (\<lambda>j. snd (st_counters (fold shared_apply (concat (map others [Suc i..<Suc j]))
        (fold shared_apply (others i) st)) ! j)) [Suc i..<Suc i + k]"
    by (intro map_cong refl) (simp del: upt_Suc)
  moreover have "[i..<i + Suc k] = i # [Suc i..<Suc i + k]" by (simp add: upt_conv_Cons del: upt_Suc)
  ultimately show ?case by (simp add: Suc Let_def del: upt_Suc) simp
qed simp

lemma stat_ok_write: "stat_ok st \<Longrightarrow> stat_ok (writeStatisticsLine j wr now others st)"
  by (simp add: writeStatisticsLine_def load_values_eq stat_ok_shared split: option.split stream_write.split)

lemma names_update:
  "map fst (xs[i := (fst (xs ! i), v)]) = map fst xs"
proof (rule nth_equalityI)
  fix k
  assume "k < length (map fst (xs[i := (fst (xs ! i), v)]))"
  then show "map fst (xs[i := (fst (xs ! i), v)]) ! k = map fst xs ! k"
    by (cases "k = i") simp_all
qed simp

lemma names_Increment [simp]: "map fst (st_counters (Increment name d st)) = map fst (st_counters st)"
  by (simp add: Increment_def names_update split: option.split)

lemma names_Set [simp]: "map fst (st_counters (stat_Set name v st)) = map fst (st_counters st)"
  by (simp add: stat_Set_def names_update split: option.split)

lemma registered_names: "registered st name \<longleftrightarrow> name \<in> set (map fst (st_counters st))"
  by (simp add: registered_def)

lemma registered_Increment [simp]: "registered (Increment n d st) = registered st"
  by (simp add: fun_eq_iff registered_names del: set_map)

section \<open>The contract of the counters\<close>

text \<open>
  What a client of the counters relies on: an increment changes the counter it names, when
  that counter is registered, and no other.
\<close>

locale counter_store =
  fixes incr :: "'n \<Rightarrow> i64 \<Rightarrow> 's \<Rightarrow> 's"
    and get :: "'n \<Rightarrow> 's \<Rightarrow> i64"
    and known :: "'s \<Rightarrow> 'n \<Rightarrow> bool"
    and invar :: "'s \<Rightarrow> bool"
  assumes get_incr: "invar s \<Longrightarrow> get n (incr m d s) = (if n = m \<and> known s n then get n s + d else get n s)"
    and known_incr: "invar s \<Longrightarrow> known (incr m d s) = known s"
    and invar_incr: "invar s \<Longrightarrow> invar (incr m d s)"
begin

text \<open>After any run of increments a known counter holds the sum of the deltas given to it.\<close>

lemma get_run:
  "invar s \<Longrightarrow> get n (foldl (\<lambda>s (m, d). incr m d s) s xs) =
     (if known s n then get n s + sum_list (map snd (filter (\<lambda>(m, d). m = n) xs)) else get n s)"
proof (induction xs arbitrary: s)
  case Nil
  then show ?case by simp
next
  case (Cons x xs)
  obtain m d where x: "x = (m, d)" by (cases x)
  have "invar (incr m d s)" using Cons.prems by (rule invar_incr)
  from Cons.IH [OF this] Cons.prems show ?case
    by (simp add: x get_incr known_incr add.assoc)
qed

end

lemma Get_Increment:
  assumes "stat_ok st"
  shows "stat_Get n (Increment m d st) =
    (if n = m \<and> registered st n then stat_Get n st + d else stat_Get n st)"
proof (cases "st_index st m")
  case None
  then show ?thesis
    using stat_ok_registered [OF assms, of m] by (auto simp: Increment_def)
next
  case (Some i)
  then have i: "i < length (st_counters st)" and m: "registered st m"
    using stat_ok_index [OF assms Some] stat_ok_registered [OF assms, of m] by auto
  show ?thesis
  proof (cases "n = m")
    case True
    with Some i m show ?thesis by (simp add: Increment_def stat_Get_def)
  next
    case False
    have "j \<noteq> i" if "st_index st n = Some j" for j
      using stat_ok_index [OF assms that] stat_ok_index [OF assms Some] False by auto
    with False Some show ?thesis
      by (auto simp: Increment_def stat_Get_def split: option.split)
  qed
qed

interpretation cs: counter_store Increment stat_Get registered stat_ok
  by unfold_locales (simp_all add: Get_Increment stat_ok_Increment)

lemma Get_Set:
  assumes "stat_ok st"
  shows "stat_Get n (stat_Set m v st) = (if n = m \<and> registered st n then v else stat_Get n st)"
proof (cases "st_index st m")
  case None
  then show ?thesis
    using stat_ok_registered [OF assms, of m] by (auto simp: stat_Set_def)
next
  case (Some i)
  then have i: "i < length (st_counters st)" and m: "registered st m"
    using stat_ok_index [OF assms Some] stat_ok_registered [OF assms, of m] by auto
  have "j \<noteq> i" if "st_index st n = Some j" and "n \<noteq> m" for j
    using stat_ok_index [OF assms that(1)] stat_ok_index [OF assms Some] that(2) by auto
  with Some i m show ?thesis
    by (auto simp: stat_Set_def stat_Get_def split: option.split)
qed

text \<open>
  After any run of increments from a well-formed registry, a registered counter holds
  its old value plus the sum (modulo \<open>2^64\<close>) of the deltas named for it, and reading an
  unregistered name still gives 0.
\<close>

theorem increments_sum:
  assumes "stat_ok st"
  shows "stat_Get n (foldl (\<lambda>s (m, d). Increment m d s) st xs) =
    (if registered st n
     then stat_Get n st + sum_list (map snd (filter (\<lambda>(m, d). m = n) xs))
     else 0)"
  using cs.get_run [OF assms, of n xs] stat_ok_registered [OF assms, of n]
  by (simp add: stat_Get_def)

text \<open>A registry with two counters.\<close>

definition demo_stats :: statistics where
  "demo_stats = RegisterCounters [''a'', ''b'', ''a''] (statistics_init Map.empty)"

lemma demo_stats_ok: "stat_ok demo_stats"
  by (simp add: demo_stats_def stat_ok_RegisterCounters stat_ok_init)

lemma demo_stats_counters: "st_counters demo_stats = [(''a'', 0), (''b'', 0)]"
  by (simp add: demo_stats_def RegisterCounters_def RegisterCounter_def statistics_init_def)

lemma demo_stats_fields:
  "\<not> st_started demo_stats" "st_file demo_stats = None" "st_filePath demo_stats = DEFAULT_STAT_PATH"
  by (simp_all add: demo_stats_def RegisterCounters_def RegisterCounter_def statistics_init_def)

theorem increments_sum_witness:
  "stat_Get ''a'' (foldl (\<lambda>s (m, d). Increment m d s) demo_stats [(''a'', 3), (''b'', 9), (''a'', -1)]) = 2 \<and>
   stat_Get ''c'' (foldl (\<lambda>s (m, d). Increment m d s) demo_stats [(''c'', 3)]) = 0"
proof -
  have "stat_Get ''a'' demo_stats = 0"
    by (simp add: demo_stats_def RegisterCounters_def RegisterCounter_def statistics_init_def stat_Get_def)
  then show ?thesis
    using increments_sum [OF demo_stats_ok, of "''a''" "[(''a'', 3), (''b'', 9), (''a'', -1)]"]
      increments_sum [OF demo_stats_ok, of "''c''" "[(''c'', 3)]"]
    by (simp add: registered_def demo_stats_counters)
qed

section \<open>Registration\<close>

text \<open>Registering a list adds each new name once, at its first occurrence, with value 0.\<close>

fun new_names :: "string set \<Rightarrow> string list \<Rightarrow> string list" where
  "new_names seen [] = []"
| "new_names seen (n # ns) =
     (if n \<in> seen then new_names seen ns else n # new_names (insert n seen) ns)"

lemma new_names_append:
  "new_names seen (ms @ ns) = new_names seen ms @ new_names (seen \<union> set ms) ns"
  by (induction ms arbitrary: seen) (auto simp: insert_absorb)

lemma new_names_distinct: "distinct ns \<Longrightarrow> set ns \<inter> seen = {} \<Longrightarrow> new_names seen ns = ns"
  by (induction ns arbitrary: seen) auto

lemma register_each_counters:
  assumes "stat_ok st" and "\<not> st_started st"
  shows "st_counters (register_each names st) =
    st_counters st @ map (\<lambda>n. (n, 0)) (new_names (fst ` set (st_counters st)) names)"
  using assms
proof (induction names st rule: register_each.induct)
  case (1 st)
  then show ?case by simp
next
  case (2 name names st)
  let ?st = "RegisterCounter name st"
  have ok: "stat_ok ?st" using 2(2) by (rule stat_ok_RegisterCounter)
  have ns: "\<not> st_started ?st" using 2(3) by (simp add: RegisterCounter_def)
  from 2(1) [OF ok ns] 2(2,3) stat_ok_registered [OF 2(2), of name] show ?case
    by (auto simp: RegisterCounter_def registered_def)
qed

section \<open>A run of the registry\<close>

text \<open>
  It begins with the construction and the file path the configuration gives, if it does. Lines
  are written by the writer thread, once there is one.
\<close>

definition stat_fresh :: "(string \<Rightarrow> bool) \<Rightarrow> statistics \<Rightarrow> bool" where
  "stat_fresh can_open st \<longleftrightarrow> (\<exists>files. st = statistics_init files \<or>
     (\<exists>path. stat_SetFilePath can_open path (statistics_init files) = Done st))"

datatype stat_op = OpRegister "string list" | OpShared shared_op | OpStart stream_write
  | OpWrite stream_write string "nat \<Rightarrow> shared_op list"

fun stat_apply :: "(string \<Rightarrow> bool) \<Rightarrow> (string list \<Rightarrow> string) \<Rightarrow> (i64 list \<Rightarrow> string) \<Rightarrow>
    stat_op \<Rightarrow> statistics \<Rightarrow> statistics outcome" where
  "stat_apply can_open jn jv (OpRegister ns) st = Done (RegisterCounters ns st)"
| "stat_apply can_open jn jv (OpShared x) st = Done (shared_apply x st)"
| "stat_apply can_open jn jv (OpStart wr) st = Start can_open jn wr st"
| "stat_apply can_open jn jv (OpWrite wr now others) st =
     Done (if st_thread st then writeStatisticsLine jv wr now others st else st)"

inductive stat_step :: "(string \<Rightarrow> bool) \<Rightarrow> (string list \<Rightarrow> string) \<Rightarrow> (i64 list \<Rightarrow> string) \<Rightarrow>
    statistics \<Rightarrow> statistics \<Rightarrow> bool"
  for can_open jn jv where
  stat_stepI: "stat_apply can_open jn jv x st = Done st' \<Longrightarrow> stat_step can_open jn jv st st'"

lemma stat_apply_ok: "stat_ok st \<Longrightarrow> stat_apply c jn jv x st = Done st' \<Longrightarrow> stat_ok st'"
  using stat_ok_shared [of st "[y]" for y]
  by (cases x) (auto simp: stat_ok_RegisterCounters stat_ok_write intro: stat_ok_Start)

lemma stat_ok_fresh: "stat_fresh c st \<Longrightarrow> stat_ok st"
  using stat_ok_init by (auto simp: stat_fresh_def stat_SetFilePath_def stat_ok_def split: if_splits)

interpretation stat_inv: invariant_system "stat_step c jn jv" stat_ok "stat_fresh c"
  by unfold_locales (auto intro: stat_ok_fresh elim!: stat_step.cases dest: stat_apply_ok)

text \<open>
  In every state the registry reaches from its construction by registrations, starts,
  accesses and writes, the counter names are distinct and the hash map finds exactly the
  position of each name.
\<close>

theorem registry_invariant:
  assumes "reachable (stat_fresh c) (stat_step c jn jv) st"
  shows "distinct (map fst (st_counters st)) \<and>
    (\<forall>k i. st_index st k = Some i \<longleftrightarrow> i < length (st_counters st) \<and> fst (st_counters st ! i) = k)"
  using stat_inv.inv_reachable [OF assms] by (simp add: stat_ok_distinct stat_ok_def [symmetric])

lemma demo_stats_reachable: "reachable (stat_fresh c) (stat_step c jn jv) demo_stats"
proof -
  have "stat_apply c jn jv (OpRegister [''a'', ''b'', ''a'']) (statistics_init Map.empty) = Done demo_stats"
    by (simp add: demo_stats_def)
  moreover have "stat_fresh c (statistics_init Map.empty)" by (auto simp: stat_fresh_def)
  ultimately show ?thesis by (blast intro: reach_step reach_init stat_stepI)
qed

theorem registry_invariant_witness:
  "distinct (map fst (st_counters demo_stats)) \<and> st_index demo_stats ''b'' = Some 1 \<and>
     st_counters demo_stats \<noteq> []"
  using registry_invariant [OF demo_stats_reachable] by (simp add: demo_stats_counters)

section \<open>The stream\<close>

lemma shared_file [simp]:
  "st_started (shared_apply x st) = st_started st" "st_bad (shared_apply x st) = st_bad st"
  "st_thread (shared_apply x st) = st_thread st" "st_file (shared_apply x st) = st_file st"
  "st_files (shared_apply x st) = st_files st"
  by (cases x; simp add: Increment_def stat_Set_def split: option.split)+

lemma shared_file_fold [simp]:
  "st_started (fold shared_apply xs st) = st_started st" "st_bad (fold shared_apply xs st) = st_bad st"
  "st_thread (fold shared_apply xs st) = st_thread st" "st_file (fold shared_apply xs st) = st_file st"
  "st_files (fold shared_apply xs st) = st_files st"
  by (induction xs arbitrary: st) simp_all

lemma register_stream:
  "st_bad (register_each ns st) = st_bad st" "st_started (register_each ns st) = st_started st"
  "st_thread (register_each ns st) = st_thread st" "st_file (register_each ns st) = st_file st"
  "st_files (register_each ns st) = st_files st"
  by (induction ns st rule: register_each.induct) (simp_all add: RegisterCounter_def)

lemma write_threads:
  "st_started (writeStatisticsLine jv wr now others st) = st_started st"
  "st_thread (writeStatisticsLine jv wr now others st) = st_thread st"
  by (simp_all add: writeStatisticsLine_def load_values_eq split: option.split stream_write.split)

text \<open>Before the start nothing has been written: the stream is in order and its file empty.\<close>

definition unwritten :: "statistics \<Rightarrow> bool" where
  "unwritten st \<longleftrightarrow> st_started st \<or> \<not> st_bad st \<and> \<not> st_thread st \<and>
     (\<forall>p. st_file st = Some p \<longrightarrow> st_files st p = Some [])"

lemma unwritten_apply: "unwritten st \<Longrightarrow> stat_apply c jn jv x st = Done st' \<Longrightarrow> unwritten st'"
  by (cases x) (auto simp: unwritten_def RegisterCounters_def register_stream Start_def Let_def write_threads
      split: if_splits option.splits stream_write.splits)

interpretation unw: invariant_system "stat_step c jn jv" unwritten "stat_fresh c"
proof (unfold_locales, goal_cases)
  case (1 s t)
  then show ?case by (auto elim!: stat_step.cases dest: unwritten_apply)
next
  case (2 s)
  then show ?case by (auto simp: unwritten_def stat_fresh_def stat_SetFilePath_def statistics_init_def split: if_splits)
qed

end
