(* ===== verification/Statistics_Shutdown.thy ===== *)
theory Statistics_Shutdown
  imports Statistics
begin

text \<open>
  The writer thread of \<open>Statistics\<close> against \<open>Stop\<close>. Both use the same shared mutex:
  \<open>writeStatisticsLine\<close> takes it shared, \<open>Stop\<close> takes it exclusively and keeps it while it
  joins the writer. Each program point between two accesses to shared state is a value of
  \<open>wpc\<close> or \<open>spc\<close>, each access is one rule of \<open>shut_step\<close>.
\<close>

section \<open>The two threads\<close>

datatype wpc = WLoop | WSleep | WTest | WLock | WBody | WDone

datatype spc = SIdle | SLocked | SJoin | SClosing | SDone

record shut =
  w_pc :: wpc
  s_pc :: spc
  stop_requested :: bool
  file_open :: bool

text \<open>Who holds the mutex follows from the program points.\<close>

definition holds_unique :: "shut \<Rightarrow> bool" where
  "holds_unique s \<longleftrightarrow> s_pc s \<in> {SLocked, SJoin, SClosing}"

definition holds_shared :: "shut \<Rightarrow> bool" where
  "holds_shared s \<longleftrightarrow> w_pc s = WBody"

definition shut_init :: shut where
  "shut_init = \<lparr>w_pc = WLoop, s_pc = SIdle, stop_requested = False, file_open = True\<rparr>"

inductive shut_step :: "shut \<Rightarrow> shut \<Rightarrow> bool" where
  w_enter: "w_pc s = WLoop \<Longrightarrow> \<not> stop_requested s \<Longrightarrow> shut_step s (s\<lparr>w_pc := WSleep\<rparr>)"
| w_exit: "w_pc s = WLoop \<Longrightarrow> stop_requested s \<Longrightarrow> shut_step s (s\<lparr>w_pc := WDone\<rparr>)"
| w_wake: "w_pc s = WSleep \<Longrightarrow> shut_step s (s\<lparr>w_pc := WTest\<rparr>)"
| w_again: "w_pc s = WTest \<Longrightarrow> stop_requested s \<Longrightarrow> shut_step s (s\<lparr>w_pc := WLoop\<rparr>)"
| w_write: "w_pc s = WTest \<Longrightarrow> \<not> stop_requested s \<Longrightarrow> shut_step s (s\<lparr>w_pc := WLock\<rparr>)"
| w_lock: "w_pc s = WLock \<Longrightarrow> \<not> holds_unique s \<Longrightarrow> shut_step s (s\<lparr>w_pc := WBody\<rparr>)"
| w_unlock: "w_pc s = WBody \<Longrightarrow> shut_step s (s\<lparr>w_pc := WLoop\<rparr>)"
| s_lock: "s_pc s = SIdle \<Longrightarrow> \<not> holds_shared s \<Longrightarrow> shut_step s (s\<lparr>s_pc := SLocked\<rparr>)"
| s_request: "s_pc s = SLocked \<Longrightarrow> shut_step s (s\<lparr>s_pc := SJoin, stop_requested := True\<rparr>)"
| s_join: "s_pc s = SJoin \<Longrightarrow> w_pc s = WDone \<Longrightarrow> shut_step s (s\<lparr>s_pc := SClosing\<rparr>)"
| s_close: "s_pc s = SClosing \<Longrightarrow> shut_step s (s\<lparr>s_pc := SDone, file_open := False\<rparr>)"

inductive_cases shut_stepE: "shut_step s t"
inductive_simps shut_step_iff: "shut_step s t"

definition shut_stuck :: "shut \<Rightarrow> bool" where
  "shut_stuck s \<longleftrightarrow> (\<forall>t. \<not> shut_step s t)"

section \<open>Safety\<close>

text \<open>
  The lock excludes the writer from \<open>Stop\<close>, the writer has ended before the file is closed,
  and the stop flag is up exactly from the request on.
\<close>

definition shut_inv :: "shut \<Rightarrow> bool" where
  "shut_inv s \<longleftrightarrow>
     \<not> (holds_unique s \<and> holds_shared s) \<and>
     (s_pc s \<in> {SClosing, SDone} \<longrightarrow> w_pc s = WDone) \<and>
     (file_open s \<longleftrightarrow> s_pc s \<noteq> SDone) \<and>
     (stop_requested s \<longleftrightarrow> s_pc s \<in> {SJoin, SClosing, SDone}) \<and>
     (w_pc s = WDone \<longrightarrow> stop_requested s)"

lemma shut_inv_step: "shut_step s t \<Longrightarrow> shut_inv s \<Longrightarrow> shut_inv t"
  by (induction rule: shut_step.induct)
    (simp_all add: shut_inv_def holds_unique_def holds_shared_def, blast+)

lemma shut_inv_init: "shut_inv shut_init"
  by (simp add: shut_init_def shut_inv_def holds_unique_def holds_shared_def)

interpretation sh: invariant_system shut_step shut_inv "\<lambda>s. s = shut_init"
  using shut_inv_init shut_inv_step by unfold_locales blast+

text \<open>A writer that has ended does nothing more.\<close>

interpretation ended: step_closed shut_step "\<lambda>s. w_pc s = WDone"
  by unfold_locales (auto elim!: shut_stepE)

abbreviation shut_reachable :: "shut \<Rightarrow> bool" where
  "shut_reachable \<equiv> reachable (\<lambda>s. s = shut_init) shut_step"

text \<open>
  C37: In every interleaving a line is written only before \<open>Stop\<close> has taken the mutex: when
  the writer is past the lock inside \<open>writeStatisticsLine\<close>, \<open>Stop\<close> has not begun and the file is
  open. Once \<open>Stop\<close> has joined, the writer has ended and stays ended, so nothing is written
  while the file is closed or afterwards. (While \<open>Stop\<close> holds the mutex the writer may be inside
  the function only in front of the lock, where it waits.)
\<close>

theorem no_write_after_close:
  assumes "shut_reachable s" and "shut_step\<^sup>*\<^sup>* s t"
  shows "(w_pc s = WBody \<longrightarrow> s_pc s = SIdle \<and> \<not> stop_requested s \<and> file_open s) \<and>
    (s_pc s \<in> {SClosing, SDone} \<longrightarrow> w_pc s = WDone \<and> w_pc t = WDone)"
proof -
  have inv: "shut_inv s" using assms(1) by (rule sh.inv_reachable)
  have "w_pc t = WDone" if "w_pc s = WDone"
    using ended.inv_steps [OF assms(2) that] .
  with inv show ?thesis
    by (cases "s_pc s") (auto simp: shut_inv_def holds_unique_def holds_shared_def)
qed

lemma shut_path:
  assumes "shut_reachable s" and "shut_step s t"
  shows "shut_reachable t"
  using assms by (rule reach_step)

text \<open>The writer is about to take the lock, and has it.\<close>

lemma writer_path:
  "shut_reachable \<lparr>w_pc = WLock, s_pc = SIdle, stop_requested = False, file_open = True\<rparr>"
  "shut_reachable \<lparr>w_pc = WBody, s_pc = SIdle, stop_requested = False, file_open = True\<rparr>"
proof -
  let ?s = "\<lambda>w. \<lparr>w_pc = w, s_pc = SIdle, stop_requested = False, file_open = True\<rparr>"
  have "shut_reachable (?s WLoop)"
    by (rule reach_init) (simp add: shut_init_def)
  then have "shut_reachable (?s WSleep)" by (rule shut_path) (simp add: shut_step_iff)
  then have "shut_reachable (?s WTest)" by (rule shut_path) (simp add: shut_step_iff)
  then show lock: "shut_reachable (?s WLock)" by (rule shut_path) (simp add: shut_step_iff)
  from lock show "shut_reachable (?s WBody)" by (rule shut_path) (simp add: shut_step_iff holds_unique_def)
qed

theorem no_write_after_close_witness:
  "\<exists>s t. shut_reachable s \<and> s_pc s = SClosing \<and> w_pc s = WDone \<and> shut_step s t \<and> \<not> file_open t \<and> w_pc t = WDone"
proof -
  let ?s = "\<lambda>w p b. \<lparr>w_pc = w, s_pc = p, stop_requested = b, file_open = True\<rparr>"
  have "shut_reachable (?s WLoop SIdle False)" by (rule reach_init) (simp add: shut_init_def)
  then have "shut_reachable (?s WLoop SLocked False)"
    by (rule shut_path) (simp add: shut_step_iff holds_shared_def)
  then have "shut_reachable (?s WLoop SJoin True)" by (rule shut_path) (simp add: shut_step_iff)
  then have "shut_reachable (?s WDone SJoin True)" by (rule shut_path) (simp add: shut_step_iff)
  then have r: "shut_reachable (?s WDone SClosing True)" by (rule shut_path) (simp add: shut_step_iff)
  let ?t = "(?s WDone SDone True)\<lparr>file_open := False\<rparr>"
  have st: "shut_step (?s WDone SClosing True) ?t" by (simp add: shut_step_iff)
  then have "shut_step\<^sup>*\<^sup>* (?s WDone SClosing True) ?t" by (rule r_into_rtranclp)
  from no_write_after_close [OF r this] r st show ?thesis by (intro exI conjI) auto
qed

section \<open>The deadlock\<close>

lemma shut_stuck_iff:
  assumes "shut_inv s"
  shows "shut_stuck s \<longleftrightarrow>
    (w_pc s = WDone \<and> s_pc s = SDone) \<or> (w_pc s = WLock \<and> s_pc s = SJoin)"
proof
  assume st: "shut_stuck s"
  show "(w_pc s = WDone \<and> s_pc s = SDone) \<or> (w_pc s = WLock \<and> s_pc s = SJoin)"
    using st assms
    by (cases "w_pc s"; cases "s_pc s"; cases "stop_requested s")
      (simp_all add: shut_stuck_def shut_step_iff shut_inv_def holds_unique_def holds_shared_def,
        blast+)
next
  assume "(w_pc s = WDone \<and> s_pc s = SDone) \<or> (w_pc s = WLock \<and> s_pc s = SJoin)"
  then show "shut_stuck s"
    by (auto simp: shut_stuck_def holds_unique_def elim!: shut_stepE)
qed

definition deadlock_state :: shut where
  "deadlock_state = \<lparr>w_pc = WLock, s_pc = SJoin, stop_requested = True, file_open = True\<rparr>"

lemma deadlock_reachable: "shut_reachable deadlock_state"
proof -
  let ?s = "\<lambda>p b. \<lparr>w_pc = WLock, s_pc = p, stop_requested = b, file_open = True\<rparr>"
  have "shut_reachable (?s SLocked False)"
    by (rule shut_path [OF writer_path(1)]) (simp add: shut_step_iff holds_shared_def)
  then have "shut_reachable (?s SJoin True)" by (rule shut_path) (simp add: shut_step_iff)
  then show ?thesis by (simp add: deadlock_state_def)
qed

text \<open>
  C35: \<open>Stop\<close> can block for ever: a state is reachable in which \<open>Stop\<close> waits in \<open>join\<close>
  holding the mutex, the writer waits for the same mutex, and no thread can move.
\<close>

theorem stop_deadlock:
  "\<exists>s. shut_reachable s \<and> s_pc s = SJoin \<and> w_pc s = WLock \<and> shut_stuck s"
  using deadlock_reachable sh.inv_reachable [OF deadlock_reachable] shut_stuck_iff
  by (intro exI [of _ deadlock_state]) (auto simp: deadlock_state_def)

text \<open>
  That race is the only way to block: a reachable state in which no thread can move is
  either the finished one or the deadlock of \<open>join\<close> against the lock.
\<close>

theorem stuck_only_in_join:
  assumes "shut_reachable s" and "shut_stuck s"
  shows "(w_pc s = WDone \<and> s_pc s = SDone) \<or> (w_pc s = WLock \<and> s_pc s = SJoin)"
  using shut_stuck_iff [OF sh.inv_reachable [OF assms(1)]] assms(2) by blast

theorem stuck_only_in_join_witness:
  "shut_reachable deadlock_state \<and> shut_stuck deadlock_state \<and>
   (w_pc deadlock_state = WDone \<and> s_pc deadlock_state = SDone \<or>
    w_pc deadlock_state = WLock \<and> s_pc deadlock_state = SJoin)"
proof -
  have st: "shut_stuck deadlock_state"
    by (auto simp: shut_stuck_def deadlock_state_def holds_unique_def elim!: shut_stepE)
  show ?thesis
    using stuck_only_in_join [OF deadlock_reachable st] deadlock_reachable st by blast
qed

section \<open>Termination of \<open>Stop\<close> outside the race\<close>

text \<open>Steps left once the request is out and the writer is not waiting for the lock.\<close>

fun steps_left :: "shut \<Rightarrow> nat" where
  "steps_left s =
     (case w_pc s of WSleep \<Rightarrow> 3 | WTest \<Rightarrow> 2 | WLoop \<Rightarrow> 1 | _ \<Rightarrow> 0) +
     (case s_pc s of SJoin \<Rightarrow> 2 | SClosing \<Rightarrow> 1 | _ \<Rightarrow> 0)"

definition joining_safely :: "shut \<Rightarrow> bool" where
  "joining_safely s \<longleftrightarrow> shut_inv s \<and> s_pc s \<in> {SJoin, SClosing, SDone} \<and> w_pc s \<noteq> WLock"

lemma joining_safely_step:
  assumes "joining_safely s" and "shut_step s t"
  shows "joining_safely t \<and> steps_left t < steps_left s"
proof -
  have inv: "shut_inv t"
    using assms shut_inv_step [OF assms(2)] by (simp add: joining_safely_def)
  have "s_pc t \<in> {SJoin, SClosing, SDone} \<and> w_pc t \<noteq> WLock \<and> steps_left t < steps_left s"
    using assms(2,1)
    by (induction rule: shut_step.induct)
      (auto simp: joining_safely_def shut_inv_def holds_unique_def holds_shared_def)
  with inv show ?thesis by (simp add: joining_safely_def)
qed

text \<open>
  C36: If the writer is not waiting for the mutex when \<open>Stop\<close> has requested the stop, every
  schedule ends, within \<open>steps_left\<close> steps, with the writer gone and the file closed.
\<close>

theorem stop_terminates:
  assumes "shut_reachable s" and "s_pc s = SJoin" and "w_pc s \<noteq> WLock"
    and "(shut_step ^^ n) s t"
  shows "n \<le> steps_left s \<and> (shut_stuck t \<longrightarrow> s_pc t = SDone \<and> w_pc t = WDone \<and> \<not> file_open t)"
proof -
  have start: "joining_safely s"
    using sh.inv_reachable [OF assms(1)] assms(2,3) by (simp add: joining_safely_def)
  have "joining_safely t \<and> n + steps_left t \<le> steps_left s"
    using assms(4)
  proof (induction n arbitrary: t)
    case 0
    with start show ?case by simp
  next
    case (Suc n)
    then obtain u where u: "(shut_step ^^ n) s u" and st: "shut_step u t" by auto
    from Suc.IH [OF u] joining_safely_step [OF _ st] show ?case by (auto simp del: steps_left.simps)
  qed
  moreover from this have "shut_stuck t \<longrightarrow> s_pc t = SDone \<and> w_pc t = WDone \<and> \<not> file_open t"
    using shut_stuck_iff [of t] by (auto simp: joining_safely_def shut_inv_def)
  ultimately show ?thesis by simp
qed

theorem stop_terminates_witness:
  "\<exists>s. shut_reachable s \<and> s_pc s = SJoin \<and> w_pc s \<noteq> WLock \<and>
     (\<forall>n t. (shut_step ^^ n) s t \<longrightarrow> n \<le> 3)"
proof -
  let ?s0 = "shut_init"
  let ?s1 = "?s0\<lparr>s_pc := SLocked\<rparr>"
  let ?s2 = "?s1\<lparr>s_pc := SJoin, stop_requested := True\<rparr>"
  have r0: "shut_reachable ?s0" by (rule reach_init) simp
  have r1: "shut_reachable ?s1"
    by (rule shut_path [OF r0]) (rule s_lock, simp_all add: shut_init_def holds_shared_def)
  have r2: "shut_reachable ?s2"
    by (rule shut_path [OF r1]) (rule s_request, simp)
  have a: "s_pc ?s2 = SJoin" and b: "w_pc ?s2 \<noteq> WLock" by (simp_all add: shut_init_def)
  have "n \<le> 3" if "(shut_step ^^ n) ?s2 t" for n t
    using stop_terminates [OF r2 a b that] by (simp add: shut_init_def)
  with r2 a b show ?thesis by blast
qed

end
