(* ===== verification/Statistics_File.thy ===== *)
theory Statistics_File
  imports Statistics
begin

text \<open>
  The statistics file as its readers see it: a header and one row for each line written, up
  to the first write that fails, against a specification that knows nothing but the
  operations. The values of a row are those the counters have one after the other while the
  row is made, not those of one moment.
\<close>

section \<open>The specification\<close>

text \<open>What an increment or an assignment does to the values of the counters.\<close>

fun effect :: "shared_op \<Rightarrow> (string \<Rightarrow> i64) \<Rightarrow> (string \<Rightarrow> i64)" where
  "effect (ShIncrement n d) v = v(n := v n + d)"
| "effect (ShSet n w) v = v(n := w)"

text \<open>
  The values of a row: the one in column \<open>j\<close> is after what other threads have done up to the
  moment at which column \<open>j\<close> is read.
\<close>

definition row_values :: "string list \<Rightarrow> (string \<Rightarrow> i64) \<Rightarrow> (nat \<Rightarrow> shared_op list) \<Rightarrow> i64 list" where
  "row_values names v others =
     map (\<lambda>j. fold effect (concat (map others [0..<Suc j])) v (names ! j)) [0..<length names]"

text \<open>What of a line gets into the file of a stream in order, and whether the stream still is.\<close>

fun line_part :: "stream_write \<Rightarrow> string \<Rightarrow> string list" where
  "line_part Written l = [l]"
| "line_part (Lost k) l = (if k = 0 then [] else [take k l])"
| "line_part (Throws what) l = []"

fun loses :: "stream_write \<Rightarrow> bool" where
  "loses (Lost k) = True"
| "loses _ = False"

fun rows :: "(i64 list \<Rightarrow> string) \<Rightarrow> string list \<Rightarrow> (string \<Rightarrow> i64) \<Rightarrow> stat_op list \<Rightarrow> string list" where
  "rows jv names v [] = []"
| "rows jv names v (OpShared x # xs) = rows jv names (effect x v) xs"
| "rows jv names v (OpWrite wr now others # xs) =
     line_part wr (now @ '','' @ jv (row_values names v others)) @
     (if loses wr then []
      else rows jv names (fold effect (concat (map others [0..<length names])) v) xs)"
| "rows jv names v (_ # xs) = rows jv names v xs"

fun stat_run :: "(string \<Rightarrow> bool) \<Rightarrow> (string list \<Rightarrow> string) \<Rightarrow> (i64 list \<Rightarrow> string) \<Rightarrow>
    stat_op list \<Rightarrow> statistics \<Rightarrow> statistics outcome" where
  "stat_run can_open jn jv [] st = Done st"
| "stat_run can_open jn jv (x # xs) st =
     (case stat_apply can_open jn jv x st of
        Done st1 \<Rightarrow> stat_run can_open jn jv xs st1
      | Exited st1 \<Rightarrow> Exited st1
      | Stuck \<Rightarrow> Stuck)"

section \<open>The values\<close>

text \<open>The registry holds the values \<open>v\<close> under the names, in this order.\<close>

definition holds :: "string list \<Rightarrow> (string \<Rightarrow> i64) \<Rightarrow> statistics \<Rightarrow> bool" where
  "holds names v st \<longleftrightarrow> stat_ok st \<and> map fst (st_counters st) = names \<and>
     (\<forall>n \<in> set names. stat_Get n st = v n)"

lemma holds_value:
  assumes "holds names v st" and "j < length names"
  shows "snd (st_counters st ! j) = v (names ! j)"
proof -
  from assms have j: "j < length (st_counters st)" and n: "names ! j = fst (st_counters st ! j)"
    by (auto simp: holds_def)
  with assms(1) have "st_index st (names ! j) = Some j" by (simp add: holds_def stat_ok_def)
  moreover have "stat_Get (names ! j) st = v (names ! j)"
    using assms by (simp add: holds_def del: set_map)
  ultimately show ?thesis by (simp add: stat_Get_def)
qed

lemma holds_shared: "holds names v st \<Longrightarrow> holds names (effect x v) (shared_apply x st)"
  by (cases x) (auto simp: holds_def stat_ok_Increment stat_ok_Set Get_Increment Get_Set registered_names
      simp del: set_map)

lemma holds_fold: "holds names v st \<Longrightarrow> holds names (fold effect xs v) (fold shared_apply xs st)"
  by (induction xs arbitrary: v st) (simp_all add: holds_shared)

lemma load_row:
  assumes "holds names v st"
  shows "load_values others 0 (length (st_counters st)) st =
    (row_values names v others, fold shared_apply (concat (map others [0..<length names])) st)"
proof -
  have len: "length (st_counters st) = length names" using assms by (auto simp: holds_def)
  have "snd (st_counters (fold shared_apply (concat (map others [0..<Suc j])) st) ! j) =
      fold effect (concat (map others [0..<Suc j])) v (names ! j)" if "j < length names" for j
    by (rule holds_value [OF holds_fold [OF assms] that])
  then show ?thesis unfolding load_values_eq len row_values_def by (simp del: upt_Suc)
qed

lemma holds_cong:
  "st_counters st1 = st_counters st \<Longrightarrow> st_index st1 = st_index st \<Longrightarrow> holds names v st1 = holds names v st"
  by (simp add: holds_def stat_ok_def stat_Get_def split: option.split)

lemma holds_same [simp]:
  "holds names v (stat_log l m a st) = holds names v st" "holds names v (put_line wr p ln st) = holds names v st"
  by (rule holds_cong; simp)+

section \<open>The refinement\<close>

definition writes_table :: "string \<Rightarrow> string list \<Rightarrow> (string \<Rightarrow> i64) \<Rightarrow> string list \<Rightarrow> statistics \<Rightarrow> bool" where
  "writes_table p names v ls st \<longleftrightarrow> st_started st \<and> st_thread st \<and> holds names v st \<and> \<not> st_bad st \<and>
     st_file st = Some p \<and> st_files st p = Some ls"

text \<open>A stream in an error state leaves the file as it is.\<close>

definition lost_table :: "string \<Rightarrow> string list \<Rightarrow> statistics \<Rightarrow> bool" where
  "lost_table p ls st \<longleftrightarrow> st_started st \<and> st_thread st \<and> st_bad st \<and> st_file st = Some p \<and> st_files st p = Some ls"

lemma put_line_result:
  assumes "st_files st p = Some ls" and "\<not> st_bad st"
  shows "st_files (put_line wr p l st) p = Some (ls @ line_part wr l)"
    and "st_bad (put_line wr p l st) = loses wr"
  using assms by (cases wr; simp add: put_line_def append_line_def)+

lemma lost_step:
  assumes "lost_table p ls st"
  shows "\<exists>st1. stat_apply c jn jv x st = Done st1 \<and> lost_table p ls st1"
  using assms
  by (cases x) (auto simp: lost_table_def RegisterCounters_def Start_def writeStatisticsLine_def put_line_def
      split: prod.split stream_write.split simp: load_values_eq)

lemma lost_run: "lost_table p ls st \<Longrightarrow> \<exists>st2. stat_run c jn jv xs st = Done st2 \<and> st_files st2 p = Some ls"
proof (induction xs arbitrary: st)
  case Nil
  then show ?case by (simp add: lost_table_def)
next
  case (Cons x xs)
  from lost_step [OF Cons.prems] obtain st1 where "stat_apply c jn jv x st = Done st1" "lost_table p ls st1"
    by blast
  with Cons.IH [of st1] show ?case by simp
qed

lemma table_write:
  assumes "writes_table p names v ls st"
  shows "let st1 = writeStatisticsLine jv wr now others st;
      ls1 = ls @ line_part wr (now @ '','' @ jv (row_values names v others))
    in if loses wr then lost_table p ls1 st1
       else writes_table p names (fold effect (concat (map others [0..<length names])) v) ls1 st1"
proof -
  let ?st = "fold shared_apply (concat (map others [0..<length names])) st"
  from assms have h: "holds names v st" by (simp add: writes_table_def)
  from assms have f: "st_files ?st p = Some ls" "\<not> st_bad ?st" "st_started ?st" "st_thread ?st" "st_file ?st = Some p"
    "holds names (fold effect (concat (map others [0..<length names])) v) ?st"
    by (simp_all add: writes_table_def holds_fold)
  from assms have "writeStatisticsLine jv wr now others st =
      (case wr of Throws what \<Rightarrow> stat_log Error ''Cannot write statistics entry by path: {}, error: {}''
          [ArgStr (st_filePath ?st), ArgStr what] ?st
       | _ \<Rightarrow> put_line wr p (now @ '','' @ jv (row_values names v others)) ?st)"
    by (simp add: writeStatisticsLine_def writes_table_def load_row [OF h])
  with f put_line_result [OF f(1,2), of wr] show ?thesis
    by (cases wr) (simp_all add: writes_table_def lost_table_def Let_def)
qed

lemma table_run:
  "writes_table p names v ls st \<Longrightarrow> \<exists>st2. stat_run c jn jv xs st = Done st2 \<and>
     st_files st2 p = Some (ls @ rows jv names v xs)"
proof (induction xs arbitrary: st v ls)
  case Nil
  then show ?case by (simp add: writes_table_def)
next
  case (Cons x xs)
  show ?case
  proof (cases x)
    case (OpWrite wr now others)
    note step = table_write [OF Cons.prems, of jv wr now others, unfolded Let_def]
    show ?thesis
    proof (cases "loses wr")
      case True
      with step lost_run [of p _ _ c jn jv xs] OpWrite Cons.prems show ?thesis by (simp add: writes_table_def)
    next
      case False
      with step have "writes_table p names (fold effect (concat (map others [0..<length names])) v)
        (ls @ line_part wr (now @ '','' @ jv (row_values names v others)))
        (writeStatisticsLine jv wr now others st)" by simp
      from Cons.IH [OF this] OpWrite False Cons.prems show ?thesis by (simp add: writes_table_def)
    qed
  next
    case (OpShared y)
    have "writes_table p names (effect y v) ls (shared_apply y st)"
      using Cons.prems by (simp add: writes_table_def holds_shared)
    from Cons.IH [OF this] OpShared show ?thesis by simp
  next
    case (OpRegister ns)
    have "writes_table p names v ls (RegisterCounters ns st)"
      using Cons.prems by (simp add: writes_table_def RegisterCounters_def)
    from Cons.IH [OF this] OpRegister show ?thesis by simp
  next
    case (OpStart wr)
    then have "stat_apply c jn jv x st = Done (stat_log Warning ''Statistics are already started'' [] st)"
      using Cons.prems by (simp add: Start_def writes_table_def)
    moreover have "writes_table p names v ls (stat_log Warning ''Statistics are already started'' [] st)"
      using Cons.prems by (simp add: writes_table_def)
    ultimately show ?thesis using Cons.IH OpStart by simp
  qed
qed


text \<open>What \<open>Start\<close> makes of a stream in order.\<close>

lemma started_table:
  assumes "\<not> st_started st" and "Start c jn wr st = Done st1" and "st_started st1"
    and "unwritten st" and "holds names v st"
  shows "let ls = line_part wr (''Timestamp,'' @ jn names)
    in if loses wr then lost_table (the (st_file st1)) ls st1 else writes_table (the (st_file st1)) names v ls st1"
proof -
  have names: "map fst (st_counters st) = names" using assms(5) by (simp add: holds_def)
  from assms(1-3) have same: "st_counters st1 = st_counters st" "st_index st1 = st_index st"
    by (auto simp: Start_def Let_def split: if_splits option.splits stream_write.splits)
  have "st_thread st1 \<and> st_file st1 \<noteq> None \<and> st_bad st1 = loses wr \<and> st_files st1 (the (st_file st1)) =
      Some (line_part wr (''Timestamp,'' @ jn (map fst (st_counters st))))"
    using assms(1-4) [unfolded unwritten_def]
    by (cases wr; cases "st_file st")
      (auto simp: Start_def Let_def put_line_def append_line_def split: if_splits option.splits)
  with assms(3,5) names show ?thesis
    by (auto simp: Let_def writes_table_def lost_table_def holds_cong [OF same])
qed

text \<open>
  C34: The statistics file is a table. From any state before the start, once \<open>Start\<close> has
  returned, every sequence of increments, assignments, late registrations, further starts and
  lines of the writer returns, and the file is the header with the names registered before
  and one row for each line, up to the first output that fails. A row holds in each column the
  value its counter has at the moment it is read, after all increments and assignments up to
  then, those included that other threads make between the columns while the line is being
  made. A line whose formatting raises an exception leaves no row; an output that fails leaves
  what has reached the file of it, and everything after it is lost without notice.
\<close>

theorem statistics_file_is_table:
  assumes "reachable (stat_fresh c) (stat_step c jn jv) st"
    and "\<not> st_started st" and "Start c jn wr st = Done st1" and "st_started st1"
  shows "\<exists>st2. stat_run c jn jv ops st1 = Done st2 \<and> st_files st2 (the (st_file st1)) =
    Some (line_part wr (''Timestamp,'' @ jn (map fst (st_counters st))) @
      (if loses wr then [] else rows jv (map fst (st_counters st)) (\<lambda>n. stat_Get n st) ops))"
proof -
  let ?head = "line_part wr (''Timestamp,'' @ jn (map fst (st_counters st)))"
  let ?p = "the (st_file st1)"
  from assms(1) have ok: "stat_ok st" by (rule stat_inv.inv_reachable)
  from assms(1) have good: "unwritten st" by (rule unw.inv_reachable)
  have h: "holds (map fst (st_counters st)) (\<lambda>n. stat_Get n st) st" using ok by (simp add: holds_def)
  have "if loses wr then lost_table ?p ?head st1
    else writes_table ?p (map fst (st_counters st)) (\<lambda>n. stat_Get n st) ?head st1"
    by (rule started_table [OF assms(2-4) good h, unfolded Let_def])
  then show ?thesis
    using lost_run [of ?p "?head" st1 c jn jv ops]
      table_run [of ?p "map fst (st_counters st)" "\<lambda>n. stat_Get n st" "?head" st1 c jn jv ops]
    by (cases "loses wr") simp_all
qed

text \<open>
  Two counters, the second one incremented between the two reads of the first line; a line whose
  formatting fails, a late registration, and a line that is cut off by a full disk.
\<close>

definition demo_table_ops :: "stat_op list" where
  "demo_table_ops = [OpShared (ShIncrement ''a'' 1),
     OpWrite Written ''t1'' (\<lambda>i. if i = 1 then [ShIncrement ''a'' 1, ShIncrement ''b'' 1] else []),
     OpWrite (Throws ''full'') ''t2'' (\<lambda>_. []), OpRegister [''z''], OpWrite Written ''t3'' (\<lambda>_. []),
     OpWrite (Lost 2) ''t4'' (\<lambda>_. []), OpWrite Written ''t5'' (\<lambda>_. [])]"

definition digits :: "i64 list \<Rightarrow> string" where
  "digits vs = map (\<lambda>v. if v = 0 then CHR ''0'' else if v = 1 then CHR ''1'' else CHR ''2'') vs"

theorem statistics_file_is_table_witness:
  "\<exists>st1 st2. Start (\<lambda>_. True) concat Written demo_stats = Done st1 \<and>
     stat_run (\<lambda>_. True) concat digits demo_table_ops st1 = Done st2 \<and>
     st_files st2 DEFAULT_STAT_PATH = Some [''Timestamp,ab'', ''t1,11'', ''t3,21'', ''t4'']"
proof -
  obtain st1 where st1: "Start (\<lambda>_. True) concat Written demo_stats = Done st1" "st_started st1"
    "the (st_file st1) = DEFAULT_STAT_PATH"
    by (simp add: Start_def demo_stats_fields demo_stats_counters)
  have get: "stat_Get ''a'' demo_stats = 0" "stat_Get ''b'' demo_stats = 0"
    by (simp_all add: demo_stats_def RegisterCounters_def RegisterCounter_def statistics_init_def stat_Get_def)
  from statistics_file_is_table [OF demo_stats_reachable demo_stats_fields(1) st1(1,2), of digits demo_table_ops]
    st1(1,3)
  show ?thesis
    by (simp add: demo_stats_fields demo_stats_counters demo_table_ops_def row_values_def digits_def get)
qed

end
