(* ===== verification/Std_Map.thy ===== *)
theory Std_Map
  imports Prelude
begin

text \<open>
  \<open>std::map\<close> with an ordered key, as the player uses it: an association list kept strictly
  ascending in the key, so that \<open>begin()\<close> is the head of the list. The locale
  \<open>ordered_map\<close> is the interface the player's proofs use; it is interpreted on these
  operations.
\<close>

type_synonym ('k, 'v) smap = "('k \<times> 'v) list"

section \<open>Operations\<close>

text \<open>\<open>find\<close>: \<open>None\<close> is \<open>end()\<close>.\<close>

fun map_find :: "('k, 'v) smap \<Rightarrow> 'k \<Rightarrow> 'v option" where
  "map_find [] k = None"
| "map_find ((a, b) # m) k = (if k = a then Some b else map_find m k)"

text \<open>\<open>m[k] = v\<close>: overwrites the entry of \<open>k\<close> or inserts one at its place.\<close>

fun map_assign :: "('k::linorder) \<Rightarrow> 'v \<Rightarrow> ('k, 'v) smap \<Rightarrow> ('k, 'v) smap" where
  "map_assign k v [] = [(k, v)]"
| "map_assign k v ((a, b) # m) =
     (if k < a then (k, v) # (a, b) # m
      else if k = a then (k, v) # m
      else (a, b) # map_assign k v m)"

text \<open>\<open>emplace\<close> keeps an entry that is already there.\<close>

definition map_emplace :: "('k::linorder) \<Rightarrow> 'v \<Rightarrow> ('k, 'v) smap \<Rightarrow> ('k, 'v) smap" where
  "map_emplace k v m = (case map_find m k of None \<Rightarrow> map_assign k v m | Some _ \<Rightarrow> m)"

fun map_erase :: "'k \<Rightarrow> ('k, 'v) smap \<Rightarrow> ('k, 'v) smap" where
  "map_erase k [] = []"
| "map_erase k ((a, b) # m) = (if k = a then m else (a, b) # map_erase k m)"

text \<open>\<open>begin()->first\<close>: \<open>None\<close> on an empty map.\<close>

definition map_begin :: "('k, 'v) smap \<Rightarrow> 'k option" where
  "map_begin m = (case m of [] \<Rightarrow> None | (a, _) # _ \<Rightarrow> Some a)"

definition map_keys :: "('k, 'v) smap \<Rightarrow> 'k set" where
  "map_keys m = fst ` set m"

definition map_ok :: "('k::linorder, 'v) smap \<Rightarrow> bool" where
  "map_ok m \<longleftrightarrow> sorted_wrt (<) (map fst m)"

section \<open>The interface\<close>

locale ordered_map =
  fixes find :: "'m \<Rightarrow> 'k::linorder \<Rightarrow> 'v option"
    and assign :: "'k \<Rightarrow> 'v \<Rightarrow> 'm \<Rightarrow> 'm"
    and erase :: "'k \<Rightarrow> 'm \<Rightarrow> 'm"
    and least :: "'m \<Rightarrow> 'k option"
    and invar :: "'m \<Rightarrow> bool"
    and empty :: "'m"
  assumes find_empty: "find empty k = None"
    and find_assign: "invar m \<Longrightarrow> find (assign k v m) j = (if j = k then Some v else find m j)"
    and find_erase: "invar m \<Longrightarrow> find (erase k m) j = (if j = k then None else find m j)"
    and least_None: "invar m \<Longrightarrow> least m = None \<longleftrightarrow> (\<forall>k. find m k = None)"
    and least_Some: "invar m \<Longrightarrow> least m = Some k \<Longrightarrow> find m k \<noteq> None"
    and least_le: "invar m \<Longrightarrow> least m = Some k \<Longrightarrow> find m j \<noteq> None \<Longrightarrow> k \<le> j"
    and invar_empty: "invar empty"
    and invar_assign: "invar m \<Longrightarrow> invar (assign k v m)"
    and invar_erase: "invar m \<Longrightarrow> invar (erase k m)"
begin

lemma least_exists: "invar m \<Longrightarrow> find m j \<noteq> None \<Longrightarrow> \<exists>k. least m = Some k \<and> k \<le> j"
  using least_None least_le by (cases "least m") auto

lemma least_eq: "invar m \<Longrightarrow> find m k \<noteq> None \<Longrightarrow> (\<And>j. find m j \<noteq> None \<Longrightarrow> k \<le> j) \<Longrightarrow>
    least m = Some k"
  using least_exists [of m k] least_Some [of m] by (metis order_antisym)

lemma least_unique: "invar m \<Longrightarrow> least m = Some k \<Longrightarrow> least m = Some j \<Longrightarrow> j = k"
  by simp

lemma least_assign:
  assumes "invar m" and "least m = Some k" and "k \<le> j"
  shows "least (assign j v m) = Some k"
proof (rule least_eq)
  show "invar (assign j v m)" using assms(1) by (rule invar_assign)
  show "find (assign j v m) k \<noteq> None"
    using assms(1) least_Some [OF assms(1,2)] by (simp add: find_assign)
  show "k \<le> i" if "find (assign j v m) i \<noteq> None" for i
    using that assms least_le [OF assms(1,2), of i] by (auto simp: find_assign split: if_splits)
qed

text \<open>An entry below a bound keeps the least key below it, whatever is stored.\<close>

lemma least_below_assign:
  assumes "invar m" and "least m = Some k" and "k < b"
  shows "\<exists>k'. least (assign j v m) = Some k' \<and> k' < b"
proof -
  have "find (assign j v m) k \<noteq> None"
    using assms(1) least_Some [OF assms(1,2)] by (simp add: find_assign)
  from least_exists [OF invar_assign [OF assms(1)] this] assms(3) show ?thesis
    by force
qed

end

section \<open>The association list provides it\<close>

lemma map_find_keys: "map_find m k \<noteq> None \<longleftrightarrow> k \<in> map_keys m"
  by (induction m k rule: map_find.induct) (auto simp: map_keys_def)

lemma map_keys_assign: "map_keys (map_assign k v m) = insert k (map_keys m)"
  by (induction k v m rule: map_assign.induct) (auto simp: map_keys_def)

lemma map_keys_erase: "map_keys (map_erase k m) \<subseteq> map_keys m"
  by (induction k m rule: map_erase.induct) (auto simp: map_keys_def)

lemma map_ok_Cons:
  "map_ok ((a, b) # m) \<longleftrightarrow> map_ok m \<and> (\<forall>k \<in> map_keys m. a < k)"
  by (auto simp: map_ok_def map_keys_def)

lemma map_ok_Nil [simp]: "map_ok []"
  by (simp add: map_ok_def)

lemma map_find_assign: "map_find (map_assign k v m) j = (if j = k then Some v else map_find m j)"
  by (induction k v m rule: map_assign.induct) auto

lemma map_ok_assign: "map_ok m \<Longrightarrow> map_ok (map_assign k v m)"
proof (induction k v m rule: map_assign.induct)
  case (1 k v)
  show ?case by (simp add: map_ok_def)
next
  case (2 k v a b m)
  then have ok: "map_ok m" and lt: "\<forall>x \<in> map_keys m. a < x" by (auto simp: map_ok_Cons)
  consider "k < a" | "k = a" | "a < k" by force
  then show ?case
  proof cases
    case 1
    with 2 lt show ?thesis by (fastforce simp: map_ok_Cons map_keys_def)
  next
    case 2
    with ok lt show ?thesis by (simp add: map_ok_Cons)
  next
    case 3
    with 2 ok lt show ?thesis by (auto simp: map_ok_Cons map_keys_assign)
  qed
qed

lemma map_find_erase:
  "map_ok m \<Longrightarrow> map_find (map_erase k m) j = (if j = k then None else map_find m j)"
proof (induction k m rule: map_erase.induct)
  case (1 k)
  then show ?case by simp
next
  case (2 k a b m)
  then have "map_find m a = None"
    using map_find_keys [of m a] by (auto simp: map_ok_Cons)
  with 2 show ?case by (auto simp: map_ok_Cons)
qed

lemma map_ok_erase: "map_ok m \<Longrightarrow> map_ok (map_erase k m)"
proof (induction k m rule: map_erase.induct)
  case (1 k)
  then show ?case by simp
next
  case (2 k a b m)
  then show ?case
    using map_keys_erase [of k m] by (auto simp: map_ok_Cons)
qed

interpretation om: ordered_map map_find map_assign map_erase map_begin map_ok "[]"
proof
  fix m :: "('a, 'b) smap" and k j v
  show "map_begin m = None \<longleftrightarrow> (\<forall>k. map_find m k = None)" if "map_ok m"
    by (cases m) (auto simp: map_begin_def dest: spec [of _ "fst (hd m)"])
  show "map_find m k \<noteq> None" if "map_ok m" and "map_begin m = Some k"
    using that by (cases m) (auto simp: map_begin_def)
  show "k \<le> j" if "map_ok m" and "map_begin m = Some k" and "map_find m j \<noteq> None"
  proof (cases m)
    case Nil
    with that show ?thesis by (simp add: map_begin_def)
  next
    case (Cons p m')
    with that show ?thesis
      using map_find_keys [of m' j]
      by (cases p) (auto simp: map_begin_def map_ok_Cons split: if_splits)
  qed
qed (simp_all add: map_find_assign map_find_erase map_ok_assign map_ok_erase)

lemma map_ok_emplace: "map_ok m \<Longrightarrow> map_ok (map_emplace k v m)"
  by (simp add: map_emplace_def map_ok_assign split: option.split)

lemma map_find_emplace:
  "map_find (map_emplace k v m) j =
     (if j = k \<and> map_find m k = None then Some v else map_find m j)"
  by (simp add: map_emplace_def map_find_assign split: option.split)

text \<open>A well-formed map is determined by its lookups.\<close>

lemma map_ext: "map_ok m \<Longrightarrow> map_ok m' \<Longrightarrow> map_find m = map_find m' \<Longrightarrow> m = m'"
proof (induction m arbitrary: m')
  case Nil
  then show ?case
    by (cases m') (auto simp: fun_eq_iff dest: spec [of _ "fst (hd m')"])
next
  case (Cons p m)
  obtain a b where p: "p = (a, b)" by (cases p)
  from fun_cong [OF Cons.prems(3), of a] have a: "map_find m' a = Some b" by (simp add: p)
  then obtain a' b' n where m': "m' = (a', b') # n" by (cases m') auto
  have "a = a'"
  proof (rule order_antisym)
    have "map_find (p # m) a' \<noteq> None"
      using fun_cong [OF Cons.prems(3), of a'] by (simp add: m')
    then show "a \<le> a'" by (intro om.least_le [OF Cons.prems(1)]) (simp_all add: p map_begin_def)
    show "a' \<le> a"
      using a by (intro om.least_le [OF Cons.prems(2)]) (auto simp: m' map_begin_def)
  qed
  with a have b: "b = b'" by (simp add: m')
  have none: "map_find m a = None" "map_find n a = None"
    using Cons.prems(1,2) map_find_keys [of m a] map_find_keys [of n a] \<open>a = a'\<close>
    by (auto simp: p m' map_ok_Cons)
  have "map_find m k = map_find n k" for k
    using fun_cong [OF Cons.prems(3), of k] none \<open>a = a'\<close> by (cases "k = a") (simp_all add: p m')
  then have "map_find m = map_find n" ..
  with Cons.IH [of n] Cons.prems(1,2) have "m = n" by (simp add: p m' map_ok_Cons)
  with \<open>a = a'\<close> b show ?case by (simp add: p m')
qed

end
