(* ===== verification/Player.thy ===== *)
theory Player
  imports Std_Map Statistics
begin

text \<open>
  The player of \<open>common/video/Player.h\<close>: the assembly of NAL units from blocks
  (\<open>AddBlock\<close>, called by the server's processor thread) and the playback loop
  (\<open>Run\<close>, the player thread). Both work under the same mutex, so each is one step. What
  the player does to its surroundings is recorded in \<open>pl_events\<close>, in order.
\<close>

section \<open>State\<close>

record nalu_assembly =
  na_totalBlocks :: u32
  na_blocks :: "bytes option list"

definition NaluAssembly :: "u32 \<Rightarrow> nalu_assembly" where
  "NaluAssembly total_blocks =
     \<lparr>na_totalBlocks = total_blocks, na_blocks = replicate (unat total_blocks) None\<rparr>"

text \<open>\<open>Displayed i d\<close> is a call of \<open>DecodeAndDisplayNalu\<close>.\<close>

datatype player_event = Logged log_call | NotifyOne | NotifyAll | Displayed u32 bytes

text \<open>
  \<open>pl_thread\<close>: the player thread is joinable; \<open>pl_running\<close>: it is inside the loop of
  \<open>Run\<close>. The statistics are the counters the player increments.
\<close>

record player =
  pl_assembling :: "(u32, nalu_assembly) smap"
  pl_readyNalus :: "(u32, bytes) smap"
  pl_nextNaluIndex :: u32
  pl_stop :: bool
  pl_thread :: bool
  pl_running :: bool
  pl_stats :: statistics
  pl_events :: "player_event list"

definition player_init :: "statistics \<Rightarrow> player" where
  "player_init st =
     \<lparr>pl_assembling = [], pl_readyNalus = [], pl_nextNaluIndex = 0, pl_stop = False,
      pl_thread = False, pl_running = False, pl_stats = st, pl_events = []\<rparr>"

definition emit :: "player_event list \<Rightarrow> player \<Rightarrow> player" where
  "emit evs p = p\<lparr>pl_events := pl_events p @ evs\<rparr>"

definition count :: "string \<Rightarrow> i64 \<Rightarrow> player \<Rightarrow> player" where
  "count name delta p = p\<lparr>pl_stats := Increment name delta (pl_stats p)\<rparr>"

definition plog :: "LogLevel \<Rightarrow> string \<Rightarrow> log_arg list \<Rightarrow> player_event" where
  "plog level msg args = Logged (LogCall level msg args)"

section \<open>Assembly\<close>

text \<open>The loop that looks for a missing block.\<close>

fun all_present :: "bytes option list \<Rightarrow> bool" where
  "all_present [] = True"
| "all_present (b # bs) = (if b = None then False else all_present bs)"

text \<open>The loop that puts the blocks together.\<close>

fun join_blocks :: "bytes option list \<Rightarrow> bytes" where
  "join_blocks [] = []"
| "join_blocks (b # bs) = (case b of Some d \<Rightarrow> d | None \<Rightarrow> []) @ join_blocks bs"

definition open_assembly :: "u32 \<Rightarrow> u32 \<Rightarrow> player \<Rightarrow> player" where
  "open_assembly naluIndex naluBlockSize p =
     (case map_find (pl_assembling p) naluIndex of
        Some _ \<Rightarrow> p
      | None \<Rightarrow> count EXPECTED_BLOCKS (ucast naluBlockSize)
                  (p\<lparr>pl_assembling :=
                     map_emplace naluIndex (NaluAssembly naluBlockSize) (pl_assembling p)\<rparr>))"

definition complete_nalu :: "u32 \<Rightarrow> bytes \<Rightarrow> player \<Rightarrow> player" where
  "complete_nalu naluIndex fullNalu p =
     emit [plog Debug ''NALU {} complete, size {}''
             [ArgNat (unat naluIndex), ArgNat (length fullNalu)], NotifyOne]
       (count ASSEMBLED_NALU 1
         (p\<lparr>pl_assembling := map_erase naluIndex (pl_assembling p),
            pl_readyNalus := map_assign naluIndex fullNalu (pl_readyNalus p)\<rparr>))"

definition AddBlock :: "u32 \<Rightarrow> u32 \<Rightarrow> u32 \<Rightarrow> bytes \<Rightarrow> player \<Rightarrow> player" where
  "AddBlock blockIndex naluIndex naluBlockSize data p =
     (let p1 = open_assembly naluIndex naluBlockSize (count ACCEPTED_BLOCKS 1 p)
      in case map_find (pl_assembling p1) naluIndex of
           None \<Rightarrow> p1
         | Some assembly \<Rightarrow>
             if length (na_blocks assembly) \<le> unat blockIndex
             then emit [plog Error ''Invalid blockIndex {} for nalu {} with size {}''
                          [ArgNat (unat blockIndex), ArgNat (unat naluIndex),
                           ArgNat (unat naluBlockSize)]] p1
             else let blocks = (na_blocks assembly)[unat blockIndex := Some data];
                      p2 = p1\<lparr>pl_assembling :=
                             map_assign naluIndex (assembly\<lparr>na_blocks := blocks\<rparr>)
                               (pl_assembling p1)\<rparr>
               in if all_present blocks then complete_nalu naluIndex (join_blocks blocks) p2
                  else p2)"

section \<open>Playback\<close>

datatype sdl_event = SDL_QUIT | SDL_OTHER

fun PollEvents :: "sdl_event list \<Rightarrow> player \<Rightarrow> player" where
  "PollEvents [] p = p"
| "PollEvents (ev # evs) p = (if ev = SDL_QUIT then p\<lparr>pl_stop := True\<rparr> else PollEvents evs p)"

text \<open>The predicate of \<open>wait_for\<close>, and what the wait returns: its value at the end.\<close>

definition wait_pred :: "player \<Rightarrow> bool" where
  "wait_pred p \<longleftrightarrow> pl_stop p \<or> map_begin (pl_readyNalus p) = Some (pl_nextNaluIndex p)"

definition show_next :: "player \<Rightarrow> player" where
  "show_next p =
     (let idx = pl_nextNaluIndex p
      in case map_find (pl_readyNalus p) idx of
           Some nalu \<Rightarrow>
             emit [plog Debug ''Current expected nalu {} found. Sending it to decode and display''
                     [ArgNat (unat idx)], Displayed idx nalu]
               (p\<lparr>pl_readyNalus := map_erase idx (pl_readyNalus p), pl_nextNaluIndex := idx + 1\<rparr>)
         | None \<Rightarrow>
             count SKIPPED_NALU 1
               (emit [plog Warning ''Unexpected: condition true but nalu {} not found''
                        [ArgNat (unat idx)]] p))"

definition skip_missing :: "player \<Rightarrow> player" where
  "skip_missing p =
     (case map_begin (pl_readyNalus p) of
        None \<Rightarrow> p
      | Some firstIndex \<Rightarrow>
          if pl_nextNaluIndex p < firstIndex
          then (count SKIPPED_NALU 1
                 (emit [plog Warning ''NALU {} is missing, skipping to next available {}''
                    [ArgNat (unat (pl_nextNaluIndex p)), ArgNat (unat firstIndex)]] p))
               \<lparr>pl_nextNaluIndex := firstIndex\<rparr>
          else p)"

text \<open>
  One pass of the loop of \<open>Run\<close>: the guard, the events, the wait that ends with the
  predicate true or by timeout, and what follows. The pause until the next tick changes
  nothing.
\<close>

definition run_iteration :: "sdl_event list \<Rightarrow> player \<Rightarrow> player" where
  "run_iteration evs p =
     (if \<not> pl_running p then p
      else if pl_stop p then p\<lparr>pl_running := False\<rparr>
      else let p1 = PollEvents evs p
       in if wait_pred p1
          then (if pl_stop p1 then p1\<lparr>pl_running := False\<rparr> else show_next p1)
          else skip_missing p1)"

text \<open>\<open>window_ok\<close>: the window and the renderer could be created.\<close>

definition Start_player :: "bool \<Rightarrow> player \<Rightarrow> player" where
  "Start_player window_ok p =
     (if pl_thread p then p
      else if window_ok then p\<lparr>pl_stop := False, pl_thread := True, pl_running := True\<rparr>
      else emit [plog Error ''Failed to create SDL window and renderer'' []]
             (p\<lparr>pl_stop := False, pl_thread := True, pl_running := False\<rparr>))"

definition Stop_player :: "player \<Rightarrow> player" where
  "Stop_player p =
     (if pl_thread p
      then emit [NotifyAll] (p\<lparr>pl_stop := True, pl_thread := False, pl_running := False\<rparr>)
      else p)"

definition IsFinished :: "player \<Rightarrow> bool" where
  "IsFinished p = pl_stop p"

section \<open>Runs\<close>

text \<open>
  The steps of all threads on the player's state: a block arrives, a pass of the loop, start
  and stop; and the receiver thread, which counts a packet in the shared statistics.
\<close>

datatype player_op = Arrive u32 u32 u32 bytes | Tick "sdl_event list" | StartOp bool | StopOp
  | CountPacket

fun player_apply :: "player_op \<Rightarrow> player \<Rightarrow> player" where
  "player_apply (Arrive bi ni ns d) p = AddBlock bi ni ns d p"
| "player_apply (Tick evs) p = run_iteration evs p"
| "player_apply (StartOp ok) p = Start_player ok p"
| "player_apply StopOp p = Stop_player p"
| "player_apply CountPacket p = count ACCEPTED_PACKETS 1 p"

fun player_run :: "player_op list \<Rightarrow> player \<Rightarrow> player" where
  "player_run [] p = p"
| "player_run (x # xs) p = player_run xs (player_apply x p)"

inductive player_step :: "player \<Rightarrow> player \<Rightarrow> bool" where
  player_stepI: "player_step p (player_apply x p)"

inductive_cases player_stepE: "player_step p q"

fun displayed :: "player_event list \<Rightarrow> (u32 \<times> bytes) list" where
  "displayed [] = []"
| "displayed (Displayed i d # evs) = (i, d) # displayed evs"
| "displayed (_ # evs) = displayed evs"

definition shown :: "player \<Rightarrow> (u32 \<times> bytes) list" where
  "shown p = displayed (pl_events p)"

end
