(* ===== verification/Player_Facts.thy ===== *)
theory Player_Facts
  imports Player
begin

text \<open>
  The player's operations on the view the proofs use: which assembly a unit has, which unit
  is ready, which index is next, what was shown; the well-formedness invariant of the two
  maps, kept by every operation.
\<close>

abbreviation asm :: "player \<Rightarrow> u32 \<Rightarrow> nalu_assembly option" where
  "asm p \<equiv> map_find (pl_assembling p)"

abbreviation rdy :: "player \<Rightarrow> u32 \<Rightarrow> bytes option" where
  "rdy p \<equiv> map_find (pl_readyNalus p)"

lemma player_run_append: "player_run (xs @ ys) p = player_run ys (player_run xs p)"
  by (induction xs p rule: player_run.induct) simp_all

lemma player_run_steps: "player_step\<^sup>*\<^sup>* p (player_run xs p)"
  by (induction xs p rule: player_run.induct)
    (auto intro: player_stepI converse_rtranclp_into_rtranclp)

lemma steps_player_run: "player_step\<^sup>*\<^sup>* p q \<Longrightarrow> \<exists>xs. q = player_run xs p"
proof (induction rule: rtranclp_induct)
  case base
  show ?case by (rule exI [of _ "[]"]) simp
next
  case (step q r)
  then obtain xs x where "q = player_run xs p" and "r = player_apply x q"
    by (auto elim: player_stepE)
  then have "r = player_run (xs @ [x]) p" by (simp add: player_run_append)
  then show ?case by blast
qed

section \<open>Field projections\<close>

lemma emit_fields [player_simps]:
  "pl_assembling (emit evs p) = pl_assembling p" "pl_readyNalus (emit evs p) = pl_readyNalus p"
  "pl_nextNaluIndex (emit evs p) = pl_nextNaluIndex p" "pl_stop (emit evs p) = pl_stop p"
  "pl_thread (emit evs p) = pl_thread p" "pl_running (emit evs p) = pl_running p"
  "pl_stats (emit evs p) = pl_stats p" "pl_events (emit evs p) = pl_events p @ evs"
  by (simp_all add: emit_def)

lemma count_fields [player_simps]:
  "pl_assembling (count n d p) = pl_assembling p" "pl_readyNalus (count n d p) = pl_readyNalus p"
  "pl_nextNaluIndex (count n d p) = pl_nextNaluIndex p" "pl_stop (count n d p) = pl_stop p"
  "pl_thread (count n d p) = pl_thread p" "pl_running (count n d p) = pl_running p"
  "pl_stats (count n d p) = Increment n d (pl_stats p)" "pl_events (count n d p) = pl_events p"
  by (simp_all add: count_def)

lemma PollEvents_fields [player_simps]:
  "pl_assembling (PollEvents evs p) = pl_assembling p"
  "pl_readyNalus (PollEvents evs p) = pl_readyNalus p"
  "pl_nextNaluIndex (PollEvents evs p) = pl_nextNaluIndex p"
  "pl_stats (PollEvents evs p) = pl_stats p" "pl_events (PollEvents evs p) = pl_events p"
  "pl_thread (PollEvents evs p) = pl_thread p" "pl_running (PollEvents evs p) = pl_running p"
  "pl_stop (PollEvents evs p) \<longleftrightarrow> pl_stop p \<or> SDL_QUIT \<in> set evs"
  by (induction evs p rule: PollEvents.induct) auto

lemma displayed_append: "displayed (xs @ ys) = displayed xs @ displayed ys"
  by (induction xs rule: displayed.induct) simp_all

lemma displayed_log [simp]: "displayed (plog l m a # evs) = displayed evs"
  by (simp add: plog_def)

section \<open>The invariant of the maps\<close>

text \<open>
  Both maps are sorted; an assembly has one slot per announced block and is incomplete,
  unless it was announced with no block at all.
\<close>

definition assembly_ok :: "nalu_assembly \<Rightarrow> bool" where
  "assembly_ok a \<longleftrightarrow> length (na_blocks a) = unat (na_totalBlocks a) \<and>
     (na_blocks a = [] \<or> None \<in> set (na_blocks a))"

definition player_ok :: "player \<Rightarrow> bool" where
  "player_ok p \<longleftrightarrow> map_ok (pl_assembling p) \<and> map_ok (pl_readyNalus p) \<and>
     (\<forall>ni a. asm p ni = Some a \<longrightarrow> assembly_ok a)"

lemma all_present_iff: "all_present bs \<longleftrightarrow> None \<notin> set bs"
  by (induction bs rule: all_present.induct) auto

lemma join_blocks_eq: "join_blocks bs = concat (map (\<lambda>b. case b of Some d \<Rightarrow> d | None \<Rightarrow> []) bs)"
  by (induction bs rule: join_blocks.induct) (auto split: option.split)

lemma NaluAssembly_ok: "assembly_ok (NaluAssembly n)"
  by (auto simp: assembly_ok_def NaluAssembly_def)

lemma open_assembly_fields [player_simps]:
  "pl_readyNalus (open_assembly ni ns p) = pl_readyNalus p"
  "pl_nextNaluIndex (open_assembly ni ns p) = pl_nextNaluIndex p"
  "pl_stop (open_assembly ni ns p) = pl_stop p" "pl_thread (open_assembly ni ns p) = pl_thread p"
  "pl_running (open_assembly ni ns p) = pl_running p"
  "pl_events (open_assembly ni ns p) = pl_events p"
  by (simp_all add: open_assembly_def player_simps split: option.split)

lemma asm_open_assembly:
  "asm (open_assembly ni ns p) nj =
     (if nj = ni \<and> asm p ni = None then Some (NaluAssembly ns) else asm p nj)"
  by (simp add: open_assembly_def player_simps map_find_emplace split: option.split)

lemma open_assembly_ok: "map_ok (pl_assembling p) \<Longrightarrow> map_ok (pl_assembling (open_assembly ni ns p))"
  by (simp add: open_assembly_def player_simps map_ok_emplace split: option.split)

text \<open>The assembly that an arriving block meets.\<close>

definition target :: "u32 \<Rightarrow> u32 \<Rightarrow> player \<Rightarrow> nalu_assembly" where
  "target ni ns p = (case asm p ni of Some a \<Rightarrow> a | None \<Rightarrow> NaluAssembly ns)"

lemma AddBlock_cases:
  fixes p :: player and ni ns :: u32
  defines "p1 \<equiv> open_assembly ni ns (count ACCEPTED_BLOCKS 1 p)"
  shows "AddBlock bi ni ns d p =
    (let a = target ni ns p; blocks = (na_blocks a)[unat bi := Some d];
         p2 = p1\<lparr>pl_assembling := map_assign ni (a\<lparr>na_blocks := blocks\<rparr>) (pl_assembling p1)\<rparr>
     in if length (na_blocks a) \<le> unat bi
        then emit [plog Error ''Invalid blockIndex {} for nalu {} with size {}''
               [ArgNat (unat bi), ArgNat (unat ni), ArgNat (unat ns)]] p1
        else if None \<in> set blocks then p2
        else complete_nalu ni (join_blocks blocks) p2)"
proof -
  have "asm p1 ni = Some (target ni ns p)"
    by (simp add: p1_def asm_open_assembly target_def player_simps split: option.split)
  then show ?thesis
    by (simp add: AddBlock_def p1_def [symmetric] Let_def all_present_iff)
qed

lemma target_ok: "player_ok p \<Longrightarrow> assembly_ok (target ni ns p)"
  by (auto simp: target_def player_ok_def NaluAssembly_ok split: option.split)

lemma player_ok_AddBlock:
  assumes "player_ok p"
  shows "player_ok (AddBlock bi ni ns d p)"
proof -
  let ?p1 = "open_assembly ni ns (count ACCEPTED_BLOCKS 1 p)"
  have ok1: "map_ok (pl_assembling ?p1)"
    using assms by (intro open_assembly_ok) (simp add: player_ok_def player_simps)
  have a1: "assembly_ok a" if "asm ?p1 nj = Some a" for nj a
    using assms that
    by (auto simp: player_ok_def asm_open_assembly player_simps NaluAssembly_ok split: if_splits)
  show ?thesis
    using assms ok1 a1 target_ok [OF assms, of ni ns]
    by (auto simp: AddBlock_cases Let_def player_ok_def complete_nalu_def player_simps
        map_ok_assign map_ok_erase om.find_assign om.find_erase assembly_ok_def split: if_splits)
qed

lemma player_ok_iteration: "player_ok p \<Longrightarrow> player_ok (run_iteration evs p)"
  by (auto simp: run_iteration_def show_next_def skip_missing_def player_ok_def Let_def player_simps
      map_ok_erase split: option.splits if_splits)

lemma player_ok_apply: "player_ok p \<Longrightarrow> player_ok (player_apply x p)"
proof (cases x)
  case (Arrive bi ni ns d)
  then show "player_ok p \<Longrightarrow> ?thesis" by (simp add: player_ok_AddBlock)
next
  case (Tick evs)
  then show "player_ok p \<Longrightarrow> ?thesis" by (simp add: player_ok_iteration)
next
  case (StartOp ok)
  then show "player_ok p \<Longrightarrow> ?thesis" by (simp add: player_ok_def Start_player_def player_simps)
next
  case StopOp
  then show "player_ok p \<Longrightarrow> ?thesis" by (simp add: player_ok_def Stop_player_def player_simps)
next
  case CountPacket
  then show "player_ok p \<Longrightarrow> ?thesis" by (simp add: player_ok_def player_simps)
qed

lemma player_ok_init: "player_ok (player_init st)"
  by (simp add: player_ok_def player_init_def)

abbreviation player_start :: "player \<Rightarrow> bool" where
  "player_start p \<equiv> \<exists>st. p = player_init st"

interpretation pinv: invariant_system player_step player_ok player_start
  by unfold_locales (auto simp: player_ok_init elim!: player_stepE intro: player_ok_apply)

lemma player_ok_run: "player_ok p \<Longrightarrow> player_ok (player_run xs p)"
  using pinv.inv_steps [OF player_run_steps] .

end
