(* ===== verification/Player_Assembly.thy ===== *)
theory Player_Assembly
  imports Player_Facts
begin

text \<open>
  The assembly of a unit from its blocks: whatever the order in which they arrive, with
  duplicates, with blocks of other units and with playback in between, the unit becomes
  ready with exactly its bytes when its last missing block arrives.
\<close>

section \<open>One block against the abstract set of received blocks\<close>

text \<open>The slots of a unit with blocks \<open>bs\<close> after the blocks with index in \<open>S\<close> arrived.\<close>

definition slots :: "bytes list \<Rightarrow> nat set \<Rightarrow> bytes option list" where
  "slots bs S = map (\<lambda>i. if i \<in> S then Some (bs ! i) else None) [0..<length bs]"

lemma length_slots [simp]: "length (slots bs S) = length bs"
  by (simp add: slots_def)

lemma slots_empty: "slots bs {} = replicate (length bs) None"
  by (simp add: slots_def map_replicate_const)

lemma slots_update: "i < length bs \<Longrightarrow> (slots bs S)[i := Some (bs ! i)] = slots bs (insert i S)"
  by (rule nth_equalityI) (auto simp: slots_def nth_list_update)

lemma None_in_slots: "None \<in> set (slots bs S) \<longleftrightarrow> \<not> {..<length bs} \<subseteq> S"
  by (auto simp: slots_def image_iff)

lemma join_full_slots:
  assumes "{..<length bs} \<subseteq> S"
  shows "join_blocks (slots bs S) = concat bs"
proof -
  have "slots bs S = map Some bs"
    using assms by (intro nth_equalityI) (auto simp: slots_def)
  then show ?thesis by (simp add: join_blocks_eq comp_def)
qed

text \<open>
  The received blocks of unit \<open>ni\<close> are those in \<open>S\<close>: no assembly yet when there is none.
\<close>

definition received_blocks :: "player \<Rightarrow> u32 \<Rightarrow> bytes list \<Rightarrow> nat set \<Rightarrow> bool" where
  "received_blocks p ni bs S \<longleftrightarrow>
     (if S = {} then asm p ni = None
      else asm p ni = Some \<lparr>na_totalBlocks = of_nat (length bs), na_blocks = slots bs S\<rparr>)"

lemma target_received:
  assumes "received_blocks p ni bs S" and "length bs < 2 ^ 32"
  shows "target ni (of_nat (length bs)) p =
    \<lparr>na_totalBlocks = of_nat (length bs), na_blocks = slots bs S\<rparr>"
  using assms
  by (auto simp: received_blocks_def target_def NaluAssembly_def slots_empty unat_of_nat
      split: if_splits)

lemma unat_index: "i < n \<Longrightarrow> n < 2 ^ 32 \<Longrightarrow> unat (of_nat i :: u32) = i"
  by (simp add: unat_of_nat)

lemma AddBlock_received:
  assumes "player_ok p" and "received_blocks p ni bs S" and "length bs < 2 ^ 32" and "i < length bs"
  defines "q \<equiv> AddBlock (of_nat i) ni (of_nat (length bs)) (bs ! i) p"
  shows "if {..<length bs} \<subseteq> insert i S
     then asm q ni = None \<and> rdy q ni = Some (concat bs)
     else received_blocks q ni bs (insert i S) \<and> rdy q ni = rdy p ni"
proof -
  let ?p1 = "open_assembly ni (of_nat (length bs)) (count ACCEPTED_BLOCKS 1 p)"
  have ok1: "map_ok (pl_assembling ?p1)" and okr: "map_ok (pl_readyNalus p)"
    using assms(1) by (auto simp: player_ok_def player_simps intro!: open_assembly_ok)
  note t = target_received [OF assms(2,3)] and u = unat_index [OF assms(4,3)]
  show ?thesis
  proof (cases "{..<length bs} \<subseteq> insert i S")
    case True
    then have "None \<notin> set (slots bs (insert i S))" by (simp add: None_in_slots)
    with True ok1 okr assms(4) show ?thesis
      by (simp add: q_def AddBlock_cases Let_def t u slots_update complete_nalu_def player_simps
          om.find_erase om.find_assign map_ok_assign join_full_slots)
  next
    case False
    then have "None \<in> set (slots bs (insert i S))" by (simp add: None_in_slots)
    with False ok1 okr assms(4) show ?thesis
      by (simp add: q_def AddBlock_cases Let_def t u slots_update player_simps
          om.find_assign received_blocks_def)
  qed
qed

section \<open>Blocks of other units, playback\<close>

lemma AddBlock_other:
  assumes "player_ok p" and "nj \<noteq> ni"
  shows "asm (AddBlock bi nj ns d p) ni = asm p ni \<and> rdy (AddBlock bi nj ns d p) ni = rdy p ni"
proof -
  let ?p1 = "open_assembly nj ns (count ACCEPTED_BLOCKS 1 p)"
  have ok1: "map_ok (pl_assembling ?p1)" and okr: "map_ok (pl_readyNalus p)"
    using assms(1) by (auto simp: player_ok_def player_simps intro!: open_assembly_ok)
  with assms(2) show ?thesis
    by (simp add: AddBlock_cases Let_def complete_nalu_def player_simps om.find_assign
        om.find_erase map_ok_assign asm_open_assembly)
qed

lemma iteration_asm: "pl_assembling (run_iteration evs p) = pl_assembling p"
  by (simp add: run_iteration_def show_next_def skip_missing_def Let_def player_simps split: option.split)

lemma apply_other_asm:
  assumes "player_ok p" and "\<And>bi ns d. x \<noteq> Arrive bi ni ns d"
  shows "asm (player_apply x p) ni = asm p ni"
  using assms
proof (cases x)
  case (Arrive bi nj ns d)
  with assms AddBlock_other [OF assms(1), of nj ni bi ns d] show ?thesis by auto
qed (simp_all add: iteration_asm Start_player_def Stop_player_def player_simps)

section \<open>A whole run\<close>

text \<open>The blocks of unit \<open>ni\<close> among the operations are blocks of \<open>bs\<close>, with its indices.\<close>

fun blocks_from :: "u32 \<Rightarrow> bytes list \<Rightarrow> player_op list \<Rightarrow> bool" where
  "blocks_from ni bs [] = True"
| "blocks_from ni bs (Arrive bi nj ns d # xs) =
     ((nj = ni \<longrightarrow> unat bi < length bs \<and> ns = of_nat (length bs) \<and> d = bs ! unat bi) \<and>
      blocks_from ni bs xs)"
| "blocks_from ni bs (_ # xs) = blocks_from ni bs xs"

fun arrived :: "u32 \<Rightarrow> player_op list \<Rightarrow> nat set" where
  "arrived ni [] = {}"
| "arrived ni (Arrive bi nj ns d # xs) =
     (if nj = ni then insert (unat bi) (arrived ni xs) else arrived ni xs)"
| "arrived ni (_ # xs) = arrived ni xs"

lemma run_received:
  assumes "player_ok p" and "received_blocks p ni bs S" and "length bs < 2 ^ 32"
    and "blocks_from ni bs xs" and "\<not> {..<length bs} \<subseteq> S \<union> arrived ni xs"
  shows "received_blocks (player_run xs p) ni bs (S \<union> arrived ni xs)"
  using assms
proof (induction xs p arbitrary: S rule: player_run.induct)
  case (1 p)
  then show ?case by simp
next
  case (2 x xs p)
  note ok = player_ok_apply [OF 2(2), of x]
  show ?case
  proof (cases "\<exists>bi ns d. x = Arrive bi ni ns d")
    case True
    then obtain bi ns d where x: "x = Arrive bi ni ns d" by blast
    with 2(5) have bi: "unat bi < length bs" "ns = of_nat (length bs)" "d = bs ! unat bi"
      by simp_all
    have sub: "\<not> {..<length bs} \<subseteq> insert (unat bi) S"
      using 2(6) by (auto simp: x)
    have "received_blocks (player_apply x p) ni bs (insert (unat bi) S)"
      using AddBlock_received [OF 2(2,3,4) bi(1)] sub by (simp add: x bi)
    from 2(1) [OF ok this 2(4)] 2(5,6) show ?thesis by (simp add: x)
  next
    case False
    then have "asm (player_apply x p) ni = asm p ni"
      by (intro apply_other_asm [OF 2(2)]) blast
    with 2(3) have "received_blocks (player_apply x p) ni bs S"
      by (simp add: received_blocks_def)
    moreover have "arrived ni (x # xs) = arrived ni xs" and "blocks_from ni bs xs"
      using False 2(5) by (cases x; auto)+
    ultimately show ?thesis using 2(1) [OF ok _ 2(4)] 2(6) by simp
  qed
qed

text \<open>
  C7: Whatever happens before (blocks of the unit in any order and repeated, blocks of
  other units, playback, starts and stops), the arrival of the last missing block of a unit
  makes it ready with the concatenation of its blocks and closes its assembly.
\<close>

theorem assembly_correct:
  assumes "reachable player_start player_step p" and "asm p ni = None"
    and "length bs < 2 ^ 32" and "i < length bs"
    and "blocks_from ni bs xs" and "arrived ni xs = {..<length bs} - {i}"
  shows "let q = player_run (xs @ [Arrive (of_nat i) ni (of_nat (length bs)) (bs ! i)]) p
    in rdy q ni = Some (concat bs) \<and> asm q ni = None"
proof -
  have ok: "player_ok p" using assms(1) by (rule pinv.inv_reachable)
  have "received_blocks p ni bs {}" using assms(2) by (simp add: received_blocks_def)
  moreover have "\<not> {..<length bs} \<subseteq> {} \<union> arrived ni xs" using assms(4,6) by auto
  ultimately have "received_blocks (player_run xs p) ni bs ({} \<union> arrived ni xs)"
    using run_received [OF ok _ assms(3,5)] by blast
  then have "received_blocks (player_run xs p) ni bs ({..<length bs} - {i})"
    by (simp add: assms(6))
  from AddBlock_received [OF player_ok_run [OF ok] this assms(3,4)] show ?thesis
    by (simp add: player_run_append Let_def split: if_splits) blast
qed

theorem assembly_correct_witness:
  "let q = player_run ([Arrive 1 7 2 [3], Arrive 0 8 1 [9], Arrive 1 7 2 [3]] @
      [Arrive (of_nat 0) 7 (of_nat (length [[1, 2], [3 :: byte]])) ([[1, 2], [3]] ! 0)])
      (player_init (statistics_init Map.empty))
   in rdy q 7 = Some (concat [[1, 2], [3]]) \<and> asm q 7 = None"
proof (rule assembly_correct)
  show "reachable player_start player_step (player_init (statistics_init Map.empty))"
    by (rule reach_init) blast
qed (auto simp: player_init_def)

section \<open>A unit announced without blocks\<close>

lemma poisoned_apply:
  assumes "player_ok p" and "asm p ni = Some a" and "na_blocks a = []" and "rdy p ni = None"
  shows "asm (player_apply x p) ni = Some a \<and> rdy (player_apply x p) ni = None"
proof (cases x)
  case (Arrive bi nj ns d)
  show ?thesis
  proof (cases "nj = ni")
    case True
    with assms Arrive show ?thesis
      by (simp add: AddBlock_cases Let_def target_def player_simps asm_open_assembly)
  next
    case False
    with AddBlock_other [OF assms(1) False] assms Arrive show ?thesis by simp
  qed
next
  case (Tick evs)
  with assms show ?thesis
    by (auto simp: run_iteration_def show_next_def skip_missing_def Let_def player_simps
        om.find_erase player_ok_def split: option.splits)
qed (use assms in \<open>simp_all add: Start_player_def Stop_player_def player_simps\<close>)

text \<open>
  C21: A unit whose first packet announces 0 blocks can never be assembled afterwards: its
  empty assembly stays, whatever arrives, and it never becomes ready.
\<close>

theorem zero_block_poison:
  assumes "reachable player_start player_step p" and "asm p ni = None" and "rdy p ni = None"
  shows "let q = player_run xs (player_apply (Arrive bi ni 0 d) p)
    in rdy q ni = None \<and> (\<exists>a. asm q ni = Some a \<and> na_blocks a = [])"
proof -
  have ok: "player_ok p" using assms(1) by (rule pinv.inv_reachable)
  define p1 where "p1 = player_apply (Arrive bi ni 0 d) p"
  have "player_ok p1 \<and> asm p1 ni = Some (NaluAssembly 0) \<and> rdy p1 ni = None"
    using assms(2,3) player_ok_apply [OF ok, of "Arrive bi ni 0 d"]
    by (simp add: p1_def AddBlock_cases Let_def target_def NaluAssembly_def player_simps
        asm_open_assembly)
  then have "asm (player_run xs p1) ni = Some (NaluAssembly 0) \<and> rdy (player_run xs p1) ni = None"
  proof (induction xs p1 rule: player_run.induct)
    case (2 x xs p)
    from 2(2) poisoned_apply [of p ni "NaluAssembly 0" x] player_ok_apply [of p x] 2(1)
    show ?case by (simp add: NaluAssembly_def)
  qed simp
  then show ?thesis by (simp add: p1_def NaluAssembly_def)
qed

theorem zero_block_poison_witness:
  "rdy (player_run [Arrive 0 7 1 [5]]
     (player_apply (Arrive 0 7 0 []) (player_init (statistics_init Map.empty)))) 7 = None"
proof -
  let ?p = "player_init (statistics_init Map.empty)"
  have "reachable player_start player_step ?p" by (rule reach_init) blast
  moreover have "asm ?p 7 = None" and "rdy ?p 7 = None" by (simp_all add: player_init_def)
  ultimately show ?thesis
    using zero_block_poison [of ?p 7 "[Arrive 0 7 1 [5]]" 0 "[]"] by (simp only: Let_def)
qed

end
