(* ===== verification/Player_Playback.thy ===== *)
theory Player_Playback
  imports Player_Facts
begin

text \<open>
  The playback side: what one pass of the loop does, in which order units are shown, and
  that the branch of the code that reports an unexpected state is never taken.
\<close>

section \<open>One pass of the loop\<close>

lemma begin_find:
  "map_ok m \<Longrightarrow> map_begin m = Some k \<Longrightarrow> \<exists>v. map_find m k = Some v"
  using om.least_Some [of m k] by blast

text \<open>The four things a pass does.\<close>

lemma iteration_cases:
  assumes "player_ok p"
  obtains
    (idle) "run_iteration evs p = p" "\<not> pl_running p"
  | (stopped) "pl_running p" "pl_stop p \<or> SDL_QUIT \<in> set evs"
      "run_iteration evs p = (PollEvents (if pl_stop p then [] else evs) p)\<lparr>pl_running := False\<rparr>"
  | (showed) d where "pl_running p" "\<not> pl_stop p" "SDL_QUIT \<notin> set evs"
      "map_begin (pl_readyNalus p) = Some (pl_nextNaluIndex p)"
      "rdy p (pl_nextNaluIndex p) = Some d"
      "run_iteration evs p = show_next (PollEvents evs p)"
  | (waited) "pl_running p" "\<not> pl_stop p" "SDL_QUIT \<notin> set evs"
      "map_begin (pl_readyNalus p) \<noteq> Some (pl_nextNaluIndex p)"
      "run_iteration evs p = skip_missing (PollEvents evs p)"
proof (cases "pl_running p")
  case False
  then show thesis by (intro idle) (simp_all add: run_iteration_def)
next
  case running: True
  show thesis
  proof (cases "pl_stop p \<or> SDL_QUIT \<in> set evs")
    case True
    with running show thesis
      by (intro stopped) (auto simp: run_iteration_def wait_pred_def Let_def player_simps)
  next
    case False
    then have no_stop: "\<not> pl_stop p" "SDL_QUIT \<notin> set evs" by simp_all
    show thesis
    proof (cases "map_begin (pl_readyNalus p) = Some (pl_nextNaluIndex p)")
      case True
      from assms have "map_ok (pl_readyNalus p)" by (simp add: player_ok_def)
      from begin_find [OF this True] obtain d where "rdy p (pl_nextNaluIndex p) = Some d" ..
      with running no_stop True show thesis
        by (intro showed) (simp_all add: run_iteration_def wait_pred_def Let_def player_simps)
    next
      case False
      with running no_stop show thesis
        by (intro waited) (simp_all add: run_iteration_def wait_pred_def Let_def player_simps)
    qed
  qed
qed

text \<open>
  The branch of the loop that logs a condition that holds without its unit is dead:
  in every reachable state, when the wait ends with its predicate true and the player is
  not stopping, the next unit is there.
\<close>

theorem unexpected_branch_dead:
  assumes "reachable player_start player_step p" and "wait_pred p" and "\<not> pl_stop p"
  shows "\<exists>d. rdy p (pl_nextNaluIndex p) = Some d \<and>
    run_iteration [] (p\<lparr>pl_running := True\<rparr>) = show_next (p\<lparr>pl_running := True\<rparr>)"
proof -
  have "map_ok (pl_readyNalus p)"
    using pinv.inv_reachable [OF assms(1)] by (simp add: player_ok_def)
  with assms(2,3) begin_find show ?thesis
    by (auto simp: wait_pred_def run_iteration_def Let_def)
qed

definition demo_ops :: "player_op list" where
  "demo_ops = [StartOp True, Arrive 0 1 1 [11], Tick [], Tick [], Arrive 0 0 1 [10]]"

abbreviation demo_init :: player where
  "demo_init \<equiv> player_init (statistics_init Map.empty)"

lemma reachable_run: "reachable player_start player_step (player_run xs (player_init st))"
  by (rule reachable_rtranclp [OF player_run_steps]) (rule reach_init, blast)

lemmas run_defs = AddBlock_def open_assembly_def complete_nalu_def NaluAssembly_def
  run_iteration_def wait_pred_def show_next_def skip_missing_def Start_player_def Let_def
  map_emplace_def map_begin_def player_init_def emit_def count_def shown_def plog_def

theorem unexpected_branch_dead_witness:
  "\<exists>d. rdy (player_run [Arrive 0 0 1 [5]] demo_init)
     (pl_nextNaluIndex (player_run [Arrive 0 0 1 [5]] demo_init)) = Some d"
proof -
  let ?p = "player_run [Arrive 0 0 1 [5]] demo_init"
  have w: "wait_pred ?p" and s: "\<not> pl_stop ?p" by (simp_all add: run_defs)
  from unexpected_branch_dead [OF reachable_run w s] show ?thesis by blast
qed

section \<open>Order of playback\<close>

lemma shown_AddBlock [simp]: "shown (AddBlock bi ni ns d p) = shown p"
  by (simp add: shown_def AddBlock_cases Let_def complete_nalu_def player_simps displayed_append)

lemma next_AddBlock [simp]: "pl_nextNaluIndex (AddBlock bi ni ns d p) = pl_nextNaluIndex p"
  by (simp add: AddBlock_cases Let_def complete_nalu_def player_simps)

lemma shown_show_next:
  "rdy p (pl_nextNaluIndex p) = Some d \<Longrightarrow>
     shown (show_next p) = shown p @ [(pl_nextNaluIndex p, d)] \<and>
     pl_nextNaluIndex (show_next p) = pl_nextNaluIndex p + 1 \<and>
     pl_readyNalus (show_next p) = map_erase (pl_nextNaluIndex p) (pl_readyNalus p)"
  by (simp add: show_next_def shown_def player_simps Let_def displayed_append)

lemma skip_missing_fields [player_simps]:
  "shown (skip_missing p) = shown p"
  "pl_readyNalus (skip_missing p) = pl_readyNalus p"
  "pl_nextNaluIndex (skip_missing p) =
     (case map_begin (pl_readyNalus p) of None \<Rightarrow> pl_nextNaluIndex p
      | Some k \<Rightarrow> max k (pl_nextNaluIndex p))"
  by (auto simp: skip_missing_def shown_def player_simps displayed_append max_def split: option.split)

lemma shown_other [simp]:
  "shown (PollEvents evs p) = shown p" "shown (p\<lparr>pl_running := b\<rparr>) = shown p"
  "shown (Start_player ok p) = shown p" "shown (Stop_player p) = shown p"
  "shown (count n k p) = shown p"
  by (simp_all add: shown_def player_simps Start_player_def Stop_player_def displayed_append)

lemma control_fields [simp]:
  "pl_nextNaluIndex (Start_player ok p) = pl_nextNaluIndex p"
  "pl_nextNaluIndex (Stop_player p) = pl_nextNaluIndex p"
  "pl_readyNalus (Start_player ok p) = pl_readyNalus p"
  "pl_readyNalus (Stop_player p) = pl_readyNalus p"
  by (simp_all add: Start_player_def Stop_player_def player_simps)

text \<open>
  Units are shown in ascending order, all below the next index, as long as the last 32-bit
  index has not been shown: after it the index wraps to 0.
\<close>

definition last_index :: u32 where
  "last_index = -1"

definition in_order :: "player \<Rightarrow> bool" where
  "in_order p \<longleftrightarrow> player_ok p \<and>
     (last_index \<notin> fst ` set (shown p) \<longrightarrow>
        sorted_wrt (<) (map fst (shown p)) \<and> (\<forall>i \<in> fst ` set (shown p). i < pl_nextNaluIndex p))"

lemma less_inc:
  assumes "w \<noteq> last_index"
  shows "w < w + 1"
proof -
  from assms have "1 + w \<noteq> 0"
    by (metis add.commute eq_neg_iff_add_eq_0 last_index_def)
  then have "unat (1 + w) = Suc (unat w)" by (rule unatSuc)
  then show ?thesis by (simp add: word_less_nat_alt add.commute)
qed

lemma in_order_apply:
  assumes "in_order p"
  shows "in_order (player_apply x p)"
proof -
  have ok: "player_ok p" using assms by (simp add: in_order_def)
  note ok' = player_ok_apply [OF ok, of x]
  show ?thesis
  proof (cases x)
    case (Tick evs)
    from ok show ?thesis
    proof (cases rule: iteration_cases [where evs = evs])
      case (showed d)
      note sh = shown_show_next [of "PollEvents evs p" d]
      have lt: "i < pl_nextNaluIndex p \<or> i = pl_nextNaluIndex p \<Longrightarrow> i < pl_nextNaluIndex p + 1"
        if "last_index \<noteq> pl_nextNaluIndex p" for i
        using that less_inc [of "pl_nextNaluIndex p"] by (auto dest: less_trans)
      show ?thesis
        using assms ok' Tick showed sh lt
        by (auto simp: in_order_def player_simps sorted_wrt_append)
    next
      case waited
      then show ?thesis
        using assms ok' Tick
        by (auto simp: in_order_def player_simps less_max_iff_disj split: option.splits)
    qed (use assms ok' Tick in \<open>auto simp: in_order_def player_simps\<close>)
  qed (use assms ok' in \<open>auto simp: in_order_def player_simps\<close>)
qed

interpretation order_inv: invariant_system player_step in_order player_start
proof unfold_locales
  show "in_order q" if "in_order p" and "player_step p q" for p q
    using that in_order_apply by (auto elim: player_stepE)
  show "in_order p" if "player_start p" for p
    using that player_ok_init by (auto simp: in_order_def shown_def player_init_def)
qed

text \<open>
  C18: In every run the indices of the units shown are strictly ascending, none is shown
  twice, unless the index has gone through its last 32-bit value.
\<close>

theorem playback_in_order:
  assumes "reachable player_start player_step p" and "last_index \<notin> fst ` set (shown p)"
  shows "sorted_wrt (<) (map fst (shown p)) \<and> distinct (map fst (shown p))"
  using order_inv.inv_reachable [OF assms(1)] assms(2)
  by (auto simp: in_order_def intro: strict_sorted_imp_sorted strict_sorted_iff [THEN iffD1, THEN conjunct2])

theorem playback_in_order_witness:
  "sorted_wrt (<) (map fst (shown (player_run demo_ops demo_init)))"
proof -
  have "last_index \<notin> fst ` set (shown (player_run demo_ops demo_init))"
    by (simp add: demo_ops_def run_defs last_index_def)
  from playback_in_order [OF reachable_run this] show ?thesis by blast
qed

end
