(* ===== verification/Player_Integrity.thy ===== *)
theory Player_Integrity
  imports Player_Assembly Player_Playback
begin

text \<open>
  Integrity of what the player holds and shows: as long as the blocks that arrive for a unit
  are blocks of it, whatever is lost, repeated or reordered, the unit is waiting or shown
  only with its own bytes; and once all its blocks have arrived it has been completed.
\<close>

section \<open>The invariant of one unit\<close>

definition content_ok :: "u32 \<Rightarrow> bytes list \<Rightarrow> player \<Rightarrow> bool" where
  "content_ok ni bs p \<longleftrightarrow> player_ok p \<and> (\<exists>S. received_blocks p ni bs S) \<and>
     (\<forall>d. rdy p ni = Some d \<longrightarrow> d = concat bs) \<and> (\<forall>d. (ni, d) \<in> set (shown p) \<longrightarrow> d = concat bs)"

lemma content_okD:
  assumes "content_ok ni bs p"
  shows "player_ok p" "rdy p ni = Some d \<Longrightarrow> d = concat bs"
    "(ni, d) \<in> set (shown p) \<Longrightarrow> d = concat bs"
  using assms by (simp_all add: content_ok_def)

lemma content_okI:
  assumes "player_ok q" and "received_blocks q ni bs S"
    and "\<And>d. rdy q ni = Some d \<Longrightarrow> d = concat bs"
    and "\<And>d. (ni, d) \<in> set (shown q) \<Longrightarrow> d = concat bs"
  shows "content_ok ni bs q"
  using assms unfolding content_ok_def by blast

text \<open>A step that keeps the unit's assembly, and shows at most a unit that was waiting.\<close>

lemma content_frame:
  assumes "content_ok ni bs p" and ok: "player_ok q" and asm: "asm q ni = asm p ni"
    and rdy: "rdy q ni = rdy p ni \<or> rdy q ni = None"
    and shown: "shown q = shown p \<or> (\<exists>k d. shown q = shown p @ [(k, d)] \<and> rdy p k = Some d)"
  shows "content_ok ni bs q"
proof -
  obtain S where "received_blocks p ni bs S" using assms(1) by (auto simp: content_ok_def)
  then have "received_blocks q ni bs S" by (simp add: received_blocks_def asm)
  then show ?thesis
  proof (rule content_okI [OF ok])
    show "d = concat bs" if "rdy q ni = Some d" for d
      using that rdy content_okD(2) [OF assms(1)] by auto
    show "d = concat bs" if "(ni, d) \<in> set (shown q)" for d
      using that shown content_okD(2,3) [OF assms(1), of d] by auto
  qed
qed

lemma content_arrive_same:
  assumes "content_ok ni bs p" and "length bs < 2 ^ 32" and "unat bi < length bs"
  shows "content_ok ni bs (AddBlock bi ni (of_nat (length bs)) (bs ! unat bi) p)"
proof -
  let ?q = "AddBlock bi ni (of_nat (length bs)) (bs ! unat bi) p"
  note ok = content_okD [OF assms(1)]
  obtain S where S: "received_blocks p ni bs S" using assms(1) by (auto simp: content_ok_def)
  note add = AddBlock_received [OF ok(1) S assms(2,3), simplified]
  show ?thesis
  proof (cases "{..<length bs} \<subseteq> insert (unat bi) S")
    case True
    with add have asm: "asm ?q ni = None" and rdy: "rdy ?q ni = Some (concat bs)" by simp_all
    then have "received_blocks ?q ni bs {}" by (simp add: received_blocks_def)
    with rdy ok(3) show ?thesis
      by (intro content_okI [OF player_ok_AddBlock [OF ok(1)]]) simp_all
  next
    case False
    with add have "received_blocks ?q ni bs (insert (unat bi) S)" and "rdy ?q ni = rdy p ni"
      by (simp_all split: if_splits)
    with ok(2,3) show ?thesis
      by (intro content_okI [OF player_ok_AddBlock [OF ok(1)]]) simp_all
  qed
qed

lemma content_iteration:
  assumes "content_ok ni bs p"
  shows "content_ok ni bs (run_iteration evs p)"
proof -
  note ok = content_okD(1) [OF assms]
  have asm: "asm (run_iteration evs p) ni = asm p ni" by (simp add: iteration_asm)
  have "(rdy (run_iteration evs p) ni = rdy p ni \<or> rdy (run_iteration evs p) ni = None) \<and>
    (shown (run_iteration evs p) = shown p \<or>
     (\<exists>k d. shown (run_iteration evs p) = shown p @ [(k, d)] \<and> rdy p k = Some d))"
    using ok
  proof (cases rule: iteration_cases [where evs = evs])
    case (showed d)
    then have "rdy (PollEvents evs p) (pl_nextNaluIndex (PollEvents evs p)) = Some d"
      by (simp add: player_simps)
    note sh = shown_show_next [OF this, simplified player_simps shown_other]
    have "map_ok (pl_readyNalus p)" using ok by (simp add: player_ok_def)
    with showed sh show ?thesis by (simp add: om.find_erase)
  qed (simp_all add: player_simps)
  then show ?thesis
    by (elim conjE) (rule content_frame [OF assms player_ok_iteration [OF ok] asm])
qed

lemma content_apply:
  assumes "content_ok ni bs p" and "length bs < 2 ^ 32" and "blocks_from ni bs [x]"
  shows "content_ok ni bs (player_apply x p)"
proof -
  note ok = content_okD(1) [OF assms(1)]
  note frame = content_frame [OF assms(1) player_ok_apply [OF ok, of x]]
  show ?thesis
  proof (cases x)
    case (Arrive bi nj ns d)
    show ?thesis
    proof (cases "nj = ni")
      case True
      with assms content_arrive_same [OF assms(1,2), of bi] Arrive show ?thesis by simp
    next
      case False
      from AddBlock_other [OF ok False, of bi ns d] Arrive show ?thesis by (intro frame) simp_all
    qed
  next
    case (Tick evs)
    with content_iteration [OF assms(1)] show ?thesis by simp
  qed (rule frame; simp add: Start_player_def Stop_player_def shown_def player_simps
       displayed_append)+
qed

lemma blocks_from_Cons: "blocks_from ni bs (x # xs) \<longleftrightarrow> blocks_from ni bs [x] \<and> blocks_from ni bs xs"
  by (cases x) auto

lemma content_run:
  "content_ok ni bs p \<Longrightarrow> length bs < 2 ^ 32 \<Longrightarrow> blocks_from ni bs xs \<Longrightarrow>
     content_ok ni bs (player_run xs p)"
proof (induction xs arbitrary: p)
  case (Cons x xs)
  note split = Cons.prems(3) [THEN blocks_from_Cons [THEN iffD1]]
  from content_apply [OF Cons.prems(1,2) split [THEN conjunct1]]
  have "content_ok ni bs (player_apply x p)" .
  from Cons.IH [OF this Cons.prems(2) split [THEN conjunct2]] show ?case by simp
qed simp

lemma content_init: "content_ok ni bs (player_init st)"
  by (rule content_okI [where S = "{}"])
    (simp_all add: player_ok_init received_blocks_def shown_def, simp_all add: player_init_def)

text \<open>
  C8: In a run from the start in which the blocks that arrive for a unit are blocks of it,
  with its indices and its block count, the unit is only ever waiting or shown with exactly
  its bytes, although blocks are lost, repeated, reordered and mixed with other units.
\<close>

theorem unit_content:
  fixes xs :: "player_op list" and st :: statistics
  defines "p \<equiv> player_run xs (player_init st)"
  assumes "length bs < 2 ^ 32" and "blocks_from ni bs xs"
  shows "(\<forall>d. rdy p ni = Some d \<longrightarrow> d = concat bs) \<and>
    (\<forall>d. (ni, d) \<in> set (shown p) \<longrightarrow> d = concat bs)"
  using content_run [OF content_init assms(2,3), of st] by (simp add: content_ok_def p_def)

theorem unit_content_witness:
  "\<exists>ops. (0, [1, 2]) \<in> set (shown (player_run ops demo_init)) \<and>
     (0, [2, 1]) \<notin> set (shown (player_run ops demo_init))"
proof (intro exI conjI)
  let ?ops = "[StartOp True, Arrive 1 0 2 [2], Arrive 1 0 2 [2], Arrive 0 5 1 [9], Arrive 0 0 2 [1], Tick []]"
  have "shown (player_run ?ops demo_init) = [(0, [1, 2])]" by code_simp
  then show "(0, [1, 2]) \<in> set (shown (player_run ?ops demo_init))" by simp
  show "(0, [2, 1]) \<notin> set (shown (player_run ?ops demo_init))"
    using unit_content [of "[[1], [2]]" 0 ?ops "statistics_init Map.empty"] by auto
qed

section \<open>Completion\<close>

text \<open>Once every block has arrived, the unit has become ready at some moment of the run.\<close>

lemma run_completes:
  assumes "player_ok p" and "received_blocks p ni bs S" and "length bs < 2 ^ 32"
    and "blocks_from ni bs xs" and "\<not> {..<length bs} \<subseteq> S"
    and "{..<length bs} \<subseteq> S \<union> arrived ni xs"
  shows "\<exists>ys zs. xs = ys @ zs \<and> rdy (player_run ys p) ni = Some (concat bs)"
  using assms
proof (induction xs arbitrary: p S)
  case Nil
  then show ?case by simp
next
  case (Cons x xs)
  note ok = player_ok_apply [OF Cons.prems(1), of x]
  note blk = Cons.prems(4) [THEN blocks_from_Cons [THEN iffD1]]
  have later: ?case if "received_blocks (player_apply x p) ni bs T"
    and "\<not> {..<length bs} \<subseteq> T" and "S \<union> arrived ni (x # xs) \<subseteq> T \<union> arrived ni xs" for T
  proof -
    from that Cons.prems(6) have "{..<length bs} \<subseteq> T \<union> arrived ni xs" by blast
    from Cons.IH [OF ok that(1) Cons.prems(3) blk [THEN conjunct2] that(2) this] obtain ys zs
      where "xs = ys @ zs" and "rdy (player_run ys (player_apply x p)) ni = Some (concat bs)"
      by blast
    then show ?thesis by (intro exI [of _ "x # ys"] exI [of _ zs]) simp
  qed
  show ?case
  proof (cases "\<exists>bi ns d. x = Arrive bi ni ns d")
    case True
    then obtain bi ns d where x: "x = Arrive bi ni ns d" by blast
    with blk [THEN conjunct1] have bi: "unat bi < length bs" "ns = of_nat (length bs)" "d = bs ! unat bi"
      by simp_all
    note add = AddBlock_received [OF Cons.prems(1,2,3) bi(1), simplified]
    show ?thesis
    proof (cases "{..<length bs} \<subseteq> insert (unat bi) S")
      case True
      with add show ?thesis by (intro exI [of _ "[x]"] exI [of _ xs]) (simp add: x bi)
    next
      case False
      with add have "received_blocks (player_apply x p) ni bs (insert (unat bi) S)"
        by (simp add: x bi split: if_splits)
      from later [OF this False] show ?thesis by (simp add: x)
    qed
  next
    case False
    then have "asm (player_apply x p) ni = asm p ni" and "arrived ni (x # xs) = arrived ni xs"
      using apply_other_asm [OF Cons.prems(1), of x ni] by (blast, cases x) auto
    with Cons.prems(2,5) show ?thesis by (intro later [of S]) (simp_all add: received_blocks_def)
  qed
qed

text \<open>
  C29: In a run from the start in which every block of a unit arrives at least once, in any order
  and with repetitions, and nothing else under its index, there is a moment at which the unit
  is ready with its bytes, whatever happens to other units.
\<close>

theorem unit_completes:
  assumes "bs \<noteq> []" and "length bs < 2 ^ 32" and "blocks_from ni bs xs"
    and "{..<length bs} \<subseteq> arrived ni xs"
  shows "\<exists>ys zs. xs = ys @ zs \<and> rdy (player_run ys (player_init st)) ni = Some (concat bs)"
proof -
  have "received_blocks (player_init st) ni bs {}"
    by (simp add: received_blocks_def player_init_def)
  moreover from assms(1) have "\<not> {..<length bs} \<subseteq> {}" by auto
  ultimately show ?thesis
    using assms(4) run_completes [OF player_ok_init _ assms(2,3), where S = "{}"] by blast
qed

theorem unit_completes_witness:
  "\<exists>ys zs. [Arrive 1 7 2 [3], Arrive 1 7 2 [3], Arrive 0 7 2 [1, 2]] = ys @ zs \<and>
     rdy (player_run ys demo_init) 7 = Some [1, 2, 3]"
proof -
  have "\<exists>ys zs. [Arrive 1 7 2 [3], Arrive 1 7 2 [3], Arrive 0 7 2 [1, 2]] = ys @ zs \<and>
      rdy (player_run ys demo_init) 7 = Some (concat [[1, 2], [3]])"
    by (rule unit_completes) auto
  then show ?thesis by simp
qed

end
