(* ===== verification/Player_Progress.thy ===== *)
theory Player_Progress
  imports Player_Playback
begin

text \<open>
  Progress of playback: every waiting unit is shown within a bounded number of passes, as
  long as no unit arrives late; a unit that completes late stops playback for ever; and what
  the counters of the player say at the end of a run.
\<close>

section \<open>One tick\<close>

lemma tick_show:
  assumes "pl_running p" and "\<not> pl_stop p" and "SDL_QUIT \<notin> set evs"
    and "map_begin (pl_readyNalus p) = Some (pl_nextNaluIndex p)"
  shows "run_iteration evs p = show_next (PollEvents evs p)"
  using assms by (simp add: run_iteration_def wait_pred_def Let_def player_simps)

lemma tick_wait:
  assumes "pl_running p" and "\<not> pl_stop p" and "SDL_QUIT \<notin> set evs"
    and "map_begin (pl_readyNalus p) \<noteq> Some (pl_nextNaluIndex p)"
  shows "run_iteration evs p = skip_missing (PollEvents evs p)"
  using assms by (simp add: run_iteration_def wait_pred_def Let_def player_simps)

lemma tick_control [player_simps]:
  "pl_running (show_next p) = pl_running p" "pl_stop (show_next p) = pl_stop p"
  "pl_running (skip_missing p) = pl_running p" "pl_stop (skip_missing p) = pl_stop p"
  by (simp_all add: show_next_def skip_missing_def Let_def player_simps split: option.split)

section \<open>All waiting units are shown\<close>

text \<open>Passes still needed: two for each unit, one less when the first is the next one.\<close>

definition passes_needed :: "player \<Rightarrow> nat" where
  "passes_needed p = 2 * length (pl_readyNalus p) -
     (if map_begin (pl_readyNalus p) = Some (pl_nextNaluIndex p) then 1 else 0)"

definition no_late :: "player \<Rightarrow> bool" where
  "no_late p \<longleftrightarrow> (\<forall>k \<in> map_keys (pl_readyNalus p). pl_nextNaluIndex p \<le> k)"

lemma inc_le_of_less: "(w :: u32) < v \<Longrightarrow> w + 1 \<le> v"
  by (metis add.commute inc_le)

lemma ticks_show_ready:
  assumes "pl_running p" and "\<not> pl_stop p" and "map_ok (pl_readyNalus p)" and "no_late p"
    and "\<forall>evs \<in> set evss. SDL_QUIT \<notin> set evs" and "passes_needed p \<le> length evss"
  shows "shown (player_run (map Tick evss) p) = shown p @ pl_readyNalus p \<and>
    pl_readyNalus (player_run (map Tick evss) p) = []"
  using assms
proof (induction evss arbitrary: p)
  case Nil
  then show ?case by (auto simp: passes_needed_def split: if_splits) (cases "pl_readyNalus p"; simp)+
next
  case (Cons evs evss)
  let ?q = "run_iteration evs p"
  show ?case
  proof (cases "pl_readyNalus p")
    case Nil
    then have "map_begin (pl_readyNalus p) \<noteq> Some (pl_nextNaluIndex p)" by (simp add: map_begin_def)
    with Cons.prems have q: "?q = skip_missing (PollEvents evs p)" by (intro tick_wait) auto
    have "shown (player_run (map Tick evss) ?q) = shown ?q @ pl_readyNalus ?q \<and>
        pl_readyNalus (player_run (map Tick evss) ?q) = []"
      using Cons.prems Nil
      by (intro Cons.IH) (auto simp: q player_simps no_late_def passes_needed_def map_begin_def
          map_keys_def)
    with Nil show ?thesis by (simp add: q player_simps)
  next
    case ready: (Cons u m)
    obtain k d where u: "u = (k, d)" by (cases u)
    have b: "map_begin (pl_readyNalus p) = Some k" by (simp add: ready u map_begin_def)
    show ?thesis
    proof (cases "k = pl_nextNaluIndex p")
      case True
      with b Cons.prems have q: "?q = show_next (PollEvents evs p)" by (intro tick_show) auto
      have "rdy (PollEvents evs p) (pl_nextNaluIndex (PollEvents evs p)) = Some d"
        by (simp add: player_simps ready u True)
      note sh = shown_show_next [OF this, folded q, simplified player_simps]
      have rq: "pl_readyNalus ?q = m" using sh by (simp add: ready u True)
      have "map_ok m" and above: "\<forall>j \<in> map_keys m. pl_nextNaluIndex p + 1 \<le> j"
        using Cons.prems(3) inc_le_of_less by (auto simp: ready u map_ok_Cons True)
      moreover have "2 * length m \<le> length evss"
        using Cons.prems(6) b True by (simp add: passes_needed_def ready)
      then have "passes_needed ?q \<le> length evss" by (simp add: passes_needed_def rq)
      ultimately have "shown (player_run (map Tick evss) ?q) = shown ?q @ pl_readyNalus ?q \<and>
          pl_readyNalus (player_run (map Tick evss) ?q) = []"
        using Cons.prems(1,2,5) rq sh
        by (intro Cons.IH) (auto simp: q player_simps no_late_def)
      with rq sh show ?thesis by (simp add: ready u True)
    next
      case False
      with b Cons.prems have q: "?q = skip_missing (PollEvents evs p)" by (intro tick_wait) auto
      have "pl_nextNaluIndex p \<le> k"
        using Cons.prems(4) by (simp add: no_late_def ready u map_keys_def)
      then have nq: "pl_nextNaluIndex ?q = k" by (simp add: q player_simps b max_def)
      have rq: "pl_readyNalus ?q = pl_readyNalus p" by (simp add: q player_simps)
      have "no_late ?q"
        using Cons.prems(3) by (auto simp: no_late_def nq rq ready u map_ok_Cons map_keys_def)
      moreover have "passes_needed ?q \<le> length evss"
        using Cons.prems(6) b False by (simp add: passes_needed_def rq nq)
      ultimately have "shown (player_run (map Tick evss) ?q) = shown ?q @ pl_readyNalus ?q \<and>
          pl_readyNalus (player_run (map Tick evss) ?q) = []"
        using Cons.prems(1,2,3,5) by (intro Cons.IH) (auto simp: q player_simps)
      with rq show ?thesis by (simp add: q player_simps)
    qed
  qed
qed

text \<open>
  C15: While the player runs and no waiting unit is older than the next index, two passes
  for every waiting unit show all of them, in ascending order, with their own bytes, and
  none is left, whatever gaps there are between their indices.
\<close>

theorem ready_units_are_shown:
  assumes "reachable player_start player_step p" and "pl_running p" and "\<not> pl_stop p"
    and "no_late p" and "\<forall>evs \<in> set evss. SDL_QUIT \<notin> set evs"
    and "2 * length (pl_readyNalus p) \<le> length evss"
  shows "shown (player_run (map Tick evss) p) = shown p @ pl_readyNalus p \<and>
    pl_readyNalus (player_run (map Tick evss) p) = []"
proof -
  have "map_ok (pl_readyNalus p)"
    using pinv.inv_reachable [OF assms(1)] by (simp add: player_ok_def)
  with assms show ?thesis by (intro ticks_show_ready) (auto simp: passes_needed_def)
qed

definition gap_ops :: "player_op list" where
  "gap_ops = [StartOp True, Arrive 0 7 1 [70], Arrive 0 3 1 [30]]"

theorem ready_units_are_shown_witness:
  "shown (player_run (map Tick [[], [SDL_OTHER], [], []]) (player_run gap_ops demo_init)) =
     [(3, [30]), (7, [70])]"
proof -
  let ?p = "player_run gap_ops demo_init"
  have p: "pl_running ?p" "\<not> pl_stop ?p" "pl_nextNaluIndex ?p = 0"
      "pl_readyNalus ?p = [(3, [30]), (7, [70])]" "shown ?p = []"
    by (simp_all add: gap_ops_def run_defs)
  then have "no_late ?p" and "2 * length (pl_readyNalus ?p) \<le> length [[], [SDL_OTHER], [], []]"
    by (simp_all add: no_late_def)
  from ready_units_are_shown [OF reachable_run p(1,2) this(1) _ this(2)] p show ?thesis by simp
qed

section \<open>A unit that completes late\<close>

definition stale :: "player \<Rightarrow> bool" where
  "stale p \<longleftrightarrow> player_ok p \<and>
     (\<exists>k. map_begin (pl_readyNalus p) = Some k \<and> k < pl_nextNaluIndex p)"

lemma ready_AddBlock:
  "pl_readyNalus (AddBlock bi ni ns d p) = pl_readyNalus p \<or>
   (\<exists>v. pl_readyNalus (AddBlock bi ni ns d p) = map_assign ni v (pl_readyNalus p))"
  by (auto simp: AddBlock_cases Let_def complete_nalu_def player_simps)

lemma stale_apply:
  assumes "stale p"
  shows "stale (player_apply x p) \<and> shown (player_apply x p) = shown p \<and>
    pl_nextNaluIndex (player_apply x p) = pl_nextNaluIndex p"
proof -
  from assms obtain k where ok: "player_ok p" and k: "map_begin (pl_readyNalus p) = Some k"
      and lt: "k < pl_nextNaluIndex p"
    by (auto simp: stale_def)
  have m: "map_ok (pl_readyNalus p)" using ok by (simp add: player_ok_def)
  note ok' = player_ok_apply [OF ok, of x]
  show ?thesis
  proof (cases x)
    case (Arrive bi ni ns d)
    with ok' k lt om.least_below_assign [OF m k lt] ready_AddBlock [of bi ni ns d p]
    show ?thesis by (auto simp: stale_def)
  next
    case (Tick evs)
    from ok show ?thesis
      by (cases rule: iteration_cases [where evs = evs])
        (use Tick ok' k lt in \<open>auto simp: stale_def player_simps max_def\<close>)
  qed (use ok' k lt in \<open>auto simp: stale_def player_simps\<close>)
qed

interpretation stall: step_closed player_step
  "\<lambda>p. stale p \<and> shown p = s \<and> pl_nextNaluIndex p = i" for s i
  by unfold_locales (auto elim!: player_stepE dest: stale_apply)

text \<open>
  C17: When a unit completes whose index the player has already passed, no unit is ever
  shown again, whatever arrives and however long the player runs: the map of waiting units
  begins with an index that is neither the next one nor greater.
\<close>

theorem late_unit_stalls_playback:
  assumes "reachable player_start player_step p" and "ni < pl_nextNaluIndex p"
    and "rdy (AddBlock bi ni ns d p) ni \<noteq> None"
  shows "shown (player_run xs (AddBlock bi ni ns d p)) = shown p \<and>
    pl_nextNaluIndex (player_run xs (AddBlock bi ni ns d p)) = pl_nextNaluIndex p"
proof -
  let ?q = "AddBlock bi ni ns d p"
  have ok: "player_ok ?q" using pinv.inv_reachable [OF assms(1)] by (rule player_ok_AddBlock)
  then have "map_ok (pl_readyNalus ?q)" by (simp add: player_ok_def)
  from om.least_exists [OF this assms(3)] obtain k
    where "map_begin (pl_readyNalus ?q) = Some k" and "k \<le> ni" by blast
  with ok assms(2) have "stale ?q" by (auto simp: stale_def)
  with stall.inv_steps [OF player_run_steps, of ?q "shown ?q" "pl_nextNaluIndex ?q" xs]
  show ?thesis by simp
qed

theorem late_unit_stalls_playback_witness:
  "shown (player_run ([StartOp True, Arrive 0 1 1 [11], Tick [], Tick [], Arrive 0 0 1 [10]]
     @ [Arrive 0 2 1 [12], Tick [], Tick [], Tick []]) demo_init) = [(1, [11])]"
proof -
  let ?p = "player_run [StartOp True, Arrive 0 1 1 [11], Tick [], Tick []] demo_init"
  have p: "(0 :: u32) < pl_nextNaluIndex ?p" "rdy (AddBlock 0 0 1 [10] ?p) 0 \<noteq> None"
      "shown ?p = [(1, [11])]"
    by (simp_all add: run_defs)
  from late_unit_stalls_playback [OF reachable_run p(1,2),
      of "[Arrive 0 2 1 [12], Tick [], Tick [], Tick []]"] p(3)
  show ?thesis by (simp add: player_run_append)
qed

section \<open>The counters\<close>

definition notified :: "player \<Rightarrow> nat" where
  "notified p = length (filter (\<lambda>e. e = NotifyOne) (pl_events p))"

fun is_warning :: "player_event \<Rightarrow> bool" where
  "is_warning (Logged c) = (call_level c = Warning)"
| "is_warning _ = False"

definition warned :: "player \<Rightarrow> nat" where
  "warned p = length (filter is_warning (pl_events p))"

fun is_arrival :: "player_op \<Rightarrow> bool" where
  "is_arrival (Arrive _ _ _ _) = True"
| "is_arrival _ = False"

definition arrivals :: "player_op list \<Rightarrow> nat" where
  "arrivals xs = length (filter is_arrival xs)"

text \<open>\<open>n\<close> arrivals after a start with the registry \<open>st\<close>.\<close>

definition counters_agree :: "statistics \<Rightarrow> nat \<Rightarrow> player \<Rightarrow> bool" where
  "counters_agree st n p \<longleftrightarrow> stat_ok (pl_stats p) \<and> registered (pl_stats p) = registered st \<and>
     (registered st ACCEPTED_BLOCKS \<longrightarrow>
        stat_Get ACCEPTED_BLOCKS (pl_stats p) = stat_Get ACCEPTED_BLOCKS st + of_nat n) \<and>
     (registered st ASSEMBLED_NALU \<longrightarrow>
        stat_Get ASSEMBLED_NALU (pl_stats p) = stat_Get ASSEMBLED_NALU st + of_nat (notified p)) \<and>
     (registered st SKIPPED_NALU \<longrightarrow>
        stat_Get SKIPPED_NALU (pl_stats p) = stat_Get SKIPPED_NALU st + of_nat (warned p))"

lemmas counters_simps = counters_agree_def notified_def warned_def stat_ok_Increment Get_Increment

lemma agree_open:
  "counters_agree st n p \<Longrightarrow> counters_agree st n (open_assembly ni ns p)"
  using counter_names_distinct
  by (auto simp: open_assembly_def counters_simps player_simps split: option.split)

lemma agree_accept:
  "counters_agree st n p \<Longrightarrow> counters_agree st (Suc n) (count ACCEPTED_BLOCKS 1 p)"
  using counter_names_distinct by (auto simp: counters_simps player_simps)

lemma agree_complete:
  "counters_agree st n p \<Longrightarrow> counters_agree st n (complete_nalu ni d p)"
  using counter_names_distinct
  by (auto simp: complete_nalu_def counters_simps player_simps plog_def)

lemma agree_AddBlock:
  assumes "counters_agree st n p"
  shows "counters_agree st (Suc n) (AddBlock bi ni ns d p)"
proof -
  let ?p1 = "open_assembly ni ns (count ACCEPTED_BLOCKS 1 p)"
  have p1: "counters_agree st (Suc n) ?p1" using assms by (intro agree_open agree_accept)
  then have "counters_agree st (Suc n) (?p1\<lparr>pl_assembling := m\<rparr>)" for m
    by (simp add: counters_agree_def notified_def warned_def)
  with p1 agree_complete show ?thesis
    by (auto simp: AddBlock_cases Let_def)
      (auto simp: counters_agree_def notified_def warned_def player_simps plog_def)
qed

lemma agree_iteration:
  assumes "player_ok p" and "counters_agree st n p"
  shows "counters_agree st n (run_iteration evs p)"
proof -
  have poll: "counters_agree st n (PollEvents es p)" for es
    using assms(2) by (simp add: counters_agree_def notified_def warned_def player_simps)
  have skip: "counters_agree st n (skip_missing q)" if "counters_agree st n q" for q
    using that counter_names_distinct
    by (auto simp: skip_missing_def counters_simps player_simps plog_def split: option.split)
  from assms(1) show ?thesis
  proof (cases rule: iteration_cases [where evs = evs])
    case (showed d)
    then have "rdy (PollEvents evs p) (pl_nextNaluIndex (PollEvents evs p)) = Some d"
      by (simp add: player_simps)
    with poll [of evs] showed show ?thesis
      by (simp add: show_next_def Let_def counters_agree_def notified_def warned_def player_simps plog_def)
  next
    case stopped
    with poll show ?thesis by (simp add: counters_agree_def notified_def warned_def)
  qed (use poll skip assms(2) in simp_all)
qed

lemma agree_run:
  "player_ok p \<Longrightarrow> counters_agree st n p \<Longrightarrow>
     counters_agree st (n + arrivals xs) (player_run xs p)"
proof (induction xs arbitrary: p n)
  case Nil
  then show ?case by (simp add: arrivals_def)
next
  case (Cons x xs)
  have "counters_agree st (n + arrivals [x]) (player_apply x p)"
  proof (cases x)
    case (Arrive bi ni ns d)
    with agree_AddBlock [OF Cons.prems(2), of bi ni ns d] show ?thesis
      by (simp add: arrivals_def)
  next
    case (Tick evs)
    with agree_iteration [OF Cons.prems] show ?thesis by (simp add: arrivals_def)
  next
    case CountPacket
    with Cons.prems(2) counter_names_distinct show ?thesis
      by (auto simp: arrivals_def counters_simps player_simps)
  qed (use Cons.prems(2) in \<open>simp_all add: arrivals_def Start_player_def Stop_player_def
         counters_agree_def notified_def warned_def player_simps plog_def\<close>)
  from Cons.IH [OF player_ok_apply [OF Cons.prems(1)] this]
  show ?case by (cases "is_arrival x") (simp_all add: arrivals_def)
qed

text \<open>
  C19: After any run the counters tell what happened (modulo \<open>2^64\<close>): a block is counted as
  accepted for every call of \<open>AddBlock\<close>, also the ones with an invalid block index; a unit
  is counted as assembled for every wake-up of the player thread by a completed unit; and
  \<open>skippedNalu\<close> counts the skips, one for each warning, however many indices each passes.
\<close>

theorem player_counters:
  fixes xs :: "player_op list" and st :: statistics
  defines "p \<equiv> player_run xs (player_init st)"
  assumes "stat_ok st"
    and "\<forall>n \<in> {ACCEPTED_BLOCKS, ASSEMBLED_NALU, SKIPPED_NALU}. registered st n"
  shows "stat_Get ACCEPTED_BLOCKS (pl_stats p) = stat_Get ACCEPTED_BLOCKS st + of_nat (arrivals xs) \<and>
    stat_Get ASSEMBLED_NALU (pl_stats p) = stat_Get ASSEMBLED_NALU st + of_nat (notified p) \<and>
    stat_Get SKIPPED_NALU (pl_stats p) = stat_Get SKIPPED_NALU st + of_nat (warned p)"
proof -
  have "counters_agree st 0 (player_init st)"
    using assms(2) by (simp add: counters_agree_def player_init_def notified_def warned_def)
  from agree_run [OF player_ok_init this, of xs] assms(3) show ?thesis
    by (simp add: counters_agree_def p_def)
qed

theorem player_counters_witness:
  "stat_Get SKIPPED_NALU (pl_stats (player_run
      [StartOp True, Arrive 0 9 1 [90], Arrive 4 9 1 [91], Tick [], Tick []]
      (player_init (RegisterCounters [ACCEPTED_BLOCKS, ASSEMBLED_NALU, SKIPPED_NALU]
        (statistics_init Map.empty))))) = 1"
proof -
  let ?st = "RegisterCounters [ACCEPTED_BLOCKS, ASSEMBLED_NALU, SKIPPED_NALU]
    (statistics_init Map.empty)"
  let ?xs = "[StartOp True, Arrive 0 9 1 [90], Arrive 4 9 1 [91], Tick [], Tick []]"
  have st: "stat_ok ?st" by (rule stat_ok_RegisterCounters [OF stat_ok_init])
  have reg: "\<forall>n \<in> {ACCEPTED_BLOCKS, ASSEMBLED_NALU, SKIPPED_NALU}. registered ?st n"
    using counter_names_distinct
    by (simp add: registered_def RegisterCounters_def RegisterCounter_def statistics_init_def)
  have zero: "stat_Get SKIPPED_NALU ?st = 0"
    by (simp add: stat_Get_def RegisterCounters_def RegisterCounter_def statistics_init_def counter_names)
  have "warned (player_run ?xs (player_init ?st)) = 1"
    by (simp add: warned_def run_defs player_simps)
  with player_counters [OF st reg, of ?xs] zero show ?thesis by simp
qed

end
