(* ===== verification/Player_Display.thy ===== *)
theory Player_Display
  imports Logger
begin

text \<open>
  The decoder and window side of \<open>common/video/Player.h\<close>: construction, decoding of one
  unit, the frames that are drawn, the window. FFmpeg and SDL are parameters: a record of
  their calls on an abstract state \<open>'c\<close>. What is drawn and every object that is acquired or
  released is recorded in \<open>dp_events\<close>, in order.
\<close>

section \<open>The libraries and the state\<close>

record frame =
  fr_width :: int
  fr_height :: int
  fr_format :: int

record 'c codec_api =
  avcodec_send_packet :: "bytes \<Rightarrow> 'c \<Rightarrow> int \<times> 'c"
  avcodec_receive_frame :: "'c \<Rightarrow> int \<times> frame \<times> 'c"
  packet_alloc :: "'c \<Rightarrow> bool \<times> 'c"
  av_new_packet :: "int \<Rightarrow> 'c \<Rightarrow> int \<times> 'c"
  SDL_CreateTexture :: "int \<Rightarrow> int \<Rightarrow> 'c \<Rightarrow> bool \<times> 'c"
  SDL_GetError :: "'c \<Rightarrow> string"
  eagain :: int
  eof :: int
  invaliddata :: int

text \<open>
  \<open>Rendered t fr\<close>: a frame is drawn through the texture, \<open>t\<close> says whether there is one.
  \<open>dp_sdl\<close> is the state of the library: initialised and not yet quit. The other flags say
  whether the player holds the object its member points to.
\<close>

datatype display_event = PacketAlloc | PacketFree | TextureDestroyed | WindowSized int int
  | Rendered bool frame | WindowDestroyed | RendererDestroyed | ContextFreed | FrameFreed
  | SwsFreed | SdlQuit

record 'c display =
  dp_codec :: 'c
  dp_sdl :: bool
  dp_codecContext :: bool
  dp_frame :: bool
  dp_swsContext :: bool
  dp_window :: bool
  dp_renderer :: bool
  dp_texture :: bool
  dp_width :: int
  dp_height :: int
  dp_pixFmt :: int
  dp_log :: "log_call list"
  dp_events :: "display_event list"

definition AV_PIX_FMT_NONE :: int where "AV_PIX_FMT_NONE = -1"

definition display_init :: "'c \<Rightarrow> 'c display" where
  "display_init c =
     \<lparr>dp_codec = c, dp_sdl = False, dp_codecContext = False, dp_frame = False, dp_swsContext = False,
      dp_window = False, dp_renderer = False, dp_texture = False, dp_width = 0, dp_height = 0,
      dp_pixFmt = AV_PIX_FMT_NONE, dp_log = [], dp_events = []\<rparr>"

definition dlog :: "LogLevel \<Rightarrow> string \<Rightarrow> log_arg list \<Rightarrow> 'c display \<Rightarrow> 'c display" where
  "dlog level msg args d = d\<lparr>dp_log := dp_log d @ [LogCall level msg args]\<rparr>"

definition act :: "display_event \<Rightarrow> 'c display \<Rightarrow> 'c display" where
  "act ev d = d\<lparr>dp_events := dp_events d @ [ev]\<rparr>"

section \<open>Construction and destruction\<close>

text \<open>What the calls of \<open>InitDecoder\<close> give.\<close>

record init_env =
  ie_decoder_found :: bool
  ie_context :: bool
  ie_frame :: bool
  ie_open2 :: int

definition InitDecoder :: "init_env \<Rightarrow> 'c display \<Rightarrow> bool \<times> 'c display" where
  "InitDecoder ie d =
     (if \<not> ie_decoder_found ie then (False, dlog Error ''H.264 decoder not found'' [] d)
      else let d1 = d\<lparr>dp_codecContext := ie_context ie\<rparr>
      in if \<not> ie_context ie then (False, dlog Error ''Failed to allocate codec context'' [] d1)
      else let d2 = d1\<lparr>dp_frame := ie_frame ie\<rparr>
      in if \<not> ie_frame ie then (False, dlog Error ''Failed to allocate frame'' [] d2)
      else if ie_open2 ie < 0 then (False, dlog Error ''Failed to open codec'' [] d2)
      else (True, d2))"

definition SDL_Quit :: "'c display \<Rightarrow> 'c display" where
  "SDL_Quit d = (act SdlQuit d)\<lparr>dp_sdl := False\<rparr>"

definition Player_construct :: "int \<Rightarrow> string \<Rightarrow> init_env \<Rightarrow> 'c \<Rightarrow> 'c display outcome" where
  "Player_construct sdl_init sdl_error ie c =
     (if sdl_init < 0
      then Exited (dlog Error ''SDL initialization failed: {}'' [ArgStr sdl_error] (display_init c))
      else (case InitDecoder ie ((display_init c)\<lparr>dp_sdl := True\<rparr>) of (ok, d) \<Rightarrow>
        if \<not> ok
        then Exited (SDL_Quit (dlog Error ''Failed to initialize FFmpeg decoder'' [] d))
        else Done d))"

definition CreateWindowAndRenderer :: "bool \<Rightarrow> bool \<Rightarrow> string \<Rightarrow> 'c display \<Rightarrow> bool \<times> 'c display" where
  "CreateWindowAndRenderer window_ok renderer_ok sdl_error d =
     (if \<not> window_ok
      then (False, dlog Error ''SDL window creation failed: {}'' [ArgStr sdl_error]
                     (d\<lparr>dp_window := False\<rparr>))
      else if \<not> renderer_ok
      then (False, (act WindowDestroyed (dlog Error ''SDL renderer creation failed: {}''
                     [ArgStr sdl_error] (d\<lparr>dp_window := True, dp_renderer := False\<rparr>)))
                     \<lparr>dp_window := False\<rparr>)
      else (True, d\<lparr>dp_window := True, dp_renderer := True\<rparr>))"

definition DestroyWindowAndRenderer :: "'c display \<Rightarrow> 'c display" where
  "DestroyWindowAndRenderer d =
     (let d1 = (if dp_texture d then (act TextureDestroyed d)\<lparr>dp_texture := False\<rparr> else d);
          d2 = (if dp_renderer d1 then (act RendererDestroyed d1)\<lparr>dp_renderer := False\<rparr> else d1)
      in if dp_window d2 then (act WindowDestroyed d2)\<lparr>dp_window := False\<rparr> else d2)"

definition Cleanup :: "'c display \<Rightarrow> 'c display" where
  "Cleanup d =
     (let d1 = (act ContextFreed d)\<lparr>dp_codecContext := False\<rparr>;
          d2 = (act FrameFreed d1)\<lparr>dp_frame := False\<rparr>
      in (act SwsFreed d2)\<lparr>dp_swsContext := False\<rparr>)"

section \<open>Drawing and decoding\<close>

definition RenderFrame :: "frame \<Rightarrow> 'c display \<Rightarrow> 'c display" where
  "RenderFrame fr d = act (Rendered (dp_texture d) fr) d"

text \<open>The frames taken out while the decoder does not accept the packet.\<close>

partial_function (option) receive_pending :: "'c codec_api \<Rightarrow> 'c display \<Rightarrow> (int \<times> 'c display) option" where
  "receive_pending api d =
     (case avcodec_receive_frame api (dp_codec d) of (ret, fr, c) \<Rightarrow>
        if ret = 0 then receive_pending api (RenderFrame fr (d\<lparr>dp_codec := c\<rparr>))
        else Some (ret, d\<lparr>dp_codec := c\<rparr>))"

text \<open>The loop until the packet is sent: whether it was; when not, the packet is freed.\<close>

partial_function (option) send_packet ::
    "'c codec_api \<Rightarrow> u32 \<Rightarrow> bytes \<Rightarrow> 'c display \<Rightarrow> (bool \<times> 'c display) option" where
  "send_packet api naluIndex nalu d =
     (case avcodec_send_packet api nalu (dp_codec d) of (ret, c) \<Rightarrow>
        let d1 = d\<lparr>dp_codec := c\<rparr>
        in if ret = 0 then Some (True, d1)
           else if ret = eagain api then
             Option.bind (receive_pending api d1) (\<lambda>(ret2, d2).
               if ret2 \<noteq> eagain api \<and> ret2 \<noteq> eof api
               then Some (False, act PacketFree (dlog Error
                      ''For nalu {}, error during receiving frames: {}. First 8 bytes of nalu: {}''
                      [ArgNat (unat naluIndex), ArgInt ret2, ArgHex (take 8 nalu)] d2))
               else send_packet api naluIndex nalu d2)
           else if ret = invaliddata api
           then Some (False, act PacketFree (dlog Warning
                  ''Invalid data for nalu {} (possibly duplicate SPS/PPS), skipping. First 8 bytes of nalu: {}''
                  [ArgNat (unat naluIndex), ArgHex (take 8 nalu)] d1))
           else Some (False, act PacketFree (dlog Error
                  ''For nalu {}, error sending packet to decoder: {}. First 8 bytes of nalu: {}''
                  [ArgNat (unat naluIndex), ArgInt ret, ArgHex (take 8 nalu)] d1)))"

text \<open>
  A frame of another size or format than the last one: the texture is made anew. The
  members are updated before the creation can fail. \<open>None\<close> is the return on failure.
\<close>

definition adapt_texture :: "'c codec_api \<Rightarrow> frame \<Rightarrow> 'c display \<Rightarrow> bool \<times> 'c display" where
  "adapt_texture api fr d =
     (if dp_width d \<noteq> fr_width fr \<or> dp_height d \<noteq> fr_height fr \<or> dp_pixFmt d \<noteq> fr_format fr
      then let d1 = d\<lparr>dp_width := fr_width fr, dp_height := fr_height fr, dp_pixFmt := fr_format fr\<rparr>;
               d2 = (if dp_texture d1 then act TextureDestroyed d1 else d1)
           in (case SDL_CreateTexture api (dp_width d2) (dp_height d2) (dp_codec d2) of (ok, c) \<Rightarrow>
                 let d3 = d2\<lparr>dp_codec := c, dp_texture := ok\<rparr>
                 in if \<not> ok
                    then (False, dlog Error ''Failed to create SDL texture: {}'' [ArgStr (SDL_GetError api c)] d3)
                    else (True, act (WindowSized (dp_width d3) (dp_height d3))
                                  (d3\<lparr>dp_swsContext := True\<rparr>)))
      else (True, d))"

partial_function (option) receive_frames :: "'c codec_api \<Rightarrow> 'c display \<Rightarrow> 'c display option" where
  "receive_frames api d =
     (case avcodec_receive_frame api (dp_codec d) of (ret, fr, c) \<Rightarrow>
        let d1 = d\<lparr>dp_codec := c\<rparr>
        in if ret = eagain api \<or> ret = eof api then Some d1
           else if ret < 0 then Some (dlog Error ''Error during decoding: {}'' [ArgInt ret] d1)
           else (case adapt_texture api fr d1 of (ok, d2) \<Rightarrow>
                   if \<not> ok then Some d2 else receive_frames api (RenderFrame fr d2)))"

definition DecodeAndDisplayNalu :: "'c codec_api \<Rightarrow> u32 \<Rightarrow> bytes \<Rightarrow> 'c display \<Rightarrow> 'c display option" where
  "DecodeAndDisplayNalu api naluIndex nalu d =
     (case packet_alloc api (dp_codec d) of (ok, c) \<Rightarrow>
        if \<not> ok then Some (dlog Error ''Failed to allocate AVPacket'' [] (d\<lparr>dp_codec := c\<rparr>))
        else let d1 = act PacketAlloc (d\<lparr>dp_codec := c\<rparr>)
        in (case av_new_packet api (sint (of_nat (length nalu) :: u32)) (dp_codec d1) of (ret, c1) \<Rightarrow>
              if ret < 0
              then Some (act PacketFree (dlog Error ''Failed to allocate packet data'' []
                           (d1\<lparr>dp_codec := c1\<rparr>)))
              else Option.bind (send_packet api naluIndex nalu (d1\<lparr>dp_codec := c1\<rparr>)) (\<lambda>(sent, d2).
                     if \<not> sent then Some d2
                     else receive_frames api (act PacketFree d2))))"

section \<open>Every packet is freed\<close>

definition live_packets :: "'c display \<Rightarrow> int" where
  "live_packets d = int (length (filter (\<lambda>e. e = PacketAlloc) (dp_events d))) -
     int (length (filter (\<lambda>e. e = PacketFree) (dp_events d)))"

lemma live_simps [simp]:
  "live_packets (dlog l m a d) = live_packets d"
  "live_packets (d\<lparr>dp_codec := c\<rparr>) = live_packets d"
  "live_packets (act ev d) = live_packets d +
     (if ev = PacketAlloc then 1 else if ev = PacketFree then -1 else 0)"
  "live_packets (RenderFrame fr d) = live_packets d"
  by (auto simp: live_packets_def dlog_def act_def RenderFrame_def)

lemma live_adapt: "adapt_texture api fr d = (ok, d') \<Longrightarrow> live_packets d' = live_packets d"
  by (auto simp: adapt_texture_def Let_def live_packets_def act_def dlog_def
      split: if_splits prod.splits)

lemma live_pending: "receive_pending api d = Some res \<Longrightarrow> live_packets (snd res) = live_packets d"
proof (induction rule: receive_pending.raw_induct [rotated, consumes 1, case_names step])
  case (step f api d res)
  from step(2) show ?case by (auto split: prod.splits if_splits dest!: step(1))
qed

lemma live_send:
  "send_packet api ni nalu d = Some res \<Longrightarrow>
     live_packets (snd res) = live_packets d - (if fst res then 0 else 1)"
proof (induction rule: send_packet.raw_induct [rotated, consumes 1, case_names step])
  case (step f api ni nalu d res)
  from step(2) show ?case
    by (auto simp: Let_def split: prod.splits if_splits Option.bind_splits
        dest!: live_pending step(1))
qed

lemma live_frames: "receive_frames api d = Some d' \<Longrightarrow> live_packets d' = live_packets d"
proof (induction rule: receive_frames.raw_induct [rotated, consumes 1, case_names step])
  case (step f api d d')
  from step(2) show ?case
    by (auto simp: Let_def split: prod.splits if_splits dest!: live_adapt step(1))
qed

text \<open>
  C32: On every path through the decoding of a unit, errors included, the packet allocated
  for it is freed exactly once.
\<close>

theorem no_packet_leak:
  assumes "DecodeAndDisplayNalu api ni nalu d = Some d'"
  shows "live_packets d' = live_packets d"
  using assms
  by (auto simp: DecodeAndDisplayNalu_def Let_def split: prod.splits if_splits Option.bind_splits
      dest!: live_send live_frames)

section \<open>Decoding ends\<close>

text \<open>
  What the documentation of the decoder promises: \<open>m\<close> bounds the frames it can still give,
  and a packet is refused only while a frame can be taken out.
\<close>

definition decoder_progress :: "'c codec_api \<Rightarrow> ('c \<Rightarrow> nat) \<Rightarrow> bool" where
  "decoder_progress api m \<longleftrightarrow>
     (\<forall>c ret fr c'. avcodec_receive_frame api c = (ret, fr, c') \<longrightarrow>
        m c' + (if 0 \<le> ret then 1 else 0) \<le> m c) \<and>
     (\<forall>nalu c ret c'. avcodec_send_packet api nalu c = (ret, c') \<and> ret = eagain api \<and> ret \<noteq> 0 \<longrightarrow>
        m c' \<le> m c \<and> fst (avcodec_receive_frame api c') \<notin> {eagain api, eof api}) \<and>
     (\<forall>w h c ok c'. SDL_CreateTexture api w h c = (ok, c') \<longrightarrow> m c' \<le> m c)"

lemma decoder_progressD:
  assumes "decoder_progress api m"
  shows "avcodec_receive_frame api c = (ret, fr, c') \<Longrightarrow> m c' + (if 0 \<le> ret then 1 else 0) \<le> m c"
    and "avcodec_send_packet api nalu c = (ret, c') \<Longrightarrow> ret = eagain api \<Longrightarrow> ret \<noteq> 0 \<Longrightarrow>
        m c' \<le> m c \<and> fst (avcodec_receive_frame api c') \<notin> {eagain api, eof api}"
    and "SDL_CreateTexture api w h c = (ok, c') \<Longrightarrow> m c' \<le> m c"
  using assms unfolding decoder_progress_def by blast+

lemma pending_returns:
  assumes prog: "decoder_progress api m"
  shows "\<exists>ret d'. receive_pending api d = Some (ret, d') \<and> m (dp_codec d') \<le> m (dp_codec d) \<and>
    (fst (avcodec_receive_frame api (dp_codec d)) = 0 \<longrightarrow> m (dp_codec d') < m (dp_codec d)) \<and>
    (fst (avcodec_receive_frame api (dp_codec d)) \<noteq> 0 \<longrightarrow>
       ret = fst (avcodec_receive_frame api (dp_codec d)))"
proof (induction "m (dp_codec d)" arbitrary: d rule: less_induct)
  case less
  obtain ret fr c where rc: "avcodec_receive_frame api (dp_codec d) = (ret, fr, c)"
    by (metis prod_cases3)
  note le = decoder_progressD(1) [OF prog rc]
  show ?case
  proof (cases "ret = 0")
    case True
    let ?d = "RenderFrame fr (d\<lparr>dp_codec := c\<rparr>)"
    have "m (dp_codec ?d) < m (dp_codec d)" using le True by (simp add: RenderFrame_def act_def)
    from less.hyps [OF this] this True rc show ?thesis
      by (subst receive_pending.simps) (auto intro: le_less_trans order_less_imp_le)
  next
    case False
    with rc le show ?thesis by (subst receive_pending.simps) (simp split: if_splits)
  qed
qed

lemma send_returns:
  assumes prog: "decoder_progress api m"
  shows "\<exists>sent d'. send_packet api ni nalu d = Some (sent, d')"
proof (induction "m (dp_codec d)" arbitrary: d rule: less_induct)
  case less
  obtain ret c where sd: "avcodec_send_packet api nalu (dp_codec d) = (ret, c)" by fastforce
  show ?case
  proof (cases "ret = eagain api \<and> ret \<noteq> 0")
    case True
    let ?d = "d\<lparr>dp_codec := c\<rparr>"
    note le = decoder_progressD(2) [OF prog sd True [THEN conjunct1] True [THEN conjunct2]]
    from pending_returns [OF prog, of ?d] obtain ret2 d2 where
      p: "receive_pending api ?d = Some (ret2, d2)"
      and lt: "fst (avcodec_receive_frame api c) = 0 \<longrightarrow> m (dp_codec d2) < m c"
      and r: "fst (avcodec_receive_frame api c) \<noteq> 0 \<longrightarrow> ret2 = fst (avcodec_receive_frame api c)"
      by auto
    show ?thesis
    proof (cases "ret2 \<noteq> eagain api \<and> ret2 \<noteq> eof api")
      case True
      with \<open>ret = eagain api \<and> ret \<noteq> 0\<close> sd p show ?thesis
        by (subst send_packet.simps) (auto simp: Let_def intro: exI [of _ False])
    next
      case False
      with le r have "fst (avcodec_receive_frame api c) = 0" by auto
      with lt le have "m (dp_codec d2) < m (dp_codec d)" by simp
      from less.hyps [OF this] obtain sent d' where "send_packet api ni nalu d2 = Some (sent, d')"
        by blast
      moreover have "send_packet api ni nalu d = send_packet api ni nalu d2"
        using False True sd p by (subst send_packet.simps) (auto simp: Let_def)
      ultimately show ?thesis by simp
    qed
  next
    case False
    with sd show ?thesis by (subst send_packet.simps) (auto simp: Let_def)
  qed
qed

lemma adapt_codec:
  assumes "decoder_progress api m" and "adapt_texture api fr d = (ok, d')"
  shows "m (dp_codec d') \<le> m (dp_codec d)"
  using assms(2)
  by (auto simp: adapt_texture_def Let_def act_def dlog_def split: if_splits prod.splits
      dest: decoder_progressD(3) [OF assms(1)])

lemma frames_return:
  assumes prog: "decoder_progress api m"
  shows "\<exists>d'. receive_frames api d = Some d'"
proof (induction "m (dp_codec d)" arbitrary: d rule: less_induct)
  case less
  obtain ret fr c where rc: "avcodec_receive_frame api (dp_codec d) = (ret, fr, c)"
    by (metis prod_cases3)
  obtain ok d2 where ad: "adapt_texture api fr (d\<lparr>dp_codec := c\<rparr>) = (ok, d2)" by fastforce
  note le = decoder_progressD(1) [OF prog rc] adapt_codec [OF prog ad]
  show ?case
  proof (cases "ret = eagain api \<or> ret = eof api \<or> ret < 0 \<or> \<not> ok")
    case True
    with rc ad show ?thesis by (subst receive_frames.simps) (auto simp: Let_def)
  next
    case False
    with le have "m (dp_codec (RenderFrame fr d2)) < m (dp_codec d)"
      by (simp add: RenderFrame_def act_def)
    from less.hyps [OF this] False rc ad show ?thesis
      by (subst receive_frames.simps) (simp add: Let_def)
  qed
qed

lemma decoding_returns_aux:
  assumes "decoder_progress api m"
  shows "\<exists>d'. DecodeAndDisplayNalu api ni nalu d = Some d'"
proof -
  obtain ok c where al: "packet_alloc api (dp_codec d) = (ok, c)" by fastforce
  let ?d1 = "act PacketAlloc (d\<lparr>dp_codec := c\<rparr>)"
  obtain ret c1 where nw: "av_new_packet api (sint (of_nat (length nalu) :: u32)) c = (ret, c1)"
    by fastforce
  obtain sent d2 where sd: "send_packet api ni nalu (?d1\<lparr>dp_codec := c1\<rparr>) = Some (sent, d2)"
    using send_returns [OF assms] by blast
  have "dp_codec ?d1 = c" by (simp add: act_def)
  with al nw sd frames_return [OF assms, of "act PacketFree d2"] show ?thesis
    by (auto simp: DecodeAndDisplayNalu_def Let_def)
qed

text \<open>
  With a decoder that refuses a packet only while it has a frame to give, and gives
  finitely many, decoding a unit returns.
\<close>

theorem decoding_returns:
  assumes "decoder_progress api m"
  shows "\<exists>d'. DecodeAndDisplayNalu api ni nalu d = Some d'"
  using decoding_returns_aux [OF assms] .

text \<open>A decoder that holds one unit's frames, for the witnesses.\<close>

definition list_codec :: "frame list codec_api" where
  "list_codec =
     \<lparr>avcodec_send_packet = (\<lambda>nalu fs. if fs = []
        then (0, [\<lparr>fr_width = 640, fr_height = 480, fr_format = 0\<rparr>]) else (-11, fs)),
      avcodec_receive_frame = (\<lambda>fs. case fs of
        [] \<Rightarrow> (-11, \<lparr>fr_width = 0, fr_height = 0, fr_format = -1\<rparr>, []) | f # fs' \<Rightarrow> (0, f, fs')),
      packet_alloc = (\<lambda>fs. (True, fs)), av_new_packet = (\<lambda>n fs. (0, fs)),
      SDL_CreateTexture = (\<lambda>w h fs. (True, fs)), SDL_GetError = (\<lambda>fs. ''''),
      eagain = -11, eof = -541478725, invaliddata = -1094995529\<rparr>"

lemma list_codec_progress: "decoder_progress list_codec length"
  by (auto simp: decoder_progress_def list_codec_def split: if_splits list.splits)

theorem decoding_returns_witness:
  "\<exists>d'. DecodeAndDisplayNalu list_codec 3 [0, 0, 1, 9] (display_init []) = Some d'"
  using decoding_returns [OF list_codec_progress] .

theorem no_packet_leak_witness:
  "\<exists>d'. DecodeAndDisplayNalu list_codec 3 [0, 0, 1, 9] (display_init []) = Some d' \<and>
     live_packets d' = 0"
proof -
  have "\<exists>d'. DecodeAndDisplayNalu list_codec 3 [0, 0, 1, 9] (display_init []) = Some d'"
    by (simp add: DecodeAndDisplayNalu_def Let_def list_codec_def display_init_def act_def
        send_packet.simps receive_frames.simps adapt_texture_def RenderFrame_def)
  then obtain d' where d': "DecodeAndDisplayNalu list_codec 3 [0, 0, 1, 9] (display_init []) = Some d'" ..
  from no_packet_leak [OF d'] have "live_packets d' = 0"
    by (simp add: live_packets_def display_init_def)
  with d' show ?thesis by blast
qed

section \<open>The texture\<close>

text \<open>
  When the texture for a new frame size cannot be created, the size is remembered all
  the same: the next frame of that size is drawn without any texture, and its creation is
  not tried again.
\<close>

theorem failed_texture_sticks:
  assumes "adapt_texture api fr d = (False, d1)"
  shows "let d2 = d1\<lparr>dp_codec := c\<rparr>
    in adapt_texture api fr d2 = (True, d2) \<and>
       dp_events (RenderFrame fr d2) = dp_events d2 @ [Rendered False fr]"
  using assms
  by (auto simp: adapt_texture_def Let_def dlog_def act_def RenderFrame_def split: if_splits prod.splits)

theorem failed_texture_sticks_witness:
  "let fr = \<lparr>fr_width = 640, fr_height = 480, fr_format = 0\<rparr>;
       d1 = snd (adapt_texture (list_codec\<lparr>SDL_CreateTexture := \<lambda>w h fs. (False, fs)\<rparr>) fr (display_init []))
   in dp_events (RenderFrame fr (d1\<lparr>dp_codec := []\<rparr>)) = [Rendered False fr]"
proof -
  let ?fr = "\<lparr>fr_width = 640, fr_height = 480, fr_format = 0\<rparr>"
  let ?api = "list_codec\<lparr>SDL_CreateTexture := \<lambda>w h fs. (False, fs)\<rparr>"
  let ?d1 = "snd (adapt_texture ?api ?fr (display_init []))"
  have "adapt_texture ?api ?fr (display_init []) = (False, ?d1)" and "dp_events ?d1 = []"
    by (simp_all add: adapt_texture_def display_init_def Let_def dlog_def)
  from failed_texture_sticks [OF this(1), of "[]"] this(2) show ?thesis by (simp add: Let_def)
qed

section \<open>The window\<close>

lemma window_lifecycle:
  assumes "CreateWindowAndRenderer w r err d = (ok, d1)" and "\<not> dp_renderer d"
  shows "(ok \<longleftrightarrow> dp_window d1 \<and> dp_renderer d1) \<and> (\<not> ok \<longrightarrow> \<not> dp_window d1 \<and> \<not> dp_renderer d1) \<and>
    \<not> dp_window (DestroyWindowAndRenderer d1) \<and> \<not> dp_renderer (DestroyWindowAndRenderer d1) \<and>
    \<not> dp_texture (DestroyWindowAndRenderer d1)"
  using assms
  by (auto simp: CreateWindowAndRenderer_def DestroyWindowAndRenderer_def Let_def act_def dlog_def
      split: if_splits)

end
