(* ===== verification/Player_Screen.thy ===== *)
theory Player_Screen
  imports Player_Integrity Player_Progress Player_Display
begin

text \<open>
  The whole player of \<open>common/video/Player.h\<close>: the playback loop of \<open>Player\<close> with the decoder
  and the window of \<open>Player_Display\<close>, and the clock by which \<open>Run\<close> paces itself. The decoding
  of a unit and the sleep happen outside the mutex, on state that no other thread touches: what
  other threads do in the meantime commutes with them, so a pass is one step of a run. The
  moment between showing and sleeping is the state after \<open>screen_show\<close>. Times are milliseconds.
\<close>

section \<open>State and operations\<close>

record 'c screen =
  sc_player :: player
  sc_display :: "'c display"
  sc_now :: nat
  sc_nextTick :: nat

definition screen_open :: "int \<Rightarrow> string \<Rightarrow> init_env \<Rightarrow> 'c \<Rightarrow> statistics \<Rightarrow> 'c screen outcome" where
  "screen_open sdl_init sdl_error ie c st =
     (let sc = (\<lambda>d. \<lparr>sc_player = player_init st, sc_display = d, sc_now = 0, sc_nextTick = 0\<rparr>)
      in case Player_construct sdl_init sdl_error ie c of
           Done d \<Rightarrow> Done (sc d)
         | Exited d \<Rightarrow> Exited (sc d)
         | Stuck \<Rightarrow> Stuck)"

text \<open>The unit a pass takes out of the map, which it decodes once it has left the mutex.\<close>

definition to_decode :: "sdl_event list \<Rightarrow> player \<Rightarrow> (u32 \<times> bytes) option" where
  "to_decode evs p =
     (let p1 = PollEvents evs p
      in if pl_stop p \<or> \<not> wait_pred p1 \<or> pl_stop p1 then None
         else (case map_find (pl_readyNalus p1) (pl_nextNaluIndex p1) of
                 None \<Rightarrow> None
               | Some nalu \<Rightarrow> Some (pl_nextNaluIndex p1, nalu)))"

text \<open>
  A pass up to its sleep. \<open>timeout\<close> is the number of the configuration: a wait whose predicate
  stays false takes it, everything else in the pass takes \<open>spent\<close>. When the loop ends the
  window goes.
\<close>

definition screen_show :: "'c codec_api \<Rightarrow> nat \<Rightarrow> sdl_event list \<Rightarrow> nat \<Rightarrow> 'c screen \<Rightarrow> 'c screen option" where
  "screen_show api timeout evs spent s =
     (let p = sc_player s; p1 = run_iteration evs p
      in if \<not> pl_running p then Some s
         else if \<not> pl_running p1
         then Some (s\<lparr>sc_player := p1, sc_display := DestroyWindowAndRenderer (sc_display s),
                     sc_now := sc_now s + spent\<rparr>)
         else let waited = (if wait_pred (PollEvents evs p) then 0 else timeout)
              in Option.bind
                   (case to_decode evs p of
                      None \<Rightarrow> Some (sc_display s)
                    | Some (naluIndex, nalu) \<Rightarrow> DecodeAndDisplayNalu api naluIndex nalu (sc_display s))
                   (\<lambda>d. Some (s\<lparr>sc_player := p1, sc_display := d, sc_now := sc_now s + waited + spent\<rparr>)))"

text \<open>
  The end of a pass: the next tick is \<open>interval\<close>, the other number of the configuration, after the
  last one, and the sleep until then may end \<open>over\<close> later. A tick in the past is no sleep.
\<close>

definition screen_sleep :: "nat \<Rightarrow> nat \<Rightarrow> 'c screen \<Rightarrow> 'c screen" where
  "screen_sleep interval over s =
     (if \<not> pl_running (sc_player s) then s
      else let tick = sc_nextTick s + interval
           in s\<lparr>sc_nextTick := tick, sc_now := max (sc_now s) tick + over\<rparr>)"

definition screen_pass :: "'c codec_api \<Rightarrow> nat \<Rightarrow> nat \<Rightarrow> sdl_event list \<Rightarrow> nat \<Rightarrow> nat \<Rightarrow> 'c screen \<Rightarrow>
    'c screen option" where
  "screen_pass api interval timeout evs spent over s =
     map_option (screen_sleep interval over) (screen_show api timeout evs spent s)"

lemmas pass_defs = screen_pass_def screen_show_def screen_sleep_def

lemma sleep_fields [simp]:
  "sc_player (screen_sleep interval over s) = sc_player s"
  "sc_display (screen_sleep interval over s) = sc_display s"
  by (simp_all add: screen_sleep_def Let_def)

lemma screen_pass_Some:
  "screen_pass api interval timeout evs spent over s = Some s' \<longleftrightarrow>
     (\<exists>s1. screen_show api timeout evs spent s = Some s1 \<and> s' = screen_sleep interval over s1)"
  by (auto simp: screen_pass_def)

text \<open>\<open>Start\<close>, \<open>delay\<close> after the last thing the player thread did: the thread makes the window.\<close>

definition screen_start :: "bool \<Rightarrow> bool \<Rightarrow> string \<Rightarrow> nat \<Rightarrow> 'c screen \<Rightarrow> 'c screen" where
  "screen_start window_ok renderer_ok sdl_error delay s =
     (if pl_thread (sc_player s) then s
      else (case CreateWindowAndRenderer window_ok renderer_ok sdl_error (sc_display s) of (ok, d) \<Rightarrow>
              s\<lparr>sc_player := Start_player ok (sc_player s), sc_display := d,
                sc_now := sc_now s + delay, sc_nextTick := sc_now s + delay\<rparr>))"

text \<open>\<open>Stop\<close> joins the thread, which leaves its loop and destroys the window.\<close>

definition screen_stop :: "'c screen \<Rightarrow> 'c screen" where
  "screen_stop s =
     (if pl_thread (sc_player s)
      then s\<lparr>sc_player := Stop_player (sc_player s),
             sc_display := (if pl_running (sc_player s) then DestroyWindowAndRenderer (sc_display s)
                            else sc_display s)\<rparr>
      else s)"

text \<open>\<open>~Player\<close>.\<close>

definition screen_close :: "'c screen \<Rightarrow> 'c screen" where
  "screen_close s =
     (let s1 = screen_stop s in s1\<lparr>sc_display := SDL_Quit (Cleanup (sc_display s1))\<rparr>)"

section \<open>Runs\<close>

datatype screen_op = ScBlock u32 u32 u32 bytes | ScCount | ScPass "sdl_event list" nat nat
  | ScStart bool bool string nat | ScStop

fun screen_apply :: "'c codec_api \<Rightarrow> nat \<Rightarrow> nat \<Rightarrow> screen_op \<Rightarrow> 'c screen \<Rightarrow> 'c screen option" where
  "screen_apply api interval timeout (ScBlock bi ni ns d) s =
     Some (s\<lparr>sc_player := AddBlock bi ni ns d (sc_player s)\<rparr>)"
| "screen_apply api interval timeout ScCount s =
     Some (s\<lparr>sc_player := count ACCEPTED_PACKETS 1 (sc_player s)\<rparr>)"
| "screen_apply api interval timeout (ScPass evs spent over) s =
     screen_pass api interval timeout evs spent over s"
| "screen_apply api interval timeout (ScStart w r err delay) s = Some (screen_start w r err delay s)"
| "screen_apply api interval timeout ScStop s = Some (screen_stop s)"

fun screen_run :: "'c codec_api \<Rightarrow> nat \<Rightarrow> nat \<Rightarrow> screen_op list \<Rightarrow> 'c screen \<Rightarrow> 'c screen option" where
  "screen_run api interval timeout [] s = Some s"
| "screen_run api interval timeout (x # xs) s =
     Option.bind (screen_apply api interval timeout x s) (screen_run api interval timeout xs)"

lemma screen_run_Cons:
  "screen_run api i t (x # xs) s = Some s' \<longleftrightarrow>
     (\<exists>s1. screen_apply api i t x s = Some s1 \<and> screen_run api i t xs s1 = Some s')"
  by (cases "screen_apply api i t x s") simp_all

text \<open>A property of states that every operation keeps holds after every run.\<close>

locale screen_invariant =
  fixes api :: "'c codec_api" and interval :: nat and timeout :: nat
    and inv :: "'c screen \<Rightarrow> bool"
  assumes inv_apply: "inv s \<Longrightarrow> screen_apply api interval timeout x s = Some s' \<Longrightarrow> inv s'"
begin

lemma inv_run: "screen_run api interval timeout xs s = Some s' \<Longrightarrow> inv s \<Longrightarrow> inv s'"
  by (induction xs arbitrary: s) (auto simp: screen_run_Cons simp del: screen_run.simps(2) intro: inv_apply)

end

section \<open>The player inside\<close>

fun player_part :: "screen_op \<Rightarrow> player_op" where
  "player_part (ScBlock bi ni ns d) = Arrive bi ni ns d"
| "player_part ScCount = CountPacket"
| "player_part (ScPass evs spent over) = Tick evs"
| "player_part (ScStart w r err delay) = StartOp (w \<and> r)"
| "player_part ScStop = StopOp"

lemma create_window_ok: "fst (CreateWindowAndRenderer w r err d) \<longleftrightarrow> w \<and> r"
  by (simp add: CreateWindowAndRenderer_def)

lemma idle_iteration: "\<not> pl_running p \<Longrightarrow> run_iteration evs p = p"
  by (simp add: run_iteration_def)

lemma screen_show_player:
  "screen_show api t evs spent s = Some s' \<Longrightarrow> sc_player s' = run_iteration evs (sc_player s)"
  by (auto simp: screen_show_def Let_def idle_iteration split: if_splits Option.bind_splits)

lemma screen_pass_player:
  "screen_pass api i t evs spent over s = Some s' \<Longrightarrow> sc_player s' = run_iteration evs (sc_player s)"
  by (auto simp: screen_pass_Some screen_show_player)

lemma screen_apply_player:
  "screen_apply api i t x s = Some s' \<Longrightarrow> sc_player s' = player_apply (player_part x) (sc_player s)"
proof (cases x)
  case (ScStart w r err delay)
  then show "screen_apply api i t x s = Some s' \<Longrightarrow> ?thesis"
    using create_window_ok [of w r err "sc_display s"]
    by (auto simp: screen_start_def Start_player_def split: prod.splits)
qed (auto simp: screen_pass_player screen_stop_def Stop_player_def)

lemma screen_run_player:
  "screen_run api i t xs s = Some s' \<Longrightarrow> sc_player s' = player_run (map player_part xs) (sc_player s)"
  by (induction xs arbitrary: s)
    (auto simp: screen_run_Cons screen_apply_player simp del: screen_run.simps(2))

section \<open>What is decoded\<close>

fun decode_all :: "'c codec_api \<Rightarrow> (u32 \<times> bytes) list \<Rightarrow> 'c display \<Rightarrow> 'c display option" where
  "decode_all api [] d = Some d"
| "decode_all api ((naluIndex, nalu) # us) d =
     Option.bind (DecodeAndDisplayNalu api naluIndex nalu d) (decode_all api us)"

lemma decode_all_append:
  "decode_all api (us @ vs) d = Option.bind (decode_all api us d) (decode_all api vs)"
  by (induction us arbitrary: d) (auto split: Option.bind_splits)

text \<open>The unit to decode is the one the pass shows.\<close>

lemma shown_iteration:
  assumes "player_ok p" and "pl_running (run_iteration evs p)"
  shows "shown (run_iteration evs p) =
    shown p @ (case to_decode evs p of None \<Rightarrow> [] | Some u \<Rightarrow> [u])"
  using assms(1)
proof (cases rule: iteration_cases [where evs = evs])
  case idle
  with assms(2) show ?thesis by simp
next
  case stopped
  with assms(2) show ?thesis by simp
next
  case (showed d)
  then have "rdy (PollEvents evs p) (pl_nextNaluIndex (PollEvents evs p)) = Some d"
    by (simp add: player_simps)
  from shown_show_next [OF this] showed show ?thesis
    by (simp add: to_decode_def wait_pred_def Let_def player_simps)
next
  case waited
  then show ?thesis by (simp add: to_decode_def wait_pred_def Let_def player_simps)
qed

lemma shown_same [simp]:
  "shown (AddBlock bi ni ns d p) = shown p" "shown (count n v p) = shown p"
  by (auto simp: shown_def AddBlock_cases Let_def complete_nalu_def player_simps displayed_append)

fun in_loop :: "screen_op \<Rightarrow> bool" where
  "in_loop (ScStart _ _ _ _) = False"
| "in_loop ScStop = False"
| "in_loop _ = True"

lemma running_back:
  "in_loop x \<Longrightarrow> pl_running (player_apply (player_part x) p) \<Longrightarrow> pl_running p"
  by (cases x) (auto simp: run_iteration_def AddBlock_cases complete_nalu_def Let_def player_simps
      split: if_splits)

lemma running_back_run:
  "list_all in_loop xs \<Longrightarrow> pl_running (player_run (map player_part xs) p) \<Longrightarrow> pl_running p"
  by (induction xs arbitrary: p) (auto dest: running_back)

lemma pass_decodes:
  assumes "in_loop x" and "player_ok (sc_player s)" and "screen_apply api i t x s = Some s1"
    and "pl_running (sc_player s1)"
  shows "\<exists>us. shown (sc_player s1) = shown (sc_player s) @ us \<and>
    decode_all api us (sc_display s) = Some (sc_display s1)"
proof (cases x)
  case (ScPass evs spent over)
  let ?u = "to_decode evs (sc_player s)"
  have p: "screen_pass api i t evs spent over s = Some s1" using assms(3) ScPass by simp
  note sp = screen_pass_player [OF this]
  have run: "pl_running (sc_player s)"
    using assms(1,4) running_back [of x "sc_player s"] ScPass sp by simp
  from p run assms(4) have
    "(case ?u of None \<Rightarrow> Some (sc_display s)
      | Some (ni, nalu) \<Rightarrow> DecodeAndDisplayNalu api ni nalu (sc_display s)) = Some (sc_display s1)"
    by (auto simp: screen_pass_Some screen_show_def Let_def sp split: if_splits Option.bind_splits)
  then have "decode_all api (case ?u of None \<Rightarrow> [] | Some u \<Rightarrow> [u]) (sc_display s) = Some (sc_display s1)"
    by (auto split: option.splits prod.splits)
  with shown_iteration [OF assms(2), of evs] assms(4) sp show ?thesis by auto
qed (use assms in auto)

lemma run_decodes:
  assumes "list_all in_loop ops" and "player_ok (sc_player s)"
    and "screen_run api i t ops s = Some s'" and "pl_running (sc_player s')"
  shows "\<exists>us. shown (sc_player s') = shown (sc_player s) @ us \<and>
    decode_all api us (sc_display s) = Some (sc_display s')"
  using assms
proof (induction ops arbitrary: s)
  case Nil
  then show ?case by (auto intro: exI [of _ "[]"])
next
  case (Cons x xs)
  from Cons.prems(3) obtain s1 where x: "screen_apply api i t x s = Some s1"
    and xs: "screen_run api i t xs s1 = Some s'"
    by (auto simp: screen_run_Cons simp del: screen_run.simps)
  have ok: "player_ok (sc_player s1)"
    using screen_apply_player [OF x] player_ok_apply [OF Cons.prems(2)] by simp
  have run: "pl_running (sc_player s1)"
    using running_back_run [of xs "sc_player s1"] Cons.prems(1,4) screen_run_player [OF xs] by simp
  from pass_decodes [OF _ Cons.prems(2) x run] Cons.prems(1) obtain us where
    us: "shown (sc_player s1) = shown (sc_player s) @ us"
      "decode_all api us (sc_display s) = Some (sc_display s1)"
    by auto
  from Cons.IH [OF _ ok xs Cons.prems(4)] Cons.prems(1) obtain vs where
    vs: "shown (sc_player s') = shown (sc_player s1) @ vs"
      "decode_all api vs (sc_display s1) = Some (sc_display s')"
    by auto
  from us vs show ?case by (intro exI [of _ "us @ vs"]) (simp add: decode_all_append)
qed

text \<open>
  While the loop runs, what the decoder, the texture and the screen have gone through is
  the decoding of exactly the units shown, one after the other in the order in which they are
  shown, whatever blocks arrive in between.
\<close>

theorem screen_decodes_shown_units:
  assumes "reachable player_start player_step (sc_player s)" and "list_all in_loop ops"
    and "screen_run api interval timeout ops s = Some s'" and "pl_running (sc_player s')"
  shows "\<exists>us. shown (sc_player s') = shown (sc_player s) @ us \<and>
    decode_all api us (sc_display s) = Some (sc_display s')"
  using run_decodes [OF assms(2) pinv.inv_reachable [OF assms(1)] assms(3,4)] .

section \<open>Every run returns\<close>

lemma pass_returns:
  assumes "\<And>ni nalu d. \<exists>d'. DecodeAndDisplayNalu api ni nalu d = Some d'"
  shows "\<exists>s'. screen_apply api i t x s = Some s'"
proof (cases x)
  case (ScPass evs spent over)
  show ?thesis
  proof (cases "to_decode evs (sc_player s)")
    case None
    with ScPass show ?thesis by (simp add: screen_pass_def screen_show_def Let_def)
  next
    case (Some u)
    obtain ni nalu where u: "u = (ni, nalu)" by (cases u)
    obtain d' where "DecodeAndDisplayNalu api ni nalu (sc_display s) = Some d'" using assms by blast
    with ScPass Some u show ?thesis by (simp add: screen_pass_def screen_show_def Let_def)
  qed
qed simp_all

lemma run_returns:
  assumes "\<And>ni nalu d. \<exists>d'. DecodeAndDisplayNalu api ni nalu d = Some d'"
  shows "\<exists>s'. screen_run api i t xs s = Some s'"
proof (induction xs arbitrary: s)
  case Nil
  then show ?case by simp
next
  case (Cons x xs)
  from pass_returns [OF assms, of i t x s] obtain s1 where "screen_apply api i t x s = Some s1" by blast
  with Cons [of s1] show ?case by simp
qed

text \<open>
  C30: The player never hangs in the decoder: with a decoder that refuses a packet only while it
  has a frame to give, and gives finitely many, every sequence of blocks, passes, starts and
  stops returns, whatever the bytes of the units are.
\<close>

theorem screen_returns:
  assumes "decoder_progress api m"
  shows "\<exists>s'. screen_run api interval timeout ops s = Some s'"
  using run_returns decoding_returns_aux [OF assms] by blast

section \<open>The window\<close>

text \<open>Decoding creates and destroys neither the window nor the renderer, and leaves SDL up.\<close>

definition same_window :: "'c display \<Rightarrow> 'c display \<Rightarrow> bool" where
  "same_window d d' \<longleftrightarrow> dp_window d' = dp_window d \<and> dp_renderer d' = dp_renderer d \<and>
     dp_sdl d' = dp_sdl d"

lemma same_window_simps [simp]:
  "same_window d d" "same_window d (dlog l m a d') = same_window d d'"
  "same_window d (act ev d') = same_window d d'" "same_window d (RenderFrame fr d') = same_window d d'"
  "same_window d (d'\<lparr>dp_codec := c\<rparr>) = same_window d d'"
  "same_window (act ev d) d' = same_window d d'" "same_window (RenderFrame fr d) d' = same_window d d'"
  "same_window (d\<lparr>dp_codec := c\<rparr>) d' = same_window d d'"
  by (simp_all add: same_window_def dlog_def act_def RenderFrame_def)

lemma same_window_trans: "same_window d d1 \<Longrightarrow> same_window d1 d2 \<Longrightarrow> same_window d d2"
  by (simp add: same_window_def)

lemma window_adapt: "adapt_texture api fr d = (ok, d') \<Longrightarrow> same_window d d'"
  by (auto simp: adapt_texture_def Let_def same_window_def act_def dlog_def
      split: if_splits prod.splits)

lemma window_pending: "receive_pending api d = Some res \<Longrightarrow> same_window d (snd res)"
proof (induction rule: receive_pending.raw_induct [rotated, consumes 1, case_names step])
  case (step f api d res)
  from step(2) show ?case by (auto split: prod.splits if_splits dest!: step(1))
qed

lemma window_send: "send_packet api ni nalu d = Some res \<Longrightarrow> same_window d (snd res)"
proof (induction rule: send_packet.raw_induct [rotated, consumes 1, case_names step])
  case (step f api ni nalu d res)
  from step(2) show ?case
    by (auto simp: Let_def split: prod.splits if_splits Option.bind_splits
        dest!: window_pending step(1) intro: same_window_trans)
qed

lemma window_frames: "receive_frames api d = Some d' \<Longrightarrow> same_window d d'"
proof (induction rule: receive_frames.raw_induct [rotated, consumes 1, case_names step])
  case (step f api d d')
  from step(2) show ?case
    by (auto simp: Let_def split: prod.splits if_splits dest!: window_adapt step(1)
        intro: same_window_trans)
qed

lemma window_decode: "DecodeAndDisplayNalu api ni nalu d = Some d' \<Longrightarrow> same_window d d'"
  by (auto simp: DecodeAndDisplayNalu_def Let_def split: prod.splits if_splits Option.bind_splits
      dest!: window_send window_frames intro: same_window_trans)

text \<open>
  The window and the renderer are there exactly while the loop runs; else no texture is. SDL
  is initialised as long as the player exists.
\<close>

definition window_ok :: "'c screen \<Rightarrow> bool" where
  "window_ok s \<longleftrightarrow> dp_sdl (sc_display s) \<and> dp_window (sc_display s) = pl_running (sc_player s) \<and>
     dp_renderer (sc_display s) = pl_running (sc_player s) \<and>
     (pl_running (sc_player s) \<longrightarrow> pl_thread (sc_player s)) \<and>
     (\<not> pl_running (sc_player s) \<longrightarrow> \<not> dp_texture (sc_display s))"

lemma destroyed [simp]:
  "dp_sdl (DestroyWindowAndRenderer d) = dp_sdl d"
  "\<not> dp_window (DestroyWindowAndRenderer d)" "\<not> dp_renderer (DestroyWindowAndRenderer d)"
  "\<not> dp_texture (DestroyWindowAndRenderer d)"
  by (simp_all add: DestroyWindowAndRenderer_def Let_def act_def)

lemma thread_iteration [simp]: "pl_thread (run_iteration evs p) = pl_thread p"
  by (simp add: run_iteration_def show_next_def skip_missing_def Let_def player_simps split: option.split)

lemma AddBlock_control [simp]:
  "pl_running (AddBlock bi ni ns d p) = pl_running p" "pl_thread (AddBlock bi ni ns d p) = pl_thread p"
  by (simp_all add: AddBlock_cases Let_def complete_nalu_def player_simps)

lemma window_pass:
  assumes "window_ok s" and "screen_pass api i t evs spent over s = Some s'"
  shows "window_ok s'"
  using assms
  by (auto simp: screen_pass_Some screen_show_def Let_def window_ok_def same_window_def
      split: if_splits Option.bind_splits option.splits prod.splits dest!: window_decode)

lemma window_start:
  assumes "window_ok s"
  shows "window_ok (screen_start w r err delay s)"
proof (cases "pl_thread (sc_player s)")
  case True
  with assms show ?thesis by (simp add: screen_start_def)
next
  case False
  with assms have "\<not> dp_texture (sc_display s)" "\<not> dp_renderer (sc_display s)" "\<not> dp_window (sc_display s)"
    "dp_sdl (sc_display s)"
    by (auto simp: window_ok_def)
  with False show ?thesis
    by (auto simp: screen_start_def window_ok_def CreateWindowAndRenderer_def Start_player_def
        dlog_def act_def player_simps)
qed

lemma window_stop: "window_ok s \<Longrightarrow> window_ok (screen_stop s)"
  by (auto simp: screen_stop_def window_ok_def Stop_player_def player_simps)

lemma window_apply: "window_ok s \<Longrightarrow> screen_apply api i t x s = Some s' \<Longrightarrow> window_ok s'"
  by (cases x) (auto simp: window_pass window_start window_stop, auto simp: window_ok_def player_simps)

interpretation scw: screen_invariant api interval timeout window_ok for api interval timeout
  by unfold_locales (rule window_apply)

lemma window_ok_open: "screen_open sdl_init err ie c st = Done s0 \<Longrightarrow> window_ok s0"
  by (auto simp: screen_open_def Let_def Player_construct_def InitDecoder_def window_ok_def
      display_init_def player_init_def split: if_splits)

lemmas window_ok_run = scw.inv_run [OF _ window_ok_open]

text \<open>
  C31: From the construction to the destructor SDL is initialised, and the window and the
  renderer exist exactly while the playback loop runs, also when their creation fails or the
  user closes the window. After the destructor the window, the renderer, the texture, the codec
  context, the frame and the scaler are gone and SDL has been quit.
\<close>

theorem window_follows_loop:
  assumes "screen_open sdl_init err ie c st = Done s0"
    and "screen_run api interval timeout ops s0 = Some s"
  shows "dp_sdl (sc_display s) \<and> dp_window (sc_display s) = pl_running (sc_player s) \<and>
    dp_renderer (sc_display s) = pl_running (sc_player s) \<and>
    (let d = sc_display (screen_close s)
     in \<not> dp_window d \<and> \<not> dp_renderer d \<and> \<not> dp_texture d \<and> \<not> dp_codecContext d \<and> \<not> dp_frame d \<and>
        \<not> dp_swsContext d \<and> \<not> dp_sdl d)"
  using window_ok_run [OF assms(2,1)]
  by (auto simp: window_ok_def screen_close_def screen_stop_def Cleanup_def SDL_Quit_def act_def Let_def)

section \<open>Pacing\<close>

text \<open>
  Every unit shown so far has had its tick, and no tick lies in the future. Between showing and
  sleeping, the unit just shown has not had its own.
\<close>

definition paced :: "nat \<Rightarrow> 'c screen \<Rightarrow> bool" where
  "paced interval s \<longleftrightarrow> player_ok (sc_player s) \<and> sc_nextTick s \<le> sc_now s \<and>
     length (shown (sc_player s)) * interval \<le> sc_nextTick s"

definition paced_shown :: "nat \<Rightarrow> 'c screen \<Rightarrow> bool" where
  "paced_shown interval s \<longleftrightarrow> player_ok (sc_player s) \<and> sc_nextTick s \<le> sc_now s \<and>
     length (shown (sc_player s)) * interval \<le>
       sc_nextTick s + (if pl_running (sc_player s) then interval else 0)"

lemma shown_control:
  "shown (PollEvents evs p) = shown p" "shown (p\<lparr>pl_running := b\<rparr>) = shown p"
  "shown (Start_player ok p) = shown p" "shown (Stop_player p) = shown p"
  by (simp_all add: shown_def player_simps Start_player_def Stop_player_def displayed_append plog_def)

lemma shown_stopped:
  "player_ok p \<Longrightarrow> \<not> pl_running (run_iteration evs p) \<Longrightarrow> shown (run_iteration evs p) = shown p"
  by (erule iteration_cases [where evs = evs]) (auto simp: shown_control player_simps)

lemma paced_show:
  assumes "paced interval s" and "screen_show api t evs spent s = Some s'"
  shows "paced_shown interval s'"
proof -
  let ?p = "sc_player s" and ?q = "run_iteration evs (sc_player s)"
  from assms(1) have ok: "player_ok ?p" by (simp add: paced_def)
  have ok': "player_ok ?q" using ok by (rule player_ok_iteration)
  consider "\<not> pl_running ?p" | "pl_running ?p" "\<not> pl_running ?q" | "pl_running ?p" "pl_running ?q" by blast
  then show ?thesis
  proof cases
    case 1
    with assms show ?thesis by (simp add: screen_show_def paced_def paced_shown_def)
  next
    case 2
    with assms ok' shown_stopped [OF ok] show ?thesis
      by (auto simp: screen_show_def Let_def paced_def paced_shown_def)
  next
    case 3
    have "length (shown ?q) \<le> Suc (length (shown ?p))"
      using shown_iteration [OF ok 3(2)] by (auto split: option.split)
    then have "length (shown ?q) * interval \<le> Suc (length (shown ?p)) * interval" by (rule mult_right_mono) simp
    with assms ok' 3 show ?thesis
      by (auto simp: screen_show_def Let_def paced_def paced_shown_def split: Option.bind_splits)
  qed
qed

lemma paced_sleep: "paced_shown interval s \<Longrightarrow> paced interval (screen_sleep interval over s)"
  by (auto simp: paced_def paced_shown_def screen_sleep_def Let_def)

lemma paced_apply:
  assumes "paced interval s" and "screen_apply api interval t x s = Some s'"
  shows "paced interval s'"
proof -
  from assms have ok: "player_ok (sc_player s')"
    using player_ok_apply by (simp add: screen_apply_player paced_def)
  show ?thesis
  proof (cases x)
    case (ScPass evs spent over)
    with assms show ?thesis by (auto simp: screen_pass_Some intro: paced_sleep paced_show)
  next
    case (ScStart w r err delay)
    with assms have "sc_nextTick s' \<le> sc_now s' \<and> sc_nextTick s \<le> sc_nextTick s' \<and>
        shown (sc_player s') = shown (sc_player s)"
      by (auto simp: screen_start_def paced_def shown_control split: prod.splits)
    with assms ok show ?thesis by (auto simp: paced_def)
  qed (use assms ok in \<open>auto simp: paced_def screen_stop_def shown_control\<close>)
qed

interpretation scp: screen_invariant api interval timeout "paced interval" for api interval timeout
  by unfold_locales (rule paced_apply)

lemma paced_open: "screen_open sdl_init err ie c st = Done s0 \<Longrightarrow> paced interval s0"
  using player_ok_init [of st] by (auto simp: screen_open_def Let_def paced_def split: outcome.splits)
    (simp add: shown_def player_init_def)

text \<open>
  C16: The number of units shown is bounded by the time gone by since the player was made,
  however fast units become ready and however often the player is stopped and started: between
  passes, the units shown times the interval is at most the time gone by; inside a pass, when
  its unit has been shown and the sleep is still to come, it is at most one interval more, so
  the unit number \<open>k\<close> is never shown before \<open>k - 1\<close> intervals have passed. This is a bound on the
  number, not on the distance between two units: a loop that is behind its ticks shows several
  at once.
\<close>

theorem playback_is_paced:
  assumes "screen_open sdl_init err ie c st = Done s0"
    and "screen_run api interval timeout ops s0 = Some s"
    and "screen_show api timeout evs spent s = Some s1"
  shows "length (shown (sc_player s)) * interval \<le> sc_now s \<and>
    length (shown (sc_player s1)) * interval \<le> sc_now s1 + interval"
  using scp.inv_run [OF assms(2) paced_open [OF assms(1)]] paced_show [OF _ assms(3), of interval]
  by (auto simp: paced_def paced_shown_def split: if_splits)

section \<open>A concrete player\<close>

definition demo_screen :: "frame list screen" where
  "demo_screen = \<lparr>sc_player = player_init (statistics_init Map.empty),
     sc_display = (display_init [])\<lparr>dp_sdl := True, dp_codecContext := True, dp_frame := True\<rparr>,
     sc_now = 0, sc_nextTick = 0\<rparr>"

definition demo_screen_ops :: "screen_op list" where
  "demo_screen_ops = [ScStart True True [] 7, ScBlock 0 0 1 [0, 0, 1, 9], ScPass [] 5 1, ScPass [SDL_QUIT] 2 0]"

lemma demo_screen_open:
  "screen_open 0 [] \<lparr>ie_decoder_found = True, ie_context = True, ie_frame = True, ie_open2 = 0\<rparr> []
     (statistics_init Map.empty) = Done demo_screen"
  by (simp add: screen_open_def Player_construct_def InitDecoder_def demo_screen_def Let_def)

lemma demo_screen_returns: "\<exists>s'. screen_run list_codec 33 100 ops s = Some s'"
  using run_returns [of list_codec] decoding_returns_aux [OF list_codec_progress] by blast

lemma demo_screen_player:
  "shown (player_run (map player_part demo_screen_ops) (player_init (statistics_init Map.empty))) =
     [(0, [0, 0, 1, 9])]"
  "\<not> pl_running (player_run (map player_part demo_screen_ops) (player_init (statistics_init Map.empty)))"
  by code_simp+

theorem screen_decodes_shown_units_witness:
  "\<exists>s0 s'. screen_run list_codec 33 100 [ScBlock 0 0 1 [0, 0, 1, 9], ScPass [] 5 1] s0 = Some s' \<and>
     decode_all list_codec [(0, [0, 0, 1, 9])] (sc_display s0) = Some (sc_display s')"
proof -
  let ?s0 = "screen_start True True [] 7 demo_screen"
  let ?ops = "[ScBlock 0 0 1 [0, 0, 1, 9], ScPass [] 5 1]"
  have p0: "sc_player ?s0 = player_run [StartOp True] demo_init"
    using screen_apply_player [of list_codec 33 100 "ScStart True True [] 7" demo_screen]
    by (simp add: demo_screen_def)
  obtain s' where s': "screen_run list_codec 33 100 ?ops ?s0 = Some s'"
    using demo_screen_returns by blast
  have sh: "shown (sc_player s') = [(0, [0, 0, 1, 9])]" "pl_running (sc_player s')" "shown (sc_player ?s0) = []"
    unfolding screen_run_player [OF s'] p0 by code_simp+
  have "reachable player_start player_step (sc_player ?s0)" unfolding p0 by (rule reachable_run)
  from screen_decodes_shown_units [OF this _ s' sh(2)] sh(1,3) s' show ?thesis by auto
qed

theorem screen_returns_witness:
  "\<exists>s'. screen_run list_codec 33 100 demo_screen_ops demo_screen = Some s'"
  by (rule screen_returns [OF list_codec_progress])

theorem window_follows_loop_witness:
  "\<exists>s'. screen_run list_codec 33 100 demo_screen_ops demo_screen = Some s' \<and>
     \<not> dp_window (sc_display s') \<and> \<not> dp_renderer (sc_display s')"
proof -
  obtain s' where s': "screen_run list_codec 33 100 demo_screen_ops demo_screen = Some s'"
    using demo_screen_returns by blast
  have "\<not> pl_running (sc_player s')"
    using demo_screen_player(2) screen_run_player [OF s']
    by (simp only: demo_screen_def screen.simps not_False_eq_True)
  with window_follows_loop [OF demo_screen_open s'] s' show ?thesis by auto
qed

text \<open>The second unit: ready before its tick, it is shown 33 milliseconds after the first.\<close>

definition demo_paced_ops :: "screen_op list" where
  "demo_paced_ops = [ScStart True True [] 7, ScBlock 0 0 1 [0, 0, 1, 9], ScBlock 0 1 1 [0, 0, 1, 8], ScPass [] 0 0]"

lemma demo_paced_player:
  "shown (player_run (map player_part demo_paced_ops) (player_init (statistics_init Map.empty))) =
     [(0, [0, 0, 1, 9])]"
  "shown (run_iteration [] (player_run (map player_part demo_paced_ops) (player_init (statistics_init Map.empty)))) =
     [(0, [0, 0, 1, 9]), (1, [0, 0, 1, 8])]"
  by code_simp+

theorem playback_is_paced_witness:
  "\<exists>s s1. screen_run list_codec 33 100 demo_paced_ops demo_screen = Some s \<and> 33 \<le> sc_now s \<and>
     screen_show list_codec 100 [] 0 s = Some s1 \<and> length (shown (sc_player s1)) = 2 \<and> 33 \<le> sc_now s1"
proof -
  obtain s where s: "screen_run list_codec 33 100 demo_paced_ops demo_screen = Some s"
    using demo_screen_returns by blast
  obtain s' where "screen_run list_codec 33 100 [ScPass [] 0 0] s = Some s'"
    using demo_screen_returns by blast
  then obtain s1 where s1: "screen_show list_codec 100 [] 0 s = Some s1"
    by (auto simp: screen_run_Cons screen_pass_Some simp del: screen_run.simps(2))
  have "length (shown (sc_player s)) = 1" "length (shown (sc_player s1)) = 2"
    using screen_run_player [OF s] screen_show_player [OF s1] demo_paced_player
    by (simp_all only: demo_screen_def screen.simps) simp_all
  with playback_is_paced [OF demo_screen_open s s1] s s1 show ?thesis by auto
qed

end
