(* ===== verification/Player_Restart.thy ===== *)
theory Player_Restart
  imports Player_Screen
begin

text \<open>
  A player that is stopped and started again: the texture goes with the window, the size of
  the last frame stays, so for a stream that keeps its frame size no texture is made again.
\<close>

section \<open>Drawing without a texture\<close>

text \<open>All frames the decoder gives have one size and format.\<close>

definition frames_sized :: "'c codec_api \<Rightarrow> int \<Rightarrow> int \<Rightarrow> int \<Rightarrow> bool" where
  "frames_sized api w h f \<longleftrightarrow> (\<forall>c ret fr c'. avcodec_receive_frame api c = (ret, fr, c') \<and> 0 \<le> ret \<longrightarrow>
     fr = \<lparr>fr_width = w, fr_height = h, fr_format = f\<rparr>)"

text \<open>Since \<open>past\<close> nothing has been drawn through a texture, and none is there.\<close>

definition blank :: "display_event list \<Rightarrow> int \<Rightarrow> int \<Rightarrow> int \<Rightarrow> 'c display \<Rightarrow> bool" where
  "blank past w h f d \<longleftrightarrow> \<not> dp_texture d \<and> dp_width d = w \<and> dp_height d = h \<and> dp_pixFmt d = f \<and>
     (\<exists>evs. dp_events d = past @ evs \<and> (\<forall>fr. Rendered True fr \<notin> set evs))"

lemma blank_simps [simp]:
  "blank past w h f (dlog l m a d) = blank past w h f d"
  "blank past w h f (d\<lparr>dp_codec := c\<rparr>) = blank past w h f d"
  by (simp_all add: blank_def dlog_def)

lemma blank_act: "blank past w h f d \<Longrightarrow> (\<And>fr. ev \<noteq> Rendered True fr) \<Longrightarrow> blank past w h f (act ev d)"
  by (force simp: blank_def act_def)

lemma blank_render: "blank past w h f d \<Longrightarrow> blank past w h f (RenderFrame fr d)"
  unfolding RenderFrame_def by (rule blank_act) (auto simp: blank_def)

lemma blank_adapt:
  "blank past w h f d \<Longrightarrow> adapt_texture api \<lparr>fr_width = w, fr_height = h, fr_format = f\<rparr> d = (True, d)"
  by (simp add: blank_def adapt_texture_def)

lemma blank_pending:
  "receive_pending api d = Some res \<Longrightarrow> blank past w h f d \<Longrightarrow> blank past w h f (snd res)"
proof (induction rule: receive_pending.raw_induct [rotated, consumes 1, case_names step])
  case (step F api d res)
  from step(2,3) show ?case by (auto split: prod.splits if_splits dest!: step(1) intro: blank_render)
qed

lemma blank_send:
  "send_packet api ni nalu d = Some res \<Longrightarrow> blank past w h f d \<Longrightarrow> blank past w h f (snd res)"
proof (induction rule: send_packet.raw_induct [rotated, consumes 1, case_names step])
  case (step F api ni nalu d res)
  from step(2,3) show ?case
    by (auto simp: Let_def split: prod.splits if_splits Option.bind_splits
        dest!: blank_pending [where past = past and w = w and h = h and f = f] step(1)
        intro!: blank_act)
qed

lemma blank_frames:
  "receive_frames api d = Some d' \<Longrightarrow> frames_sized api w h f \<Longrightarrow> blank past w h f d \<Longrightarrow> blank past w h f d'"
proof (induction rule: receive_frames.raw_induct [rotated, consumes 1, case_names step])
  case (step F api d d')
  obtain ret fr c where rc: "avcodec_receive_frame api (dp_codec d) = (ret, fr, c)" by (metis prod_cases3)
  show ?case
  proof (cases "ret = eagain api \<or> ret = eof api \<or> ret < 0")
    case True
    with step(2,4) rc show ?thesis by (auto simp: Let_def split: if_splits)
  next
    case False
    with step(3) rc have "fr = \<lparr>fr_width = w, fr_height = h, fr_format = f\<rparr>"
      unfolding frames_sized_def by (metis not_less)
    moreover have "blank past w h f (RenderFrame fr (d\<lparr>dp_codec := c\<rparr>))"
      using step(4) by (intro blank_render) simp
    ultimately show ?thesis
      using step(2,4) rc False blank_adapt [of past w h f "d\<lparr>dp_codec := c\<rparr>" api]
      by (auto simp: Let_def dest!: step(1) [OF _ step(3)])
  qed
qed

lemma blank_decode:
  assumes "frames_sized api w h f" and "DecodeAndDisplayNalu api ni nalu d = Some d'"
    and "blank past w h f d"
  shows "blank past w h f d'"
  using assms(2,3)
  by (auto simp: DecodeAndDisplayNalu_def Let_def split: prod.splits if_splits Option.bind_splits
      dest!: blank_send [where past = past and w = w and h = h and f = f]
      blank_frames [OF _ assms(1), where past = past] intro!: blank_act)

section \<open>The window\<close>

lemma blank_destroy: "blank past w h f d \<Longrightarrow> blank past w h f (DestroyWindowAndRenderer d)"
  by (auto simp: blank_def DestroyWindowAndRenderer_def Let_def act_def)

lemma blank_create:
  "CreateWindowAndRenderer wo ro err d = (ok, d') \<Longrightarrow> blank past w h f d \<Longrightarrow> blank past w h f d'"
  by (auto simp: CreateWindowAndRenderer_def blank_def act_def dlog_def split: if_splits)

lemma blank_apply:
  assumes "frames_sized api w h f" and "blank past w h f (sc_display s)"
    and "screen_apply api i t x s = Some s'"
  shows "blank past w h f (sc_display s')"
proof (cases x)
  case (ScPass evs spent over)
  with assms(2,3) blank_decode [OF assms(1), where past = past] show ?thesis
    by (auto simp: screen_pass_Some screen_show_def Let_def intro: blank_destroy
        split: if_splits Option.bind_splits option.splits prod.splits)
next
  case (ScStart wo ro err delay)
  with assms(2,3) blank_create show ?thesis
    by (fastforce simp: screen_start_def split: if_splits prod.splits)
qed (use assms in \<open>auto simp: screen_stop_def blank_destroy\<close>)

interpretation blk: screen_invariant api interval timeout
    "\<lambda>s. frames_sized api w h f \<longrightarrow> blank past w h f (sc_display s)" for api interval timeout w h f past
  by unfold_locales (auto intro: blank_apply)

text \<open>
  C33: Stopping and starting again leaves the screen black. When the frames of the stream have one
  size and the player has seen it, then after a stop no frame is ever drawn through a texture
  again, however often the player is started and whatever it decodes: a texture is made only
  when the size changes.
\<close>

theorem restarted_player_is_blank:
  assumes "screen_open sdl_init err ie c st = Done s0"
    and "screen_run api interval timeout ops s0 = Some s" and "pl_thread (sc_player s)"
    and "frames_sized api w h f"
    and "dp_width (sc_display s) = w" and "dp_height (sc_display s) = h" and "dp_pixFmt (sc_display s) = f"
    and "screen_run api interval timeout ops' (screen_stop s) = Some s'"
  shows "\<exists>evs. dp_events (sc_display s') = dp_events (sc_display (screen_stop s)) @ evs \<and>
    (\<forall>fr. Rendered True fr \<notin> set evs)"
proof -
  let ?d = "sc_display (screen_stop s)"
  from window_ok_run [OF assms(2,1)] assms(3) have "\<not> dp_texture ?d"
    by (auto simp: screen_stop_def window_ok_def)
  then have "blank (dp_events ?d) w h f ?d"
    using assms(5-7) by (simp add: blank_def screen_stop_def DestroyWindowAndRenderer_def Let_def act_def)
  with blk.inv_run [OF assms(8)] assms(4) have "blank (dp_events ?d) w h f (sc_display s')" by blast
  then show ?thesis by (simp add: blank_def)
qed

section \<open>A concrete restart\<close>

definition first_ops :: "screen_op list" where
  "first_ops = [ScStart True True [] 7, ScBlock 0 0 1 [0, 0, 1, 9], ScPass [] 5 1]"

definition second_ops :: "screen_op list" where
  "second_ops = [ScStart True True [] 7, ScBlock 0 1 1 [0, 0, 1, 8], ScPass [] 5 1]"

text \<open>A decoder that gives one frame for each packet, all of one size.\<close>

definition plain_codec :: "nat codec_api" where
  "plain_codec =
     \<lparr>avcodec_send_packet = (\<lambda>nalu n. (0, Suc n)),
      avcodec_receive_frame = (\<lambda>n. (if n = 0 then -11 else 0,
        \<lparr>fr_width = 640, fr_height = 480, fr_format = 0\<rparr>, n - 1)),
      packet_alloc = (\<lambda>n. (True, n)), av_new_packet = (\<lambda>k n. (0, n)),
      SDL_CreateTexture = (\<lambda>w h n. (True, n)), SDL_GetError = (\<lambda>n. []),
      eagain = -11, eof = -541478725, invaliddata = -1094995529\<rparr>"

lemma plain_codec_sized: "frames_sized plain_codec 640 480 0"
  by (simp add: frames_sized_def plain_codec_def)

definition plain_screen :: "nat screen" where
  "plain_screen = \<lparr>sc_player = player_init (statistics_init Map.empty),
     sc_display = (display_init 0)\<lparr>dp_sdl := True, dp_codecContext := True, dp_frame := True\<rparr>,
     sc_now = 0, sc_nextTick = 0\<rparr>"

lemma plain_screen_open:
  "screen_open 0 [] \<lparr>ie_decoder_found = True, ie_context = True, ie_frame = True, ie_open2 = 0\<rparr> 0
     (statistics_init Map.empty) = Done plain_screen"
  by (simp add: screen_open_def Player_construct_def InitDecoder_def plain_screen_def Let_def)

text \<open>It decodes a unit to one frame.\<close>

definition plain_frame :: frame where
  "plain_frame = \<lparr>fr_width = 640, fr_height = 480, fr_format = 0\<rparr>"

lemma plain_decode:
  assumes "dp_codec d = 0"
  shows "DecodeAndDisplayNalu plain_codec ni nalu d =
    Some (RenderFrame plain_frame (snd (adapt_texture plain_codec plain_frame
      (act PacketFree (act PacketAlloc d)))))"
proof -
  have [simp]: "x\<lparr>dp_codec := 0\<rparr> = x" if "dp_codec x = 0" for x :: "nat display" using that by simp
  show ?thesis
    using assms
    by (simp add: DecodeAndDisplayNalu_def Let_def plain_codec_def plain_frame_def act_def send_packet.simps
        receive_frames.simps adapt_texture_def RenderFrame_def)
qed

lemma plain_texture: "SDL_CreateTexture plain_codec w h c = (True, c)"
  by (simp add: plain_codec_def)

lemmas plain_eval = screen_start_def CreateWindowAndRenderer_def run_defs to_decode_def pass_defs
  Let_def plain_decode plain_texture plain_frame_def act_def adapt_texture_def RenderFrame_def dlog_def
  display_init_def

text \<open>After the first unit.\<close>

definition plain_mid :: "nat screen" where
  "plain_mid = \<lparr>sc_player = player_run [StartOp True, Arrive 0 0 1 [0, 0, 1, 9], Tick []]
       (player_init (statistics_init Map.empty)),
     sc_display = \<lparr>dp_codec = 0, dp_sdl = True, dp_codecContext = True, dp_frame = True, dp_swsContext = True,
       dp_window = True, dp_renderer = True, dp_texture = True, dp_width = 640, dp_height = 480,
       dp_pixFmt = 0, dp_log = [], dp_events = [PacketAlloc, PacketFree, WindowSized 640 480,
         Rendered True plain_frame]\<rparr>,
     sc_now = 41, sc_nextTick = 40\<rparr>"

lemma plain_first: "screen_run plain_codec 33 100 first_ops plain_screen = Some plain_mid"
  by (simp add: first_ops_def plain_screen_def plain_mid_def plain_eval)

lemma plain_second:
  "\<exists>s'. screen_run plain_codec 33 100 second_ops (screen_stop plain_mid) = Some s' \<and>
     length (dp_events (sc_display s')) = length (dp_events (sc_display (screen_stop plain_mid))) + 3"
  by (simp add: second_ops_def plain_mid_def screen_stop_def Stop_player_def player_simps
      DestroyWindowAndRenderer_def plain_eval)

theorem restarted_player_is_blank_witness:
  "\<exists>s s' evs. screen_run plain_codec 33 100 first_ops plain_screen = Some s \<and>
     screen_run plain_codec 33 100 second_ops (screen_stop s) = Some s' \<and>
     dp_events (sc_display s') = dp_events (sc_display (screen_stop s)) @ evs \<and> length evs = 3 \<and>
     (\<forall>fr. Rendered True fr \<notin> set evs)"
proof -
  have mid: "pl_thread (sc_player plain_mid)" "dp_width (sc_display plain_mid) = 640"
    "dp_height (sc_display plain_mid) = 480" "dp_pixFmt (sc_display plain_mid) = 0"
    by (simp_all add: plain_mid_def run_defs)
  from plain_second obtain s' where
    s': "screen_run plain_codec 33 100 second_ops (screen_stop plain_mid) = Some s'"
    and len: "length (dp_events (sc_display s')) = length (dp_events (sc_display (screen_stop plain_mid))) + 3"
    by blast
  from restarted_player_is_blank [OF plain_screen_open plain_first mid(1) plain_codec_sized mid(2-4) s']
  obtain evs where evs: "dp_events (sc_display s') = dp_events (sc_display (screen_stop plain_mid)) @ evs"
      "\<forall>fr. Rendered True fr \<notin> set evs" by blast
  with len have "length evs = 3" by simp
  with plain_first s' evs show ?thesis by blast
qed

end
