(* ===== verification/Packet.thy ===== *)
theory Packet
  imports Prelude
begin

unbundle bit_operations_syntax

text \<open>
  The wire format of \<open>common/socket/Packet.h\<close>: the packed header, the two packet
  structures, their memory image, and the functions that compose and decompose packets.
  The byte order of the host is a parameter (\<open>endian\<close>), so that the exchange between
  hosts of different byte order is a statement of the model.
\<close>

section \<open>Sizes\<close>

definition blockSize :: nat where
  "blockSize = 1024"

definition fieldSize :: nat where
  "fieldSize = drop_bit 3 blockSize"

text \<open>Offsets in the packed structure: one and one byte, two bytes, three times four bytes.\<close>

definition packetIndexOffset :: nat where "packetIndexOffset = 1"
definition payloadSizeOffset :: nat where "payloadSizeOffset = packetIndexOffset + 1"
definition blockIndexOffset :: nat where "blockIndexOffset = payloadSizeOffset + 2"
definition naluIndexOffset :: nat where "naluIndexOffset = blockIndexOffset + 4"
definition naluSizeOffset :: nat where "naluSizeOffset = naluIndexOffset + 4"
definition headerSize :: nat where "headerSize = naluSizeOffset + 4"
definition payloadOffset :: nat where "payloadOffset = headerSize"

lemma offsets [wire_simps]:
  "blockSize = 1024" "packetIndexOffset = 1" "payloadSizeOffset = 2" "blockIndexOffset = 4"
  "naluIndexOffset = 8" "naluSizeOffset = 12" "headerSize = 16" "payloadOffset = 16"
  by (simp_all add: blockSize_def packetIndexOffset_def payloadSizeOffset_def blockIndexOffset_def
      naluIndexOffset_def naluSizeOffset_def headerSize_def payloadOffset_def)

lemma fieldSize_eq [wire_simps]: "fieldSize = 128"
  by (simp add: fieldSize_def blockSize_def drop_bit_eq_div)

section \<open>Byte order\<close>

datatype endian = LittleEndian | BigEndian

definition le_bytes16 :: "u16 \<Rightarrow> bytes" where
  "le_bytes16 w = [ucast w, ucast (drop_bit 8 w)]"

definition le_bytes32 :: "u32 \<Rightarrow> bytes" where
  "le_bytes32 w = [ucast w, ucast (drop_bit 8 w), ucast (drop_bit 16 w), ucast (drop_bit 24 w)]"

definition of_le16 :: "bytes \<Rightarrow> u16" where
  "of_le16 bs = ucast (bs ! 0) OR push_bit 8 (ucast (bs ! 1))"

definition of_le32 :: "bytes \<Rightarrow> u32" where
  "of_le32 bs = ucast (bs ! 0) OR push_bit 8 (ucast (bs ! 1)) OR
     push_bit 16 (ucast (bs ! 2)) OR push_bit 24 (ucast (bs ! 3))"

text \<open>How an integer lies in the memory of the host, and how it is read back.\<close>

fun store16 :: "endian \<Rightarrow> u16 \<Rightarrow> bytes" where
  "store16 LittleEndian w = le_bytes16 w"
| "store16 BigEndian w = rev (le_bytes16 w)"

fun store32 :: "endian \<Rightarrow> u32 \<Rightarrow> bytes" where
  "store32 LittleEndian w = le_bytes32 w"
| "store32 BigEndian w = rev (le_bytes32 w)"

fun load16 :: "endian \<Rightarrow> bytes \<Rightarrow> u16" where
  "load16 LittleEndian bs = of_le16 bs"
| "load16 BigEndian bs = of_le16 (rev bs)"

fun load32 :: "endian \<Rightarrow> bytes \<Rightarrow> u32" where
  "load32 LittleEndian bs = of_le32 bs"
| "load32 BigEndian bs = of_le32 (rev bs)"

text \<open>\<open>htons\<close> and \<open>htonl\<close> swap the bytes on a little-endian host; \<open>ntoh\<close> is the same map.\<close>

fun htons :: "endian \<Rightarrow> u16 \<Rightarrow> u16" where
  "htons LittleEndian w = of_le16 (rev (le_bytes16 w))"
| "htons BigEndian w = w"

fun htonl :: "endian \<Rightarrow> u32 \<Rightarrow> u32" where
  "htonl LittleEndian w = of_le32 (rev (le_bytes32 w))"
| "htonl BigEndian w = w"

definition ntohs :: "endian \<Rightarrow> u16 \<Rightarrow> u16" where "ntohs = htons"
definition ntohl :: "endian \<Rightarrow> u32 \<Rightarrow> u32" where "ntohl = htonl"

text \<open>Network order, as a specification.\<close>

definition be16 :: "u16 \<Rightarrow> bytes" where "be16 w = rev (le_bytes16 w)"
definition be32 :: "u32 \<Rightarrow> bytes" where "be32 w = rev (le_bytes32 w)"

lemma of_le16_bytes: "of_le16 (le_bytes16 w) = w"
  by (rule bit_word_eqI)
    (auto simp: of_le16_def le_bytes16_def bit_simps)

lemma of_le32_bytes: "of_le32 (le_bytes32 w) = w"
proof (rule bit_word_eqI)
  fix n
  assume "n < LENGTH(32)"
  then consider "n < 8" | "8 \<le> n" "n < 16" | "16 \<le> n" "n < 24" | "24 \<le> n" "n < 32"
    by fastforce
  then show "bit (of_le32 (le_bytes32 w)) n = bit w n"
    by cases (auto simp: of_le32_def le_bytes32_def bit_simps)
qed

text \<open>A byte has no bit above the seventh, whichever position it was moved to.\<close>

lemma byte_bit_high [simp]: "\<not> bit (b :: byte) (n + 8)" "\<not> bit (b :: byte) (n + 16)"
    "\<not> bit (b :: byte) (n + 24)"
    "\<not> bit (b :: byte) (8 + n)" "\<not> bit (b :: byte) (16 + n)" "\<not> bit (b :: byte) (24 + n)"
  by (auto dest: bit_imp_le_length)

lemma le_bytes16_of: "length bs = 2 \<Longrightarrow> le_bytes16 (of_le16 bs) = bs"
proof -
  assume "length bs = 2"
  then obtain a b where bs: "bs = [a, b]"
    by (auto simp: length_Suc_conv numeral_2_eq_2)
  have "ucast (of_le16 bs) = a"
    by (rule bit_word_eqI) (auto simp: bs of_le16_def bit_simps)
  moreover have "ucast (drop_bit 8 (of_le16 bs)) = b"
    by (rule bit_word_eqI) (auto simp: bs of_le16_def bit_simps)
  ultimately show ?thesis by (simp add: le_bytes16_def bs)
qed

lemma le_bytes32_of: "length bs = 4 \<Longrightarrow> le_bytes32 (of_le32 bs) = bs"
proof -
  assume "length bs = 4"
  then obtain a b c d where bs: "bs = [a, b, c, d]"
    by (auto simp: length_Suc_conv numeral_eq_Suc)
  have "ucast (of_le32 bs) = a"
    by (rule bit_word_eqI) (auto simp: bs of_le32_def bit_simps)
  moreover have "ucast (drop_bit 8 (of_le32 bs)) = b"
    by (rule bit_word_eqI) (auto simp: bs of_le32_def bit_simps)
  moreover have "ucast (drop_bit 16 (of_le32 bs)) = c"
    by (rule bit_word_eqI) (auto simp: bs of_le32_def bit_simps)
  moreover have "ucast (drop_bit 24 (of_le32 bs)) = d"
    by (rule bit_word_eqI) (auto simp: bs of_le32_def bit_simps)
  ultimately show ?thesis by (simp add: le_bytes32_def bs)
qed

lemma length_le_bytes [simp]: "length (le_bytes16 w) = 2" "length (le_bytes32 v) = 4"
  by (simp_all add: le_bytes16_def le_bytes32_def)

lemma length_store [simp]: "length (store16 e w) = 2" "length (store32 e v) = 4"
  by (cases e; simp)+

lemma length_be [simp]: "length (be16 w) = 2" "length (be32 v) = 4"
  by (simp_all add: be16_def be32_def)

text \<open>What is sent is network order, whatever the host.\<close>

lemma store_htons [wire_simps]: "store16 e (htons e w) = be16 w"
  by (cases e) (simp_all add: be16_def le_bytes16_of)

lemma store_htonl [wire_simps]: "store32 e (htonl e w) = be32 w"
  by (cases e) (simp_all add: be32_def le_bytes32_of)

lemma ntohs_load [wire_simps]: "ntohs e (load16 e (be16 w)) = w"
  by (cases e) (simp_all add: ntohs_def be16_def of_le16_bytes le_bytes16_of)

lemma ntohl_load [wire_simps]: "ntohl e (load32 e (be32 w)) = w"
  by (cases e) (simp_all add: ntohl_def be32_def of_le32_bytes le_bytes32_of)

section \<open>Packets\<close>

record header_t =
  h_encodeMode :: u8
  h_packetIndex :: u8
  h_payloadSize :: u16
  h_blockIndex :: u32
  h_naluIndex :: u32
  h_naluSize :: u32

record rs_packet_t =
  rs_header :: header_t
  rs_payload :: bytes

record packet_t =
  p_header :: header_t
  p_payload :: bytes

text \<open>\<open>std::variant<rs_packet_t, packet_t>\<close>.\<close>

datatype received = RsPacket rs_packet_t | RawPacket packet_t

text \<open>The bytes of the packed structures in the memory of the host, which \<open>send\<close> transmits.\<close>

definition header_image :: "endian \<Rightarrow> header_t \<Rightarrow> bytes" where
  "header_image e h =
     [h_encodeMode h, h_packetIndex h] @ store16 e (h_payloadSize h) @
     store32 e (h_blockIndex h) @ store32 e (h_naluIndex h) @ store32 e (h_naluSize h)"

definition packet_image :: "endian \<Rightarrow> packet_t \<Rightarrow> bytes" where
  "packet_image e p = header_image e (p_header p) @ p_payload p"

definition rs_packet_image :: "endian \<Rightarrow> rs_packet_t \<Rightarrow> bytes" where
  "rs_packet_image e p = header_image e (rs_header p) @ rs_payload p"

lemma length_header_image [simp]: "length (header_image e h) = headerSize"
  by (simp add: header_image_def wire_simps)

text \<open>\<open>memcpy\<close> into an array: defined only when the source has the bytes.\<close>

definition memcpy :: "bytes \<Rightarrow> bytes \<Rightarrow> nat \<Rightarrow> bytes access" where
  "memcpy dst src n = (if n \<le> length src then Ok (take n src @ drop n dst) else OutOfBounds)"

section \<open>Composition\<close>

text \<open>A null pointer is \<open>None\<close>, a null optional is \<open>Ok None\<close>.\<close>

definition composePacket :: "endian \<Rightarrow> u32 \<Rightarrow> u32 \<Rightarrow> u32 \<Rightarrow> bytes option \<Rightarrow> u16 \<Rightarrow>
    packet_t option access" where
  "composePacket e blockIndex naluIndex naluSize payloadBuffer payloadLength =
     (case payloadBuffer of
        None \<Rightarrow> Ok None
      | Some src \<Rightarrow>
          if blockSize < unat payloadLength then Ok None
          else (case memcpy (replicate blockSize 0) src (unat payloadLength) of
                  OutOfBounds \<Rightarrow> OutOfBounds
                | Ok pl \<Rightarrow> Ok (Some
                    \<lparr>p_header = \<lparr>h_encodeMode = 0, h_packetIndex = 0,
                       h_payloadSize = htons e payloadLength,
                       h_blockIndex = htonl e blockIndex,
                       h_naluIndex = htonl e naluIndex,
                       h_naluSize = htonl e naluSize\<rparr>,
                     p_payload = pl\<rparr>)))"

text \<open>The guard compares \<open>payloadLength\<close>, the copy always takes \<open>fieldSize\<close> bytes.\<close>

definition composeRsPacket :: "endian \<Rightarrow> u32 \<Rightarrow> u8 \<Rightarrow> u16 \<Rightarrow> u32 \<Rightarrow> u32 \<Rightarrow> bytes option \<Rightarrow> u16 \<Rightarrow>
    rs_packet_t option access" where
  "composeRsPacket e blockIndex packetIndex blockLength naluIndex naluSize payloadBuffer
      payloadLength =
     (case payloadBuffer of
        None \<Rightarrow> Ok None
      | Some src \<Rightarrow>
          if fieldSize < unat payloadLength then Ok None
          else (case memcpy (replicate fieldSize 0) src fieldSize of
                  OutOfBounds \<Rightarrow> OutOfBounds
                | Ok pl \<Rightarrow> Ok (Some
                    \<lparr>rs_header = \<lparr>h_encodeMode = 1, h_packetIndex = packetIndex,
                       h_payloadSize = htons e blockLength,
                       h_blockIndex = htonl e blockIndex,
                       h_naluIndex = htonl e naluIndex,
                       h_naluSize = htonl e naluSize\<rparr>,
                     rs_payload = pl\<rparr>)))"

section \<open>Decomposition\<close>

definition get16 :: "endian \<Rightarrow> bytes \<Rightarrow> nat \<Rightarrow> u16" where
  "get16 e src off = ntohs e (load16 e (take 2 (drop off src)))"

definition get32 :: "endian \<Rightarrow> bytes \<Rightarrow> nat \<Rightarrow> u32" where
  "get32 e src off = ntohl e (load32 e (take 4 (drop off src)))"

definition read_header :: "endian \<Rightarrow> bytes \<Rightarrow> header_t" where
  "read_header e src =
     \<lparr>h_encodeMode = src ! 0, h_packetIndex = src ! packetIndexOffset,
      h_payloadSize = get16 e src payloadSizeOffset,
      h_blockIndex = get32 e src blockIndexOffset,
      h_naluIndex = get32 e src naluIndexOffset,
      h_naluSize = get32 e src naluSizeOffset\<rparr>"

text \<open>
  The tests and reads in the order of the code: the mode byte, the length test of the mode,
  the payload size (tested in mode 0 only), the rest of the header, the payload.
\<close>

definition decomposePacket :: "endian \<Rightarrow> bytes option \<Rightarrow> u16 \<Rightarrow> received option access" where
  "decomposePacket e payloadBuffer payloadLength =
     (case payloadBuffer of
        None \<Rightarrow> Ok None
      | Some src \<Rightarrow>
          if unat payloadLength < headerSize then Ok None
          else if src = [] then OutOfBounds
          else if src ! 0 = 0 then
            (if blockSize < unat payloadLength - payloadOffset then Ok None
             else if length src < payloadSizeOffset + 2 then OutOfBounds
             else if blockSize < unat (get16 e src payloadSizeOffset) then Ok None
             else if length src < headerSize then OutOfBounds
             else (case memcpy (replicate blockSize 0) (drop payloadOffset src)
                          (unat payloadLength - payloadOffset) of
                     OutOfBounds \<Rightarrow> OutOfBounds
                   | Ok pl \<Rightarrow> Ok (Some (RawPacket \<lparr>p_header = read_header e src, p_payload = pl\<rparr>))))
          else if src ! 0 = 1 then
            (if fieldSize < unat payloadLength - headerSize \<or> unat payloadLength < headerSize
             then Ok None
             else if length src < headerSize then OutOfBounds
             else (case memcpy (replicate fieldSize 0) (drop headerSize src)
                          (unat payloadLength - headerSize) of
                     OutOfBounds \<Rightarrow> OutOfBounds
                   | Ok pl \<Rightarrow> Ok (Some (RsPacket \<lparr>rs_header = read_header e src, rs_payload = pl\<rparr>))))
          else Ok None)"

end
