(* ===== verification/Packet_Facts.thy ===== *)
theory Packet_Facts
  imports Packet
begin

text \<open>
  The laws of the wire format: what a composed packet is on the wire, that decomposing it
  on any host returns what was composed, which inputs are rejected, and that no byte
  outside the datagram is read. The round trip is a locale (\<open>wire_codec\<close>) interpreted for
  both packet kinds.
\<close>

section \<open>Composed packets on the wire\<close>

lemma composePacket_image:
  assumes "unat len \<le> blockSize" and "unat len \<le> length src"
  shows "\<exists>p. composePacket e bi ni ns (Some src) len = Ok (Some p) \<and>
    packet_image e p = [0, 0] @ be16 len @ be32 bi @ be32 ni @ be32 ns @
      take (unat len) src @ replicate (blockSize - unat len) 0"
  using assms
  by (simp add: composePacket_def memcpy_def packet_image_def header_image_def
      store_htons store_htonl)

lemma composeRsPacket_image:
  assumes "unat len \<le> fieldSize" and "fieldSize \<le> length src"
  shows "\<exists>p. composeRsPacket e bi pi bl ni ns (Some src) len = Ok (Some p) \<and>
    rs_packet_image e p = [1, pi] @ be16 bl @ be32 bi @ be32 ni @ be32 ns @ take fieldSize src"
  using assms
  by (simp add: composeRsPacket_def memcpy_def rs_packet_image_def header_image_def
      store_htons store_htonl)

text \<open>
  A composed packet has the same bytes on every host: the mode, the packet index, the
  sizes and indices in network byte order, and the payload filled with zeros to a block;
  it is rejected exactly when the payload is longer than a block or the pointer is null.
\<close>

theorem composePacket_wire:
  assumes "\<forall>src. buf = Some src \<longrightarrow> unat len \<le> length src"
  shows "(case composePacket e bi ni ns buf len of
      OutOfBounds \<Rightarrow> False
    | Ok None \<Rightarrow> buf = None \<or> blockSize < unat len
    | Ok (Some p) \<Rightarrow> buf \<noteq> None \<and> unat len \<le> blockSize \<and>
        packet_image e p = [0, 0] @ be16 len @ be32 bi @ be32 ni @ be32 ns @
          take (unat len) (the buf) @ replicate (blockSize - unat len) 0)"
proof (cases "buf = None \<or> blockSize < unat len")
  case True
  then show ?thesis by (auto simp: composePacket_def split: option.split)
next
  case False
  then obtain src where src: "buf = Some src" and le: "unat len \<le> blockSize" by auto
  from composePacket_image [OF le, of src e bi ni ns] assms src le show ?thesis by auto
qed

theorem composePacket_wire_witness:
  "(case composePacket LittleEndian 1 2 3 (Some [7, 8]) 2 of
      OutOfBounds \<Rightarrow> False
    | Ok None \<Rightarrow> Some [7, 8 :: byte] = None \<or> blockSize < unat (2 :: u16)
    | Ok (Some p) \<Rightarrow> Some [7, 8 :: byte] \<noteq> None \<and> unat (2 :: u16) \<le> blockSize \<and>
        packet_image LittleEndian p = [0, 0] @ be16 2 @ be32 1 @ be32 2 @ be32 3 @
          take (unat (2 :: u16)) (the (Some [7, 8])) @ replicate (blockSize - unat (2 :: u16)) 0)"
  by (rule composePacket_wire) simp

text \<open>
  The Reed-Solomon variant reads 128 bytes whatever length it is told: with a buffer
  shorter than that it reads past its end, although the length passes the guard.
\<close>

theorem composeRsPacket_overread:
  "composeRsPacket e bi pi bl ni ns (Some src) len = OutOfBounds \<longleftrightarrow>
     unat len \<le> fieldSize \<and> length src < fieldSize"
  by (auto simp: composeRsPacket_def memcpy_def)

section \<open>Reading a header back\<close>

lemma read_header_wire:
  assumes "src = [m, pi] @ be16 ps @ be32 bi @ be32 ni @ be32 ns @ rest"
  shows "read_header e src = \<lparr>h_encodeMode = m, h_packetIndex = pi, h_payloadSize = ps,
      h_blockIndex = bi, h_naluIndex = ni, h_naluSize = ns\<rparr>"
    and "get16 e src payloadSizeOffset = ps"
    and "drop headerSize src = rest"
    and "src ! 0 = m"
    and "length src = headerSize + length rest"
proof -
  have bi: "take 4 (drop 4 src) = be32 bi" and ni: "take 4 (drop 8 src) = be32 ni"
    and ns: "take 4 (drop 12 src) = be32 ns" and ps: "take 2 (drop 2 src) = be16 ps"
    by (simp_all add: assms)
  show "get16 e src payloadSizeOffset = ps"
    by (simp add: get16_def wire_simps ps ntohs_load del: take_append drop_append)
  then show "read_header e src = \<lparr>h_encodeMode = m, h_packetIndex = pi, h_payloadSize = ps,
      h_blockIndex = bi, h_naluIndex = ni, h_naluSize = ns\<rparr>"
    by (simp add: read_header_def get32_def wire_simps bi ni ns ntohl_load) (simp add: assms)
  show "drop headerSize src = rest" and "src ! 0 = m" and "length src = headerSize + length rest"
    by (simp_all add: assms wire_simps)
qed

section \<open>The round trip\<close>

text \<open>What the receiver hands on: a datagram with its length, as \<open>recv\<close> gives it.\<close>

definition decode_datagram :: "endian \<Rightarrow> bytes \<Rightarrow> received option" where
  "decode_datagram e d =
     (case decomposePacket e (Some d) (of_nat (length d)) of OutOfBounds \<Rightarrow> None | Ok r \<Rightarrow> r)"

locale wire_codec =
  fixes enc :: "'m \<Rightarrow> bytes"
    and dec :: "bytes \<Rightarrow> 'r option"
    and view :: "'m \<Rightarrow> 'r"
    and valid :: "'m \<Rightarrow> bool"
    and width :: nat
  assumes dec_enc: "valid m \<Longrightarrow> dec (enc m) = Some (view m)"
    and length_enc: "valid m \<Longrightarrow> length (enc m) = width"
begin

lemma dec_map_enc: "list_all valid ms \<Longrightarrow> map (dec \<circ> enc) ms = map (Some \<circ> view) ms"
  by (induction ms) (simp_all add: dec_enc)

lemma view_eqI: "valid a \<Longrightarrow> valid b \<Longrightarrow> enc a = enc b \<Longrightarrow> view a = view b"
  using dec_enc by (metis option.inject)

end

text \<open>A codec whose view loses nothing has an injective encoding.\<close>

locale faithful_codec = wire_codec +
  assumes view_inj: "valid a \<Longrightarrow> valid b \<Longrightarrow> view a = view b \<Longrightarrow> a = b"
begin

lemma enc_inj: "valid a \<Longrightarrow> valid b \<Longrightarrow> enc a = enc b \<Longrightarrow> a = b"
  using view_eqI view_inj by blast

end

text \<open>A message of each kind is the argument list of its composer.\<close>

type_synonym raw_msg = "u32 \<times> u32 \<times> u32 \<times> bytes"
type_synonym rs_msg = "u32 \<times> u8 \<times> u16 \<times> u32 \<times> u32 \<times> bytes"

fun raw_valid :: "raw_msg \<Rightarrow> bool" where
  "raw_valid (bi, ni, ns, d) \<longleftrightarrow> length d \<le> blockSize"

fun raw_encode :: "endian \<Rightarrow> raw_msg \<Rightarrow> bytes" where
  "raw_encode e (bi, ni, ns, d) =
     (case composePacket e bi ni ns (Some d) (of_nat (length d)) of
        Ok (Some p) \<Rightarrow> packet_image e p | _ \<Rightarrow> [])"

fun raw_view :: "raw_msg \<Rightarrow> received" where
  "raw_view (bi, ni, ns, d) = RawPacket
     \<lparr>p_header = \<lparr>h_encodeMode = 0, h_packetIndex = 0, h_payloadSize = of_nat (length d),
        h_blockIndex = bi, h_naluIndex = ni, h_naluSize = ns\<rparr>,
      p_payload = d @ replicate (blockSize - length d) 0\<rparr>"

fun rs_valid :: "rs_msg \<Rightarrow> bool" where
  "rs_valid (bi, pi, bl, ni, ns, d) \<longleftrightarrow> length d = fieldSize"

fun rs_encode :: "endian \<Rightarrow> rs_msg \<Rightarrow> bytes" where
  "rs_encode e (bi, pi, bl, ni, ns, d) =
     (case composeRsPacket e bi pi bl ni ns (Some d) (of_nat (length d)) of
        Ok (Some p) \<Rightarrow> rs_packet_image e p | _ \<Rightarrow> [])"

fun rs_view :: "rs_msg \<Rightarrow> received" where
  "rs_view (bi, pi, bl, ni, ns, d) = RsPacket
     \<lparr>rs_header = \<lparr>h_encodeMode = 1, h_packetIndex = pi, h_payloadSize = bl,
        h_blockIndex = bi, h_naluIndex = ni, h_naluSize = ns\<rparr>,
      rs_payload = d\<rparr>"

lemma unat_len16 [simp]: "n \<le> 2000 \<Longrightarrow> unat (of_nat n :: u16) = n"
  by (simp add: unat_of_nat)

lemma raw_encode_eq:
  assumes "raw_valid (bi, ni, ns, d)"
  shows "raw_encode e (bi, ni, ns, d) =
    [0, 0] @ be16 (of_nat (length d)) @ be32 bi @ be32 ni @ be32 ns @
      d @ replicate (blockSize - length d) 0"
proof -
  from assms have len: "unat (of_nat (length d) :: u16) = length d" by (simp add: wire_simps)
  with assms have "unat (of_nat (length d) :: u16) \<le> blockSize" by simp
  from composePacket_image [OF this, of d e bi ni ns] len show ?thesis by auto
qed

lemma rs_encode_eq:
  assumes "rs_valid (bi, pi, bl, ni, ns, d)"
  shows "rs_encode e (bi, pi, bl, ni, ns, d) =
    [1, pi] @ be16 bl @ be32 bi @ be32 ni @ be32 ns @ d"
proof -
  from assms have len: "unat (of_nat (length d) :: u16) = fieldSize" by (simp add: wire_simps)
  then have "unat (of_nat (length d) :: u16) \<le> fieldSize" by simp
  from composeRsPacket_image [OF this, of d e bi pi bl ni ns] len assms show ?thesis by auto
qed

lemma raw_decode:
  assumes "raw_valid (bi, ni, ns, d)"
  shows "decode_datagram e (raw_encode e' (bi, ni, ns, d)) = Some (raw_view (bi, ni, ns, d))"
proof -
  define rest where "rest = d @ replicate (blockSize - length d) 0"
  define src where "src = [0, 0] @ be16 (of_nat (length d)) @ be32 bi @ be32 ni @ be32 ns @ rest"
  note h = read_header_wire [OF src_def]
  from assms have rest: "length rest = 1024" by (simp add: rest_def wire_simps)
  have len: "length src = 1040" using h(5) rest by (simp add: wire_simps)
  then have ne: "src \<noteq> []" by auto
  have d: "unat (of_nat (length d) :: u16) = length d" using assms by (simp add: wire_simps)
  have ps: "get16 e src 2 = of_nat (length d)" using h(2) by (simp add: offsets)
  have "decomposePacket e (Some src) (of_nat (length src)) = Ok (Some (raw_view (bi, ni, ns, d)))"
    using h(3) rest len ne d assms
    by (simp add: decomposePacket_def h(1,4) ps memcpy_def wire_simps) (simp add: rest_def)
  then show ?thesis
    by (simp only: decode_datagram_def raw_encode_eq [OF assms] access.case src_def rest_def)
qed

lemma rs_decode:
  assumes "rs_valid (bi, pi, bl, ni, ns, d)"
  shows "decode_datagram e (rs_encode e' (bi, pi, bl, ni, ns, d)) =
    Some (rs_view (bi, pi, bl, ni, ns, d))"
proof -
  define src where "src = [1, pi] @ be16 bl @ be32 bi @ be32 ni @ be32 ns @ d"
  note h = read_header_wire [OF src_def]
  from assms have d: "length d = 128" by (simp add: wire_simps)
  have len: "length src = 144" using h(5) d by (simp add: wire_simps)
  then have ne: "src \<noteq> []" by auto
  have "decomposePacket e (Some src) (of_nat (length src)) =
      Ok (Some (rs_view (bi, pi, bl, ni, ns, d)))"
    using h(3) len ne d by (simp add: decomposePacket_def h(1,2,4) memcpy_def wire_simps)
  then show ?thesis
    by (simp only: decode_datagram_def rs_encode_eq [OF assms] access.case src_def)
qed

lemma raw_encode_length:
  assumes "raw_valid (bi, ni, ns, d)"
  shows "length (raw_encode e (bi, ni, ns, d)) = headerSize + blockSize"
  unfolding raw_encode_eq [OF assms] using assms by (simp add: wire_simps)

lemma rs_encode_length:
  assumes "rs_valid (bi, pi, bl, ni, ns, d)"
  shows "length (rs_encode e (bi, pi, bl, ni, ns, d)) = headerSize + fieldSize"
  unfolding rs_encode_eq [OF assms] using assms by (simp add: wire_simps)

lemma raw_view_inj: "raw_valid a \<Longrightarrow> raw_valid b \<Longrightarrow> raw_view a = raw_view b \<Longrightarrow> a = b"
proof -
  assume a: "raw_valid a" and b: "raw_valid b" and eq: "raw_view a = raw_view b"
  obtain bi ni ns d where A: "a = (bi, ni, ns, d)" by (cases a)
  obtain bi' ni' ns' d' where B: "b = (bi', ni', ns', d')" by (cases b)
  from a b A B have "length d \<le> 2000" and "length d' \<le> 2000" by (simp_all add: wire_simps)
  moreover from eq have "(of_nat (length d) :: u16) = of_nat (length d')" by (simp add: A B)
  ultimately have "length d = length d'" by (metis unat_len16)
  with eq show ?thesis by (simp add: A B)
qed

lemma rs_view_inj: "rs_view a = rs_view b \<Longrightarrow> a = b"
  by (cases a; cases b) auto

text \<open>Any sender \<open>e'\<close> to any receiver \<open>e\<close>.\<close>

interpretation raw: faithful_codec "raw_encode e'" "decode_datagram e" raw_view raw_valid
    "headerSize + blockSize"
proof
  fix m a b :: raw_msg
  show "decode_datagram e (raw_encode e' m) = Some (raw_view m)" if "raw_valid m"
    using that by (cases m) (simp only: raw_decode)
  show "length (raw_encode e' m) = headerSize + blockSize" if "raw_valid m"
    using that by (cases m) (simp only: raw_encode_length)
  show "a = b" if "raw_valid a" and "raw_valid b" and "raw_view a = raw_view b"
    using that by (rule raw_view_inj)
qed

interpretation rs: faithful_codec "rs_encode e'" "decode_datagram e" rs_view rs_valid
    "headerSize + fieldSize"
proof
  fix m a b :: rs_msg
  show "decode_datagram e (rs_encode e' m) = Some (rs_view m)" if "rs_valid m"
    using that by (cases m) (simp only: rs_decode)
  show "length (rs_encode e' m) = headerSize + fieldSize" if "rs_valid m"
    using that by (cases m) (simp only: rs_encode_length)
  show "a = b" if "rs_view a = rs_view b"
    using that by (rule rs_view_inj)
qed

text \<open>
  C11: A block of at most 1024 bytes composed on one host and decomposed on another, of
  whatever byte order, arrives with its indices, its size and its bytes, padded with zeros.
\<close>

theorem raw_roundtrip:
  assumes "length d \<le> blockSize"
  shows "decode_datagram e (raw_encode e' (bi, ni, ns, d)) = Some (RawPacket
     \<lparr>p_header = \<lparr>h_encodeMode = 0, h_packetIndex = 0, h_payloadSize = of_nat (length d),
        h_blockIndex = bi, h_naluIndex = ni, h_naluSize = ns\<rparr>,
      p_payload = d @ replicate (blockSize - length d) 0\<rparr>)"
  using raw.dec_enc [of "(bi, ni, ns, d)" e e'] assms by simp

theorem raw_roundtrip_witness:
  "decode_datagram BigEndian (raw_encode LittleEndian (5, 6, 7, [1, 2, 3])) = Some (RawPacket
     \<lparr>p_header = \<lparr>h_encodeMode = 0, h_packetIndex = 0, h_payloadSize = 3,
        h_blockIndex = 5, h_naluIndex = 6, h_naluSize = 7\<rparr>,
      p_payload = [1, 2, 3] @ replicate 1021 0\<rparr>)"
  by (subst raw_roundtrip) (simp_all add: wire_simps)

text \<open>
  C12: A Reed-Solomon field of 128 bytes arrives with its packet index, the length of its
  block, its indices and its bytes, whatever the byte orders of the two hosts.
\<close>

theorem rs_roundtrip:
  assumes "length d = fieldSize"
  shows "decode_datagram e (rs_encode e' (bi, pi, bl, ni, ns, d)) = Some (RsPacket
     \<lparr>rs_header = \<lparr>h_encodeMode = 1, h_packetIndex = pi, h_payloadSize = bl,
        h_blockIndex = bi, h_naluIndex = ni, h_naluSize = ns\<rparr>,
      rs_payload = d\<rparr>)"
  using rs.dec_enc [of "(bi, pi, bl, ni, ns, d)" e e'] assms by simp

theorem rs_roundtrip_witness:
  "decode_datagram BigEndian (rs_encode LittleEndian (5, 4, 1024, 6, 7, replicate 128 9)) =
   Some (RsPacket
     \<lparr>rs_header = \<lparr>h_encodeMode = 1, h_packetIndex = 4, h_payloadSize = 1024,
        h_blockIndex = 5, h_naluIndex = 6, h_naluSize = 7\<rparr>,
      rs_payload = replicate 128 9\<rparr>)"
  by (rule rs_roundtrip) (simp add: wire_simps)

section \<open>What decomposition accepts\<close>

text \<open>The structures the server receives: the arrays have their full length.\<close>

fun received_ok :: "received \<Rightarrow> bool" where
  "received_ok (RawPacket p) \<longleftrightarrow>
     length (p_payload p) = blockSize \<and> unat (h_payloadSize (p_header p)) \<le> blockSize"
| "received_ok (RsPacket p) \<longleftrightarrow> length (rs_payload p) = fieldSize"

lemma decompose_in_bounds:
  "unat len \<le> length src \<Longrightarrow> decomposePacket e (Some src) len \<noteq> OutOfBounds"
  by (auto simp: decomposePacket_def memcpy_def wire_simps split: access.splits if_splits)

lemma decompose_None:
  assumes "unat len \<le> length src"
  shows "decomposePacket e (Some src) len = Ok None \<longleftrightarrow>
    unat len < headerSize \<or> src ! 0 \<notin> {0, 1} \<or>
    (src ! 0 = 0 \<and> (headerSize + blockSize < unat len \<or>
       blockSize < unat (get16 e src payloadSizeOffset))) \<or>
    (src ! 0 = 1 \<and> headerSize + fieldSize < unat len)"
  using assms
  by (auto simp: decomposePacket_def memcpy_def wire_simps split: access.splits if_splits)

lemma decompose_ok:
  "decomposePacket e buf len = Ok (Some r) \<Longrightarrow> received_ok r"
  by (auto simp: decomposePacket_def memcpy_def read_header_def wire_simps
      split: access.splits if_splits option.splits)

text \<open>
  C25: Given a buffer that holds the announced bytes, decomposition reads nothing outside it
  and rejects exactly a short datagram, an unknown mode, an over-long payload, and in mode 0
  a size field above the block size.
\<close>

theorem decompose_rejects:
  assumes "unat len \<le> length src"
  shows "decomposePacket e (Some src) len \<noteq> OutOfBounds \<and>
    (decomposePacket e (Some src) len = Ok None \<longleftrightarrow>
      unat len < headerSize \<or> src ! 0 \<notin> {0, 1} \<or>
      (src ! 0 = 0 \<and> (headerSize + blockSize < unat len \<or>
         blockSize < unat (get16 e src payloadSizeOffset))) \<or>
      (src ! 0 = 1 \<and> headerSize + fieldSize < unat len))"
  using decompose_in_bounds [OF assms] decompose_None [OF assms] by blast

theorem decompose_rejects_witness:
  "decomposePacket BigEndian (Some (replicate 16 2)) 16 = Ok None"
proof -
  have "unat (16 :: u16) \<le> length (replicate 16 (2 :: byte))" by simp
  from decompose_rejects [OF this, of BigEndian] show ?thesis by simp
qed

text \<open>
  C26: A packet that decomposition accepts has payload arrays of the full length, and in
  mode 0 a size field within the block, so that the server's copy of
  \<open>payload .. payload + payloadSize\<close> stays inside the array.
\<close>

theorem decompose_wellformed:
  assumes "decomposePacket e buf len = Ok (Some r)"
  shows "case r of
      RawPacket p \<Rightarrow> length (p_payload p) = 1024 \<and>
        unat (h_payloadSize (p_header p)) \<le> length (p_payload p)
    | RsPacket p \<Rightarrow> length (rs_payload p) = 128"
  using decompose_ok [OF assms] by (cases r) (simp_all add: wire_simps)

theorem decompose_wellformed_witness:
  "\<exists>r. decomposePacket BigEndian (Some (1 # replicate 15 0)) 16 = Ok (Some r) \<and>
     (case r of
        RawPacket p \<Rightarrow> length (p_payload p) = 1024 \<and>
          unat (h_payloadSize (p_header p)) \<le> length (p_payload p)
      | RsPacket p \<Rightarrow> length (rs_payload p) = 128)"
proof -
  have "unat (16 :: u16) \<le> length (1 # replicate 15 (0 :: byte))" by simp
  then obtain r where "decomposePacket BigEndian (Some (1 # replicate 15 0)) 16 = Ok (Some r)"
    using decompose_in_bounds [of 16 "1 # replicate 15 0" BigEndian]
      decompose_None [of 16 "1 # replicate 15 0" BigEndian]
    by (cases "decomposePacket BigEndian (Some (1 # replicate 15 0)) 16")
      (auto simp: wire_simps)
  with decompose_wellformed show ?thesis by blast
qed

text \<open>Bytes beyond the announced length play no role, so the rest of the receive buffer may
  hold anything.\<close>

lemma decompose_prefix:
  assumes "unat len \<le> length src"
  shows "decomposePacket e (Some (take (unat len) src @ junk)) len = decomposePacket e (Some src) len"
proof (cases "unat len < headerSize")
  case True
  then show ?thesis by (simp add: decomposePacket_def)
next
  case False
  let ?t = "take (unat len) src @ junk"
  from False assms have le: "16 \<le> unat len" "16 \<le> length src" "16 \<le> length ?t"
    by (simp_all add: wire_simps)
  then have ne: "src \<noteq> []" "?t \<noteq> []" by auto
  have nth: "?t ! i = src ! i" if "i < 16" for i
    using that le(1) assms by (simp add: nth_append)
  have sub: "take n (drop off ?t) = take n (drop off src)" if "off + n \<le> unat len" for off n
  proof -
    have "take n (drop off (take (unat len) src)) = take n (drop off src)"
      using that by (simp add: drop_take min_def)
    moreover have "n - (unat len - off) = 0" and "off - unat len = 0" using that by auto
    ultimately show ?thesis using assms by simp
  qed
  have hdr: "read_header e ?t = read_header e src"
      "get16 e ?t payloadSizeOffset = get16 e src payloadSizeOffset"
    using le(1) by (simp_all add: read_header_def get16_def get32_def wire_simps sub nth
        del: take_append drop_append)
  have pl: "memcpy dst (drop 16 ?t) (unat len - 16) = memcpy dst (drop 16 src) (unat len - 16)"
    for dst
    using le(1) assms sub [of 16 "unat len - 16"] by (auto simp: memcpy_def simp del: take_append drop_append)
  from nth [of 0] have "?t ! 0 = src ! 0" by simp
  with le ne hdr pl show ?thesis
    by (simp add: decomposePacket_def wire_simps cong del: access.case_cong_weak
        del: take_append drop_append append_is_Nil_conv)
qed

end
