(* ===== verification/Socket.thy ===== *)
theory Socket
  imports Packet_Facts Logger
begin

text \<open>
  The UDP socket of \<open>common/socket/Interface.h\<close>. The system calls are parameters: their
  results are arguments of the operations. \<open>ssize_t\<close> and \<open>size_t\<close> are the same 64-bit
  words, read with or without a sign, as in the comparisons of the code.
\<close>

section \<open>State and construction\<close>

record sockaddr_in =
  sin_family :: nat
  sin_port :: u16
  sin_addr :: u32

record socket_if =
  sk_udpSocket :: int
  sk_ownAddress :: sockaddr_in
  sk_sendAddress :: sockaddr_in
  sk_closed :: bool

definition AF_INET :: nat where "AF_INET = 2"
definition INADDR_ANY :: u32 where "INADDR_ANY = 0"
definition EAGAIN :: int where "EAGAIN = 11"

definition zero_addr :: sockaddr_in where
  "zero_addr = \<lparr>sin_family = 0, sin_port = 0, sin_addr = 0\<rparr>"

text \<open>The results the system calls of the constructors give.\<close>

record sys_env =
  sys_socket :: int
  sys_inet_pton :: "string \<Rightarrow> int \<times> u32"
  sys_bind :: int
  sys_connect :: int
  sys_setsockopt :: "int \<Rightarrow> int"

definition sock_fail :: "string \<Rightarrow> log_call list \<Rightarrow> socket_if \<Rightarrow> socket_if outcome \<times> log_call list" where
  "sock_fail msg logs sk = (Exited (sk\<lparr>sk_closed := True\<rparr>), logs @ [LogCall Error msg []])"

definition fresh_socket :: "sys_env \<Rightarrow> socket_if \<times> log_call list" where
  "fresh_socket env =
     (\<lparr>sk_udpSocket = sys_socket env, sk_ownAddress = zero_addr, sk_sendAddress = zero_addr,
       sk_closed = False\<rparr>,
      if sys_socket env < 0 then [LogCall Error ''Failed to create a udp socket'' []] else [])"

definition ClientSocket :: "endian \<Rightarrow> sys_env \<Rightarrow> string \<Rightarrow> u16 \<Rightarrow> u16 \<Rightarrow>
    socket_if outcome \<times> log_call list" where
  "ClientSocket e env sendAddress sendPort ownPort =
     (let (sk, logs) = fresh_socket env;
          (ok, addr) = sys_inet_pton env sendAddress;
          sk1 = sk\<lparr>sk_sendAddress := \<lparr>sin_family = AF_INET, sin_port = htons e sendPort,
                     sin_addr = (if ok \<le> 0 then 0 else addr)\<rparr>\<rparr>
      in if ok \<le> 0
         then sock_fail ''Mandatory configuration parameter <ip> in section <general> is a non valid IP address'' logs sk1
         else let sk2 = sk1\<lparr>sk_ownAddress := \<lparr>sin_family = AF_INET, sin_port = htons e ownPort,
                              sin_addr = INADDR_ANY\<rparr>\<rparr>
           in if sys_bind env < 0
              then sock_fail ''Failed to bind incoming connection to specified port'' logs sk2
              else if sys_connect env < 0
              then sock_fail ''Failed to bind outgoing connection to specified address/port'' logs sk2
              else (Done sk2, logs))"

definition ServerSocket :: "endian \<Rightarrow> sys_env \<Rightarrow> u16 \<Rightarrow> int \<Rightarrow> socket_if outcome \<times> log_call list" where
  "ServerSocket e env ownPort rxBufferSize =
     (let (sk, logs) = fresh_socket env;
          sk1 = sk\<lparr>sk_ownAddress := \<lparr>sin_family = AF_INET, sin_port = htons e ownPort,
                     sin_addr = INADDR_ANY\<rparr>\<rparr>
      in if sys_setsockopt env rxBufferSize = -1
         then sock_fail ''Failed to set receive buffer size on <server> socket'' logs sk1
         else if sys_bind env < 0
         then sock_fail ''Failed to bind incoming connection to specified port'' logs sk1
         else (Done sk1, logs))"

section \<open>Sending\<close>

text \<open>
  \<open>os bytes\<close> is the \<open>ssize_t\<close> that \<open>send\<close> returns for these bytes. The test
  \<open>bytesSent < payloadLength\<close> converts it to \<open>size_t\<close>: it is the unsigned order.
\<close>

definition listen_only :: log_call where
  "listen_only = LogCall Error
     ''Trying to send message from <client> socket (this type of socket is listen only)'' []"

definition short_send :: "u64 \<Rightarrow> u64 \<Rightarrow> log_call" where
  "short_send bytesSent expected = LogCall Error ''Send failed: sent {} bytes, expected {}''
     [ArgInt (sint bytesSent), ArgNat (unat expected)]"

definition send_error :: "int \<Rightarrow> log_call" where
  "send_error errno = LogCall Error ''Send failed, error: {}'' [ArgInt errno]"

definition Send :: "(bytes \<Rightarrow> u64) \<Rightarrow> socket_if \<Rightarrow> bytes \<Rightarrow> bool \<times> log_call list" where
  "Send os sk payload =
     (if sin_port (sk_sendAddress sk) = 0 then (False, [listen_only])
      else let bytesSent = os payload
       in if bytesSent < of_nat (length payload)
          then (False, [short_send bytesSent (of_nat (length payload))])
          else (True, []))"

definition Send_packet :: "endian \<Rightarrow> (bytes \<Rightarrow> u64) \<Rightarrow> socket_if \<Rightarrow> packet_t \<Rightarrow> bool \<times> log_call list" where
  "Send_packet e os sk p = Send os sk (packet_image e p)"

definition Send_rs_packet :: "endian \<Rightarrow> (bytes \<Rightarrow> u64) \<Rightarrow> socket_if \<Rightarrow> rs_packet_t \<Rightarrow> bool \<times> log_call list" where
  "Send_rs_packet e os sk p = Send os sk (rs_packet_image e p)"

definition SendNonBlocking :: "(bytes \<Rightarrow> u64) \<Rightarrow> int \<Rightarrow> socket_if \<Rightarrow> bytes \<Rightarrow> bool \<times> log_call list" where
  "SendNonBlocking os errno sk payload =
     (if sin_port (sk_sendAddress sk) = 0 then (False, [listen_only])
      else let bytesSent = os payload
       in if bytesSent < of_nat (length payload)
          then (if bytesSent = -1 then (False, [send_error errno])
                else (False, [short_send bytesSent (of_nat (length payload))]))
          else (True, []))"

definition SendNonBlocking_packet where
  "SendNonBlocking_packet e os errno sk p = SendNonBlocking os errno sk (packet_image e p)"

definition SendNonBlocking_rs_packet where
  "SendNonBlocking_rs_packet e os errno sk p = SendNonBlocking os errno sk (rs_packet_image e p)"

text \<open>\<open>sendto\<close> with an explicit address does not test the stored one.\<close>

definition SendToNonBlocking :: "(bytes \<Rightarrow> sockaddr_in \<Rightarrow> u64) \<Rightarrow> int \<Rightarrow> bytes \<Rightarrow> sockaddr_in \<Rightarrow>
    bool \<times> log_call list" where
  "SendToNonBlocking os errno payload address =
     (let bytesSent = os payload address
      in if bytesSent < of_nat (length payload)
         then (if bytesSent = -1 then (False, [send_error errno])
               else (False, [short_send bytesSent (of_nat (length payload))]))
         else (True, []))"

definition SendToNonBlocking_packet where
  "SendToNonBlocking_packet e os errno p address =
     SendToNonBlocking os errno (packet_image e p) address"

definition SendToNonBlocking_rs_packet where
  "SendToNonBlocking_rs_packet e os errno p address =
     SendToNonBlocking os errno (rs_packet_image e p) address"

section \<open>Receiving\<close>

text \<open>
  The outcome of \<open>recv\<close>: an error with its number, or a datagram. The kernel writes at most
  the size of the buffer and drops the rest; \<open>junk\<close> is what the stack array held before.
\<close>

datatype recv_result = RecvFail int | RecvDatagram bytes

definition bufferSize :: nat where
  "bufferSize = blockSize + headerSize"

definition recv_error :: "int \<Rightarrow> log_call" where
  "recv_error errno = LogCall Error ''Error while receiving message on <server> socket: {}''
     [ArgInt errno]"

definition receive_into :: "bytes \<Rightarrow> bytes \<Rightarrow> bytes \<times> u16" where
  "receive_into junk d =
     (take bufferSize d @ drop (length d) junk, of_nat (min bufferSize (length d)))"

text \<open>
  The overloads on a caller's buffer of at least \<open>receivedSize\<close> bytes, which they overwrite.
  \<open>Receive\<close> converts the \<open>ssize_t\<close> to \<open>bool\<close>; \<open>sender\<close> is the address \<open>recvfrom\<close> reports.
\<close>

definition overwrite :: "bytes \<Rightarrow> nat \<Rightarrow> bytes \<Rightarrow> bytes" where
  "overwrite buf n d = take n d @ drop (min n (length d)) buf"

fun Receive_raw :: "bytes \<Rightarrow> nat \<Rightarrow> recv_result \<Rightarrow> bool \<times> bytes" where
  "Receive_raw receivedMessage receivedSize (RecvFail errno) = (True, receivedMessage)"
| "Receive_raw receivedMessage receivedSize (RecvDatagram d) =
     (min receivedSize (length d) \<noteq> 0, overwrite receivedMessage receivedSize d)"

fun ReceiveNonBlocking_raw :: "bytes \<Rightarrow> nat \<Rightarrow> recv_result \<Rightarrow> bool \<times> bytes \<times> log_call list" where
  "ReceiveNonBlocking_raw receivedMessage receivedSize (RecvFail errno) =
     (False, receivedMessage, if errno = EAGAIN then [] else [recv_error errno])"
| "ReceiveNonBlocking_raw receivedMessage receivedSize (RecvDatagram d) =
     (True, overwrite receivedMessage receivedSize d, [])"

fun ReceiveFromNonBlocking_raw :: "bytes \<Rightarrow> nat \<Rightarrow> sockaddr_in \<Rightarrow> recv_result \<Rightarrow> sockaddr_in \<Rightarrow>
    bool \<times> bytes \<times> sockaddr_in \<times> log_call list" where
  "ReceiveFromNonBlocking_raw receivedMessage receivedSize address (RecvFail errno) sender =
     (False, receivedMessage, address, if errno = EAGAIN then [] else [recv_error errno])"
| "ReceiveFromNonBlocking_raw receivedMessage receivedSize address (RecvDatagram d) sender =
     (True, overwrite receivedMessage receivedSize d, sender, [])"

fun Receive :: "endian \<Rightarrow> bytes \<Rightarrow> recv_result \<Rightarrow> received option access \<times> log_call list" where
  "Receive e junk (RecvFail errno) = (Ok None, [recv_error errno])"
| "Receive e junk (RecvDatagram d) =
     (let (msg, n) = receive_into junk d in (decomposePacket e (Some msg) n, []))"

fun ReceiveNonBlocking :: "endian \<Rightarrow> bytes \<Rightarrow> recv_result \<Rightarrow> received option access \<times> log_call list" where
  "ReceiveNonBlocking e junk (RecvFail errno) =
     (Ok None, if errno = EAGAIN then [] else [recv_error errno])"
| "ReceiveNonBlocking e junk (RecvDatagram d) =
     (let (msg, n) = receive_into junk d in (decomposePacket e (Some msg) n, []))"

fun ReceiveFromNonBlocking :: "endian \<Rightarrow> bytes \<Rightarrow> sockaddr_in \<Rightarrow> recv_result \<Rightarrow> sockaddr_in \<Rightarrow>
    received option access \<times> sockaddr_in \<times> log_call list" where
  "ReceiveFromNonBlocking e junk address (RecvFail errno) sender =
     (Ok None, address, if errno = EAGAIN then [] else [recv_error errno])"
| "ReceiveFromNonBlocking e junk address (RecvDatagram d) sender =
     (let (msg, n) = receive_into junk d in (decomposePacket e (Some msg) n, sender, []))"

section \<open>Properties\<close>

lemma signed_mod:
  fixes u :: int
  assumes "0 \<le> u" and "u < 2 ^ 64"
  shows "(u + 2 ^ 63) mod 2 ^ 64 - 2 ^ 63 = (if u < 2 ^ 63 then u else u - 2 ^ 64)"
proof (cases "u < 2 ^ 63")
  case True
  with assms(1) have "(u + 2 ^ 63) mod 2 ^ 64 = u + 2 ^ 63"
    by (intro mod_pos_pos_trivial) auto
  with True show ?thesis by simp
next
  case False
  have split: "u + 2 ^ 63 = (u - 2 ^ 63) + 1 * 2 ^ 64" by simp
  have "(u + 2 ^ 63) mod 2 ^ 64 = (u - 2 ^ 63) mod 2 ^ 64"
    unfolding split by (rule mod_mult_self1)
  also have "\<dots> = u - 2 ^ 63"
    using False assms(2) by (intro mod_pos_pos_trivial) auto
  finally show ?thesis using False by simp
qed

lemma sint64_eq: "sint (r :: u64) = (if unat r < 2 ^ 63 then uint r else uint r - 2 ^ 64)"
proof -
  have lt: "uint r < 2 ^ 64" using unsigned_less [where w = r and 'a = int] by simp
  have "sint r = (uint r + 2 ^ 63) mod 2 ^ 64 - 2 ^ 63"
    using int_word_sint [of "uint r", where 'a = 64] by simp
  also have "\<dots> = (if uint r < 2 ^ 63 then uint r else uint r - 2 ^ 64)"
    using lt by (intro signed_mod) simp_all
  also have "uint r < 2 ^ 63 \<longleftrightarrow> unat r < 2 ^ 63"
    using of_nat_less_iff [of "unat r" "2 ^ 63", where 'a = int] by simp
  finally show ?thesis .
qed

lemma unat_less_sint:
  assumes "n < 2 ^ 63"
  shows "(r :: u64) < of_nat n \<longleftrightarrow> 0 \<le> sint r \<and> sint r < int n"
proof -
  have n: "unat (of_nat n :: u64) = n" using assms by (simp add: unat_of_nat)
  have lt: "uint r < 2 ^ 64" using unsigned_less [where w = r and 'a = int] by simp
  have i: "uint r < int n \<longleftrightarrow> unat r < n"
    using of_nat_less_iff [of "unat r" n, where 'a = int] by simp
  show ?thesis
    using assms lt n i by (auto simp: sint64_eq word_less_nat_alt)
qed

text \<open>
  C28: \<open>Send\<close> reports success exactly when the socket has a destination and the system call
  transmitted everything or failed: a failed call (a negative result) is never reported.
\<close>

theorem Send_success:
  assumes "length payload < 2 ^ 63"
  shows "fst (Send os sk payload) \<longleftrightarrow>
    sin_port (sk_sendAddress sk) \<noteq> 0 \<and>
    (sint (os payload) < 0 \<or> int (length payload) \<le> sint (os payload))"
  using unat_less_sint [OF assms, of "os payload"]
  by (auto simp: Send_def Let_def)

theorem Send_success_witness:
  "fst (Send (\<lambda>_. -1) \<lparr>sk_udpSocket = 3, sk_ownAddress = zero_addr,
      sk_sendAddress = zero_addr\<lparr>sin_port := 80\<rparr>, sk_closed = False\<rparr> [1, 2, 3])"
  by (subst Send_success) simp_all

text \<open>
  The branch that is to log the error number of a failed non-blocking send is never
  taken: the operation behaves as the blocking one, whatever the error number is.
\<close>

theorem SendNonBlocking_error_branch_dead:
  assumes "length payload < 2 ^ 63"
  shows "SendNonBlocking os errno sk payload = Send os sk payload \<and>
    send_error errno \<notin> set (snd (SendNonBlocking os errno sk payload))"
proof -
  have "\<not> (-1 :: u64) < of_nat (length payload)"
    using unat_less_sint [OF assms, of "-1"] by simp
  then show ?thesis
    by (auto simp: SendNonBlocking_def Send_def Let_def send_error_def short_send_def
        listen_only_def)
qed

theorem SendNonBlocking_error_branch_dead_witness:
  "fst (SendNonBlocking (\<lambda>_. -1) 104 \<lparr>sk_udpSocket = 3, sk_ownAddress = zero_addr,
      sk_sendAddress = zero_addr\<lparr>sin_port := 80\<rparr>, sk_closed = False\<rparr> [1, 2, 3])"
  using SendNonBlocking_error_branch_dead [of "[1, 2, 3]" "\<lambda>_. -1" 104
      "\<lparr>sk_udpSocket = 3, sk_ownAddress = zero_addr,
        sk_sendAddress = zero_addr\<lparr>sin_port := 80\<rparr>, sk_closed = False\<rparr>"]
  by (simp add: Send_def)

lemma receive_into_decompose:
  assumes "length junk = bufferSize"
  shows "(case receive_into junk d of (msg, n) \<Rightarrow> decomposePacket e (Some msg) n) =
    decomposePacket e (Some (take bufferSize d)) (of_nat (min bufferSize (length d)))"
proof -
  let ?n = "of_nat (min bufferSize (length d)) :: u16"
  have n: "unat ?n = length (take bufferSize d)"
    by (simp add: bufferSize_def wire_simps min.commute)
  then have "take (unat ?n) (take bufferSize d) = take bufferSize d" by (simp only: take_all_iff order_refl)
  with decompose_prefix [of ?n "take bufferSize d" e "drop (length d) junk"] n show ?thesis
    by (simp add: receive_into_def)
qed

lemma ReceiveNonBlocking_datagram:
  assumes "length junk = bufferSize"
  shows "ReceiveNonBlocking e junk (RecvDatagram d) =
    (Ok (decode_datagram e (take bufferSize d)), [])"
proof -
  let ?d = "take bufferSize d"
  have len: "of_nat (min bufferSize (length d)) = (of_nat (length ?d) :: u16)"
    by (simp add: min.commute)
  have "decomposePacket e (Some ?d) (of_nat (length ?d)) \<noteq> OutOfBounds"
    by (rule decompose_in_bounds) (simp add: bufferSize_def wire_simps)
  then have "decomposePacket e (Some ?d) (of_nat (length ?d)) = Ok (decode_datagram e ?d)"
    by (simp add: decode_datagram_def split: access.split)
  with receive_into_decompose [OF assms, where d = d and e = e] len show ?thesis
    by (simp split: prod.splits)
qed

text \<open>
  C27: A receive never reads outside its buffer, its result does not depend on what the
  buffer held before, and a datagram longer than the buffer counts as its first 1040 bytes.
\<close>

theorem Receive_junk_free:
  assumes "length junk = bufferSize"
  shows "fst (ReceiveNonBlocking e junk (RecvDatagram d)) =
      Ok (decode_datagram e (take bufferSize d)) \<and>
    fst (Receive e junk (RecvDatagram d)) = fst (ReceiveNonBlocking e junk (RecvDatagram d)) \<and>
    ReceiveFromNonBlocking e junk address (RecvDatagram d) sender =
      (fst (ReceiveNonBlocking e junk (RecvDatagram d)), sender, [])"
  using ReceiveNonBlocking_datagram [OF assms, of e d]
  by (simp split: prod.splits)

theorem Receive_junk_free_witness:
  "fst (ReceiveNonBlocking LittleEndian (replicate 1040 255) (RecvDatagram [])) = Ok None"
proof -
  have "length (replicate 1040 (255 :: byte)) = bufferSize"
    by (simp add: bufferSize_def wire_simps)
  from Receive_junk_free [OF this, of LittleEndian "[]"] show ?thesis
    by (simp add: decode_datagram_def decomposePacket_def wire_simps)
qed

end
