(* ===== verification/Stream.thy ===== *)
theory Stream
  imports Packet Logger
begin

text \<open>
  The stream reader of \<open>common/video/Stream.h\<close>: it pulls packets from the demuxer through
  FFmpeg, collects their bytes, cuts them at start codes into NAL units and hands each unit
  out in blocks of 1024 bytes. FFmpeg is a parameter: a record of its calls on an abstract
  state \<open>'e\<close>. A loop that depends on what FFmpeg returns may not end; such a function is
  \<open>None\<close> when it does not return.
\<close>

section \<open>The calls to FFmpeg\<close>

record av_packet =
  pkt_size :: int
  pkt_data :: "bytes option"
  pkt_stream_index :: int

definition blank_packet :: av_packet where
  "blank_packet = \<lparr>pkt_size = 0, pkt_data = None, pkt_stream_index = 0\<rparr>"

text \<open>
  Each call returns its \<open>int\<close> result and the new state of the library; \<open>av_packet_alloc\<close>
  only whether it succeeded. \<open>averror_eagain\<close> and \<open>averror_eof\<close> are its error numbers.
\<close>

record 'e ffmpeg =
  av_read_frame :: "'e \<Rightarrow> int \<times> av_packet \<times> 'e"
  av_bsf_receive_packet :: "'e \<Rightarrow> int \<times> av_packet \<times> 'e"
  av_bsf_send_packet :: "av_packet option \<Rightarrow> 'e \<Rightarrow> int \<times> 'e"
  av_packet_alloc :: "'e \<Rightarrow> bool \<times> 'e"
  averror_eagain :: int
  averror_eof :: int

section \<open>State\<close>

text \<open>
  What the reader allocates in FFmpeg and frees again. \<open>r_resources\<close> is the sequence of these
  calls; the pointers \<open>_formatContext\<close> and \<open>_bitStreamFilterContext\<close> are only ever compared with
  null, so a boolean stands for each of them.
\<close>

datatype resource = Network | AvPacket | TempAvPacket | FormatContext | BitStreamFilter

datatype resource_event = Acquired resource | Released resource

record 'e reader =
  r_env :: 'e
  r_avPacket :: av_packet
  r_formatContext :: bool
  r_bitStreamFilter :: bool
  r_videoStreamPosition :: int
  r_videoStreamId :: int
  r_streamBuffer :: bytes
  r_streamBufferOffset :: nat
  r_currentNALU :: bytes
  r_currentNaluOffset :: nat
  r_currentNaluIndex :: u32
  r_log :: "log_call list"
  r_resources :: "resource_event list"

definition acquire :: "resource \<Rightarrow> 'e reader \<Rightarrow> 'e reader" where
  "acquire x r = r\<lparr>r_resources := r_resources r @ [Acquired x]\<rparr>"

definition release :: "resource \<Rightarrow> 'e reader \<Rightarrow> 'e reader" where
  "release x r = r\<lparr>r_resources := r_resources r @ [Released x]\<rparr>"

definition reader_log :: "LogLevel \<Rightarrow> string \<Rightarrow> log_arg list \<Rightarrow> 'e reader \<Rightarrow> 'e reader" where
  "reader_log level msg args r = r\<lparr>r_log := r_log r @ [LogCall level msg args]\<rparr>"

section \<open>Construction, destruction, \<open>Open\<close> and \<open>Close\<close>\<close>

definition reader_zero :: "'e \<Rightarrow> 'e reader" where
  "reader_zero env =
     \<lparr>r_env = env, r_avPacket = blank_packet, r_formatContext = False, r_bitStreamFilter = False,
      r_videoStreamPosition = 0, r_videoStreamId = -1, r_streamBuffer = [],
      r_streamBufferOffset = 0, r_currentNALU = [], r_currentNaluOffset = 0,
      r_currentNaluIndex = 0, r_log = [], r_resources = []\<rparr>"

definition StreamReader :: "'e ffmpeg \<Rightarrow> int \<Rightarrow> 'e \<Rightarrow> 'e reader outcome" where
  "StreamReader ff network_init env =
     (if network_init < 0
      then Exited (reader_log Error ''Failed to initialize AVFormat network'' [] (reader_zero env))
      else let (ok, env') = av_packet_alloc ff env;
               r = acquire Network (reader_zero env')
       in if \<not> ok then Exited (reader_log Error ''Failed to allocate AVPacket'' [] r)
          else Done (acquire AvPacket r))"

definition Close :: "'e reader \<Rightarrow> 'e reader" where
  "Close r =
     (let r1 = (if r_bitStreamFilter r
                then release BitStreamFilter (r\<lparr>r_bitStreamFilter := False\<rparr>) else r);
          r2 = (if r_formatContext r1
                then release FormatContext (r1\<lparr>r_formatContext := False\<rparr>) else r1)
      in r2\<lparr>r_avPacket := blank_packet,
          r_videoStreamId := -1, r_videoStreamPosition := 0, r_streamBuffer := [],
          r_streamBufferOffset := 0, r_currentNALU := [], r_currentNaluOffset := 0,
          r_currentNaluIndex := 0\<rparr>)"

definition StreamReader_destroy :: "'e reader \<Rightarrow> 'e reader" where
  "StreamReader_destroy r = release Network (release AvPacket (Close r))"

text \<open>
  What the calls of \<open>Open\<close> return for the url: \<open>oe_streams\<close> says of each stream whether it
  is video and whether its codec is H.264, \<open>oe_env\<close> is the opened demuxer.
\<close>

record 'e open_env =
  oe_open_input :: int
  oe_find_stream_info :: int
  oe_format_name :: string
  oe_streams :: "(bool \<times> bool) list"
  oe_bsf_found :: bool
  oe_bsf_alloc :: int
  oe_parameters_copy :: int
  oe_bsf_init :: int
  oe_env :: 'e

fun find_video_stream :: "(bool \<times> bool) list \<Rightarrow> int \<Rightarrow> int option" where
  "find_video_stream [] streamId = None"
| "find_video_stream ((video, h264) # ss) streamId =
     (if video \<and> h264 then Some streamId else find_video_stream ss (streamId + 1))"

definition open_fail :: "string \<Rightarrow> string \<Rightarrow> 'e reader \<Rightarrow> 'e reader outcome" where
  "open_fail msg url r = Exited (Close (reader_log Error msg [ArgStr url] r))"

definition Open :: "'e open_env \<Rightarrow> string \<Rightarrow> 'e reader \<Rightarrow> 'e reader outcome" where
  "Open oe url r =
     (let r0 = (if r_formatContext r then Close r else r)
      in if oe_open_input oe < 0
         then open_fail ''Failed to open FFMpeg avformat stream by provided url: {}'' url r0
         else let r1 = acquire FormatContext (r0\<lparr>r_formatContext := True, r_env := oe_env oe\<rparr>)
      in if oe_find_stream_info oe < 0
         then open_fail ''Failed to find FFMpeg avformat stream info by provided url: {}'' url r1
         else let isRawH264 = (oe_format_name oe = ''h264'');
                  r2 = (case find_video_stream (oe_streams oe) 0 of
                          None \<Rightarrow> r1
                        | Some streamId \<Rightarrow> r1\<lparr>r_videoStreamId := streamId\<rparr>)
      in if r_videoStreamId r2 = -1
         then open_fail ''No h264 video stream found by provided url: {}'' url r2
         else if \<not> isRawH264 \<and> \<not> oe_bsf_found oe
         then open_fail ''Bitstream filter 'h264_mp4toannexb' not found with provided url: {}'' url r2
         else if \<not> isRawH264 \<and> oe_bsf_alloc oe < 0
         then open_fail ''Failed to allocate FFMpeg bit stream filter context with provided url: {}'' url r2
         else let r3 = (if isRawH264
                        then reader_log Info ''Raw H.264 input detected, skipping bitstream filter'' []
                               (r2\<lparr>r_bitStreamFilter := False\<rparr>)
                        else acquire BitStreamFilter (r2\<lparr>r_bitStreamFilter := True\<rparr>))
      in if \<not> isRawH264 \<and> oe_parameters_copy oe < 0
         then open_fail ''Failed to copy FFMpeg codec parameters into incoming FFMpeg bit stream filter context with provided url: {}'' url r3
         else if \<not> isRawH264 \<and> oe_bsf_init oe < 0
         then open_fail ''Failed to initialize FFMpeg bit stream filter context with provided url: {}'' url r3
         else Done (r3\<lparr>r_streamBuffer := [], r_streamBufferOffset := 0, r_currentNALU := [],
                 r_currentNaluOffset := 0, r_currentNaluIndex := 0\<rparr>))"

section \<open>Reading a packet\<close>

text \<open>The loop over the bit stream filter; \<open>sentNull\<close> is \<open>sentNullTerminator\<close>.\<close>

partial_function (option) read_filtered ::
    "'e ffmpeg \<Rightarrow> bool \<Rightarrow> 'e reader \<Rightarrow> (int \<times> 'e reader) option" where
  "read_filtered ff sentNull r =
     (case av_bsf_receive_packet ff (r_env r) of (ret, pkt, env) \<Rightarrow>
        if ret = 0 then
          (if pkt_size pkt \<le> 0 \<or> pkt_data pkt = None
           then read_filtered ff sentNull (r\<lparr>r_env := env, r_avPacket := blank_packet\<rparr>)
           else Some (1, r\<lparr>r_env := env, r_avPacket := pkt, r_videoStreamPosition := 0\<rparr>))
        else if ret = averror_eagain ff then
          (if sentNull
           then Some (-1, reader_log Error ''Bitstream filter returned EAGAIN after null packet sent'' []
                            (r\<lparr>r_env := env, r_avPacket := pkt\<rparr>))
           else (case av_packet_alloc ff env of (ok, env1) \<Rightarrow>
             if \<not> ok
             then Some (-1, reader_log Error ''Failed to allocate temporary AVPacket for reading frames'' []
                              (r\<lparr>r_env := env1, r_avPacket := pkt\<rparr>))
             else (case av_read_frame ff env1 of (rd, temp, env2) \<Rightarrow>
               let r1 = acquire TempAvPacket (r\<lparr>r_env := env2, r_avPacket := pkt\<rparr>)
               in if rd < 0 then
                 (let r2 = release TempAvPacket r1
                  in if rd = averror_eof ff then
                    (case av_bsf_send_packet ff None env2 of (sd, env3) \<Rightarrow>
                       if sd < 0
                       then Some (-1, reader_log Error
                              ''Failed to send null packet to bitstream filter during flush'' []
                              (r2\<lparr>r_env := env3\<rparr>))
                       else read_filtered ff True (r2\<lparr>r_env := env3\<rparr>))
                  else Some (-1, reader_log Error ''FFMpeg error while reading frame from demuxer'' [] r2))
               else if pkt_stream_index temp = r_videoStreamId r then
                 (case av_bsf_send_packet ff (Some temp) env2 of (sd, env3) \<Rightarrow>
                    let r2 = release TempAvPacket (r1\<lparr>r_env := env3\<rparr>)
                    in if sd < 0
                    then Some (-1, reader_log Error ''FFMpeg bit stream filter failed to accept packet'' [] r2)
                    else read_filtered ff sentNull r2)
               else read_filtered ff sentNull (release TempAvPacket r1))))
        else if ret = averror_eof ff
        then Some (0, r\<lparr>r_env := env, r_avPacket := blank_packet\<rparr>)
        else Some (-1, reader_log Error
               ''Unknown FFMpeg error during bit stream filter packet receive: {}'' [ArgInt ret]
               (r\<lparr>r_env := env, r_avPacket := blank_packet\<rparr>)))"

text \<open>The loop without a filter.\<close>

partial_function (option) read_unfiltered ::
    "'e ffmpeg \<Rightarrow> 'e reader \<Rightarrow> (int \<times> 'e reader) option" where
  "read_unfiltered ff r =
     (case av_read_frame ff (r_env r) of (rd, temp, env) \<Rightarrow>
        if rd < 0 then
          (let r1 = release TempAvPacket (r\<lparr>r_env := env\<rparr>)
           in if rd = averror_eof ff then Some (0, r1)
              else Some (-1, reader_log Error ''Error reading frame from demuxer'' [] r1))
        else if pkt_stream_index temp = r_videoStreamId r
        then Some (1, (release TempAvPacket (r\<lparr>r_env := env, r_avPacket := temp\<rparr>))
                     \<lparr>r_videoStreamPosition := 0\<rparr>)
        else read_unfiltered ff (r\<lparr>r_env := env\<rparr>))"

definition ReadPacketFromStream :: "'e ffmpeg \<Rightarrow> 'e reader \<Rightarrow> (int \<times> 'e reader) option" where
  "ReadPacketFromStream ff r =
     (if r_bitStreamFilter r then read_filtered ff False r
      else (case av_packet_alloc ff (r_env r) of (ok, env) \<Rightarrow>
        if \<not> ok
        then Some (-1, reader_log Error ''Failed to allocate temporary AVPacket'' [] (r\<lparr>r_env := env\<rparr>))
        else read_unfiltered ff (acquire TempAvPacket (r\<lparr>r_env := env\<rparr>))))"

definition FillStreamBuffer :: "'e ffmpeg \<Rightarrow> 'e reader \<Rightarrow> (bool \<times> 'e reader) option" where
  "FillStreamBuffer ff r =
     (case ReadPacketFromStream ff r of
        None \<Rightarrow> None
      | Some (ret, r1) \<Rightarrow>
          if ret \<le> 0 then Some (False, r1)
          else let pkt = r_avPacket r1;
                   added = (case pkt_data pkt of
                              Some d \<Rightarrow> if 0 < pkt_size pkt then take (nat (pkt_size pkt)) d else []
                            | None \<Rightarrow> [])
            in Some (True, r1\<lparr>r_streamBuffer := r_streamBuffer r1 @ added,
                             r_avPacket := blank_packet\<rparr>))"

section \<open>Cutting at start codes\<close>

text \<open>\<open>None\<close> is \<open>std::string::npos\<close>.\<close>

function FindStartCode :: "bytes \<Rightarrow> nat \<Rightarrow> nat option" where
  "FindStartCode buf i =
     (if i + 2 < length buf then
        (if i + 3 < length buf \<and> buf ! i = 0 \<and> buf ! (i + 1) = 0 \<and> buf ! (i + 2) = 0 \<and>
            buf ! (i + 3) = 1
         then Some i
         else if buf ! i = 0 \<and> buf ! (i + 1) = 0 \<and> buf ! (i + 2) = 1 then Some i
         else FindStartCode buf (Suc i))
      else None)"
  by pat_completeness auto
termination
  by (relation "measure (\<lambda>(buf, i). length buf - i)") auto

declare FindStartCode.simps [simp del]

text \<open>The unit that starts at a start code: up to the next one, or to the end of the buffer.\<close>

definition nalu_end :: "bytes \<Rightarrow> nat \<Rightarrow> nat" where
  "nalu_end buf startPos =
     (case FindStartCode buf (startPos + 3) of None \<Rightarrow> length buf | Some endPos \<Rightarrow> endPos)"

partial_function (option) ExtractNextNalu ::
    "'e ffmpeg \<Rightarrow> 'e reader \<Rightarrow> (bool \<times> 'e reader) option" where
  "ExtractNextNalu ff r =
     (case FindStartCode (r_streamBuffer r) (r_streamBufferOffset r) of
        Some startPos \<Rightarrow>
          Some (True, r\<lparr>r_currentNALU :=
                   drop startPos (take (nalu_end (r_streamBuffer r) startPos) (r_streamBuffer r)),
                 r_streamBufferOffset := nalu_end (r_streamBuffer r) startPos,
                 r_currentNaluOffset := 0\<rparr>)
      | None \<Rightarrow>
          Option.bind (FillStreamBuffer ff r)
            (\<lambda>(ok, r1). if \<not> ok then Some (False, r1) else ExtractNextNalu ff r1))"

section \<open>Handing out blocks\<close>

text \<open>
  The out-parameters of \<open>ReadTo\<close>: buffer, block index, unit index and number of blocks,
  written only when a block is returned.
\<close>

type_synonym block = "bytes \<times> u32 \<times> u32 \<times> u32"

definition emit_block :: "'e reader \<Rightarrow> int \<times> block option \<times> 'e reader" where
  "emit_block r =
     (let naluSize = length (r_currentNALU r);
          naluBlockSize = (of_nat ((naluSize + blockSize - 1) div blockSize) :: u32);
          blockIndex = (of_nat (r_currentNaluOffset r div blockSize) :: u32);
          bytesToCopy = min blockSize (naluSize - r_currentNaluOffset r);
          buffer = take bytesToCopy (drop (r_currentNaluOffset r) (r_currentNALU r));
          r1 = r\<lparr>r_currentNaluOffset := r_currentNaluOffset r + bytesToCopy\<rparr>;
          r2 = (if r_currentNaluOffset r1 \<ge> length (r_currentNALU r1)
                then r1\<lparr>r_currentNALU := [], r_currentNaluOffset := 0,
                        r_currentNaluIndex := r_currentNaluIndex r1 + 1\<rparr>
                else r1)
      in (int bytesToCopy, Some (buffer, blockIndex, r_currentNaluIndex r, naluBlockSize), r2))"

definition ReadTo :: "'e ffmpeg \<Rightarrow> 'e reader \<Rightarrow> (int \<times> block option \<times> 'e reader) option" where
  "ReadTo ff r =
     (if r_currentNALU r = [] \<or> r_currentNaluOffset r \<ge> length (r_currentNALU r)
      then (case ExtractNextNalu ff r of
              None \<Rightarrow> None
            | Some (ok, r1) \<Rightarrow> if \<not> ok then Some (0, None, r1) else Some (emit_block r1))
      else Some (emit_block r))"

end
