(* ===== verification/Stream_Facts.thy ===== *)
theory Stream_Facts
  imports Stream
begin

text \<open>
  What the stream reader computes: the search for start codes against its specification,
  the cutting of a buffer into NAL units that loses nothing, the blocks of a unit, and the
  whole run over a demuxer that delivers the packets of a file.
\<close>

text \<open>Only the record of the resources changes when one is taken or given back.\<close>

lemma acquire_fields [simp]:
  "r_env (acquire x r) = r_env r"
  "r_avPacket (acquire x r) = r_avPacket r"
  "r_formatContext (acquire x r) = r_formatContext r"
  "r_bitStreamFilter (acquire x r) = r_bitStreamFilter r"
  "r_videoStreamPosition (acquire x r) = r_videoStreamPosition r"
  "r_videoStreamId (acquire x r) = r_videoStreamId r"
  "r_streamBuffer (acquire x r) = r_streamBuffer r"
  "r_streamBufferOffset (acquire x r) = r_streamBufferOffset r"
  "r_currentNALU (acquire x r) = r_currentNALU r"
  "r_currentNaluOffset (acquire x r) = r_currentNaluOffset r"
  "r_currentNaluIndex (acquire x r) = r_currentNaluIndex r"
  "r_log (acquire x r) = r_log r"
  by (simp_all add: acquire_def)

lemma release_fields [simp]:
  "r_env (release x r) = r_env r"
  "r_avPacket (release x r) = r_avPacket r"
  "r_formatContext (release x r) = r_formatContext r"
  "r_bitStreamFilter (release x r) = r_bitStreamFilter r"
  "r_videoStreamPosition (release x r) = r_videoStreamPosition r"
  "r_videoStreamId (release x r) = r_videoStreamId r"
  "r_streamBuffer (release x r) = r_streamBuffer r"
  "r_streamBufferOffset (release x r) = r_streamBufferOffset r"
  "r_currentNALU (release x r) = r_currentNALU r"
  "r_currentNaluOffset (release x r) = r_currentNaluOffset r"
  "r_currentNaluIndex (release x r) = r_currentNaluIndex r"
  "r_log (release x r) = r_log r"
  by (simp_all add: release_def)

section \<open>The search for a start code\<close>

definition start_code_at :: "bytes \<Rightarrow> nat \<Rightarrow> bool" where
  "start_code_at buf i \<longleftrightarrow>
     i + 2 < length buf \<and> buf ! i = 0 \<and> buf ! (i + 1) = 0 \<and>
     (buf ! (i + 2) = 1 \<or> (i + 3 < length buf \<and> buf ! (i + 2) = 0 \<and> buf ! (i + 3) = 1))"

lemma FindStartCode_step:
  "FindStartCode buf i =
     (if start_code_at buf i then Some i
      else if i + 2 < length buf then FindStartCode buf (Suc i) else None)"
  by (subst FindStartCode.simps) (auto simp: start_code_at_def)

lemma FindStartCode_Some:
  "FindStartCode buf i = Some p \<longleftrightarrow>
     i \<le> p \<and> start_code_at buf p \<and> (\<forall>j. i \<le> j \<and> j < p \<longrightarrow> \<not> start_code_at buf j)"
proof (induction buf i rule: FindStartCode.induct)
  case (1 buf i)
  show ?case
  proof (cases "start_code_at buf i")
    case True
    then show ?thesis
      by (subst FindStartCode_step) (auto intro: order_antisym leI)
  next
    case False
    have 2: "start_code_at buf p \<Longrightarrow> i \<le> p \<Longrightarrow> i + 2 < length buf \<and> Suc i \<le> p"
      using False by (auto simp: start_code_at_def not_less_eq_eq intro: Suc_leI le_neq_implies_less)
    have IH: "i + 2 < length buf \<Longrightarrow> FindStartCode buf (Suc i) = Some p \<longleftrightarrow>
       Suc i \<le> p \<and> start_code_at buf p \<and> (\<forall>j. Suc i \<le> j \<and> j < p \<longrightarrow> \<not> start_code_at buf j)"
      using 1 False by (auto simp: start_code_at_def)
    have all: "(\<forall>j. i \<le> j \<and> j < p \<longrightarrow> \<not> start_code_at buf j) \<longleftrightarrow>
        (\<forall>j. Suc i \<le> j \<and> j < p \<longrightarrow> \<not> start_code_at buf j)"
      using False by (metis Suc_leD le_antisym not_less_eq_eq)
    from False 2 IH show ?thesis
      unfolding all by (subst FindStartCode_step) (auto dest: Suc_leD)
  qed
qed

lemma FindStartCode_None:
  "FindStartCode buf i = None \<longleftrightarrow> (\<forall>j. i \<le> j \<longrightarrow> \<not> start_code_at buf j)"
proof
  assume none: "FindStartCode buf i = None"
  show "\<forall>j. i \<le> j \<longrightarrow> \<not> start_code_at buf j"
  proof (intro allI impI notI)
    fix j
    assume j: "i \<le> j" "start_code_at buf j"
    define p where "p = (LEAST k. i \<le> k \<and> start_code_at buf k)"
    have p: "i \<le> p \<and> start_code_at buf p" unfolding p_def by (rule LeastI) (use j in simp)
    have "\<forall>k. i \<le> k \<and> k < p \<longrightarrow> \<not> start_code_at buf k"
      unfolding p_def by (auto dest: not_less_Least)
    with p have "FindStartCode buf i = Some p" by (simp add: FindStartCode_Some)
    with none show False by simp
  qed
next
  assume "\<forall>j. i \<le> j \<longrightarrow> \<not> start_code_at buf j"
  then show "FindStartCode buf i = None"
    using FindStartCode_Some [of buf i] by (cases "FindStartCode buf i") auto
qed

text \<open>
  C14: The search returns the first position, from the offset on, at which three bytes
  \<open>00 00 01\<close> or four bytes \<open>00 00 00 01\<close> start within the buffer, and \<open>npos\<close> exactly
  when there is none.
\<close>

theorem FindStartCode_first:
  "FindStartCode buf i =
     (if \<exists>p \<ge> i. start_code_at buf p
      then Some (LEAST p. i \<le> p \<and> start_code_at buf p) else None)"
proof (cases "FindStartCode buf i")
  case None
  then have "\<not> (\<exists>p \<ge> i. start_code_at buf p)" by (simp add: FindStartCode_None)
  with None show ?thesis by simp
next
  case (Some p)
  then have "(LEAST p. i \<le> p \<and> start_code_at buf p) = p"
    by (intro Least_equality) (auto simp: FindStartCode_Some intro: leI)
  with Some show ?thesis by (auto simp: FindStartCode_Some)
qed

theorem FindStartCode_first_witness:
  "FindStartCode [7, 0, 0, 0, 1, 9] 0 = Some 1"
proof -
  have "(LEAST p. 0 \<le> p \<and> start_code_at [7, 0, 0, 0, 1, 9] p) = 1"
    by (rule Least_equality)
      (auto simp: start_code_at_def nth_Cons' less_Suc_eq intro!: Suc_leI gr0I)
  moreover have "\<exists>p \<ge> 0. start_code_at [7, 0, 0, 0, 1, 9] p"
    by (rule exI [of _ 1]) (simp add: start_code_at_def)
  ultimately show ?thesis by (simp add: FindStartCode_first)
qed

lemma start_code_at_length: "start_code_at buf p \<Longrightarrow> p + 2 < length buf"
  by (simp add: start_code_at_def)

lemma FindStartCode_bounds: "FindStartCode buf i = Some p \<Longrightarrow> i \<le> p \<and> p + 2 < length buf"
  using start_code_at_length [of buf p] by (simp add: FindStartCode_Some)

lemma start_code_at_shift: "start_code_at (pre @ d) (length pre + i) = start_code_at d i"
  by (auto simp: start_code_at_def nth_append)

lemma FindStartCode_shift:
  "FindStartCode (pre @ d) (length pre + i) = map_option ((+) (length pre)) (FindStartCode d i)"
proof (induction d i rule: FindStartCode.induct)
  case (1 d i)
  show ?case
  proof (cases "start_code_at d i")
    case True
    then show ?thesis
      by (simp add: FindStartCode_step [of d i] FindStartCode_step [of "pre @ d" "length pre + i"]
          start_code_at_shift)
  next
    case False
    with 1 have "i + 2 < length d \<Longrightarrow> FindStartCode (pre @ d) (length pre + Suc i) =
        map_option ((+) (length pre)) (FindStartCode d (Suc i))"
      by (auto simp: start_code_at_def)
    with False show ?thesis
      by (simp add: FindStartCode_step [of d i] FindStartCode_step [of "pre @ d" "length pre + i"]
          start_code_at_shift)
  qed
qed

section \<open>Cutting a buffer into units\<close>

lemma nalu_end_bounds:
  "FindStartCode buf i = Some s \<Longrightarrow> s + 3 \<le> nalu_end buf s \<and> nalu_end buf s \<le> length buf"
  using FindStartCode_bounds [of buf i s] FindStartCode_bounds [of buf "s + 3"]
  by (auto simp: nalu_end_def split: option.split)

text \<open>
  The reference cutting, which uses nothing of the reader: the first position from \<open>i\<close> on at
  which there is a start code, or the end of the buffer, and the pieces from one such
  position to the next that is at least three bytes later.
\<close>

definition next_code :: "bytes \<Rightarrow> nat \<Rightarrow> nat" where
  "next_code buf i = (case filter (start_code_at buf) [i..<length buf] of [] \<Rightarrow> length buf | j # _ \<Rightarrow> j)"

lemma next_code_cases:
  obtains "next_code buf i = length buf"
  | "i \<le> next_code buf i" "next_code buf i < length buf" "start_code_at buf (next_code buf i)"
proof (cases "filter (start_code_at buf) [i..<length buf]")
  case Nil
  then have "next_code buf i = length buf" by (simp add: next_code_def)
  then show thesis by (rule that(1))
next
  case (Cons j js)
  then have "j \<in> set (filter (start_code_at buf) [i..<length buf])" by simp
  then have "i \<le> j" "j < length buf" "start_code_at buf j" by simp_all
  with Cons show thesis by (intro that(2)) (simp_all add: next_code_def)
qed

function split_nalus :: "bytes \<Rightarrow> nat \<Rightarrow> bytes list" where
  "split_nalus buf off =
     (let s = next_code buf off; e = next_code buf (s + 3)
      in if s < length buf then drop s (take e buf) # split_nalus buf e else [])"
  by pat_completeness auto
termination
proof (relation "measure (\<lambda>(buf, off). length buf - off)", simp)
  fix buf off s e
  assume "s = next_code buf off" "e = next_code buf (s + 3)" "s < length buf"
  then have "off \<le> s" by (cases rule: next_code_cases [of buf off]) simp_all
  moreover have "s < e"
    using \<open>e = _\<close> \<open>s < length buf\<close> by (cases rule: next_code_cases [of buf "s + 3"]) simp_all
  ultimately have "off < e" "off < length buf" using \<open>s < length buf\<close> by simp_all
  then show "((buf, e), buf, off) \<in> measure (\<lambda>(buf, off). length buf - off)" by simp
qed

declare split_nalus.simps [simp del]

text \<open>The search of the reader finds these positions.\<close>

lemma next_code_None: "FindStartCode buf i = None \<Longrightarrow> next_code buf i = length buf"
  by (auto simp: next_code_def FindStartCode_None filter_empty_conv split: list.split
      dest!: Cons_eq_filterD)

lemma next_code_Some:
  assumes "FindStartCode buf i = Some s"
  shows "next_code buf i = s"
proof -
  from assms have s: "i \<le> s" "start_code_at buf s" "\<forall>j. i \<le> j \<and> j < s \<longrightarrow> \<not> start_code_at buf j"
    by (auto simp: FindStartCode_Some)
  then have "s < length buf" by (auto dest: start_code_at_length)
  with s(1) have "[i..<length buf] = [i..<s] @ s # [Suc s..<length buf]"
    by (metis le_eq_less_or_eq upt_add_eq_append upt_conv_Cons less_imp_add_positive)
  moreover have "filter (start_code_at buf) [i..<s] = []" using s(3) by (simp add: filter_empty_conv)
  ultimately show ?thesis using s(2) by (simp add: next_code_def)
qed

lemma next_code_nalu_end: "next_code buf (s + 3) = nalu_end buf s"
  by (simp add: nalu_end_def next_code_None next_code_Some split: option.split)

lemma split_nalus_None: "FindStartCode buf off = None \<Longrightarrow> split_nalus buf off = []"
  by (subst split_nalus.simps) (simp add: next_code_None)

lemma split_nalus_Some:
  "FindStartCode buf off = Some s \<Longrightarrow>
     split_nalus buf off =
       drop s (take (nalu_end buf s) buf) # split_nalus buf (nalu_end buf s)"
  using FindStartCode_bounds [of buf off s]
  by (subst split_nalus.simps) (simp add: next_code_Some next_code_nalu_end Let_def)

lemma split_nalus_induct:
  assumes "\<And>buf off. (\<And>s. FindStartCode buf off = Some s \<Longrightarrow> P buf (nalu_end buf s)) \<Longrightarrow> P buf off"
  shows "P buf off"
proof (induction buf off rule: split_nalus.induct)
  case (1 buf off)
  show ?case
  proof (rule assms)
    fix s
    assume s: "FindStartCode buf off = Some s"
    from 1 [OF refl refl] FindStartCode_bounds [OF s] show "P buf (nalu_end buf s)"
      by (simp add: next_code_Some [OF s] next_code_nalu_end)
  qed
qed

text \<open>The end of a unit is the start of the next one, or the end of the buffer.\<close>

lemma FindStartCode_nalu_end:
  assumes "FindStartCode buf off = Some s"
  shows "FindStartCode buf (nalu_end buf s) =
    (if nalu_end buf s = length buf then None else Some (nalu_end buf s))"
proof (cases "FindStartCode buf (s + 3)")
  case None
  then have "nalu_end buf s = length buf" by (simp add: nalu_end_def)
  moreover have "FindStartCode buf (length buf) = None"
    by (auto simp: FindStartCode_None dest: start_code_at_length)
  ultimately show ?thesis by simp
next
  case (Some e)
  then have e: "nalu_end buf s = e" by (simp add: nalu_end_def)
  from Some have "start_code_at buf e" by (simp add: FindStartCode_Some)
  then have "FindStartCode buf e = Some e" and "e \<noteq> length buf"
    by (auto simp: FindStartCode_step dest: start_code_at_length)
  with e show ?thesis by simp
qed

lemma split_nalus_concat_aux:
  assumes "FindStartCode buf off = Some s"
  shows "concat (split_nalus buf off) = drop s buf"
  using assms
proof (induction buf off arbitrary: s rule: split_nalus_induct)
  case (1 buf off)
  let ?e = "nalu_end buf s"
  have e: "s \<le> ?e" "?e \<le> length buf" using nalu_end_bounds [OF 1(2)] by simp_all
  have rest: "concat (split_nalus buf ?e) = drop ?e buf"
  proof (cases "?e = length buf")
    case True
    with FindStartCode_nalu_end [OF 1(2)] show ?thesis by (simp add: split_nalus_None)
  next
    case False
    with FindStartCode_nalu_end [OF 1(2)] 1(1) [OF 1(2)] show ?thesis by simp
  qed
  have "drop s (take ?e buf) @ drop ?e buf = drop s buf"
    using e by (metis append_take_drop_id diff_is_0_eq drop_0 drop_append length_take min.absorb2)
  with rest show ?case by (simp add: split_nalus_Some [OF 1(2)])
qed

text \<open>
  The units cut from a buffer, put one after the other, are the buffer from its first
  start code on: no byte is lost, repeated or reordered.
\<close>

theorem split_nalus_concat:
  assumes "FindStartCode buf off = Some s"
  shows "concat (split_nalus buf off) = drop s buf"
  using assms by (rule split_nalus_concat_aux)

theorem split_nalus_concat_witness:
  "concat (split_nalus [9, 0, 0, 1, 5, 0, 0, 0, 1, 6] 0) = [0, 0, 1, 5, 0, 0, 0, 1, 6]"
proof -
  have "FindStartCode [9, 0, 0, 1, 5, 0, 0, 0, 1, 6] 0 = Some 1"
    by (simp add: FindStartCode.simps nth_Cons')
  from split_nalus_concat [OF this] show ?thesis by simp
qed

text \<open>
  Every unit starts with a start code and holds no further one behind it.
\<close>

theorem split_nalus_shape:
  assumes "n \<in> set (split_nalus buf off)"
  shows "start_code_at n 0 \<and> FindStartCode n 3 = None"
  using assms
proof (induction buf off rule: split_nalus_induct)
  case (1 buf off)
  show ?case
  proof (cases "FindStartCode buf off")
    case None
    with 1(2) show ?thesis by (simp add: split_nalus_None)
  next
    case (Some s)
    let ?e = "nalu_end buf s" and ?n = "drop s (take (nalu_end buf s) buf)"
    have e: "s + 3 \<le> ?e" "?e \<le> length buf" using nalu_end_bounds [OF Some] by simp_all
    have s: "start_code_at buf s" using Some by (simp add: FindStartCode_Some)
    have len: "length ?n = ?e - s" using e by simp
    have nth: "?n ! i = buf ! (s + i)" if "i < ?e - s" for i
      using that e by (simp add: nth_take)
    have only: "\<not> start_code_at buf j" if "s + 3 \<le> j" "j < ?e" for j
      using that by (auto simp: nalu_end_def FindStartCode_None FindStartCode_Some
          split: option.splits)
    have "start_code_at ?n 0"
    proof (cases "buf ! (s + 2) = 1")
      case True
      with s e nth [of 0] nth [of 1] nth [of 2] show ?thesis
        unfolding start_code_at_def len by simp
    next
      case False
      with s have c: "s + 3 < length buf" "buf ! s = 0" "buf ! (s + 1) = 0" "buf ! (s + 2) = 0"
          "buf ! (s + 3) = 1"
        by (auto simp: start_code_at_def)
      have "?e \<noteq> s + 3"
      proof
        assume eq: "?e = s + 3"
        with c(1) have "FindStartCode buf (s + 3) = Some (s + 3)"
          by (auto simp: nalu_end_def split: option.splits)
        then have "start_code_at buf (s + 3)" by (simp add: FindStartCode_Some)
        with c(5) show False by (simp add: start_code_at_def)
      qed
      with e have "3 < ?e - s" by simp
      with c nth [of 0] nth [of 1] nth [of 2] nth [of 3] show ?thesis
        unfolding start_code_at_def len by simp
    qed
    moreover have "FindStartCode ?n 3 = None"
      unfolding FindStartCode_None
    proof (intro allI impI notI)
      fix j
      assume j: "3 \<le> j" "start_code_at ?n j"
      then have lt: "j + 2 < ?e - s" using len by (simp add: start_code_at_def)
      with j nth have "start_code_at buf (s + j)"
        using e(2) unfolding start_code_at_def len by (auto simp: add.assoc)
      moreover from j(1) lt have "s + 3 \<le> s + j" and "s + j < ?e" by linarith+
      ultimately show False using only by blast
    qed
    ultimately show ?thesis
      using 1 Some by (auto simp: split_nalus_Some)
  qed
qed

theorem split_nalus_shape_witness:
  "start_code_at [0, 0, 1, 5] 0 \<and> FindStartCode [0, 0, 1, 5 :: byte] 3 = None"
proof -
  have "FindStartCode [0, 0, 1, 5 :: byte] 0 = Some 0" "FindStartCode [0, 0, 1, 5 :: byte] 3 = None"
    by (simp_all add: FindStartCode.simps)
  then have "[0, 0, 1, 5 :: byte] \<in> set (split_nalus [0, 0, 1, 5] 0)"
    by (simp add: split_nalus_Some nalu_end_def)
  then show ?thesis by (rule split_nalus_shape)
qed

end
