(* ===== verification/Stream_Run.thy ===== *)
theory Stream_Run
  imports Stream_Facts
begin

text \<open>
  Runs of the stream reader: the blocks of one unit, the blocks of all units of a buffer,
  and of all packets a demuxer delivers. \<open>drain\<close> is the reading side of the client's loop.
\<close>

section \<open>The blocks of a unit\<close>

fun number_blocks :: "nat \<Rightarrow> u32 \<Rightarrow> u32 \<Rightarrow> bytes list \<Rightarrow> block list" where
  "number_blocks i idx tot [] = []"
| "number_blocks i idx tot (c # cs) = (c, of_nat i, idx, tot) # number_blocks (Suc i) idx tot cs"

definition blocks_of :: "u32 \<Rightarrow> bytes \<Rightarrow> block list" where
  "blocks_of idx n = (let cs = chunks blockSize n in number_blocks 0 idx (of_nat (length cs)) cs)"

text \<open>Units are numbered by a 32-bit counter.\<close>

fun units_blocks :: "u32 \<Rightarrow> bytes list \<Rightarrow> block list" where
  "units_blocks idx [] = []"
| "units_blocks idx (n # ns) = blocks_of idx n @ units_blocks (idx + 1) ns"

partial_function (option) drain :: "'e ffmpeg \<Rightarrow> 'e reader \<Rightarrow> (block list \<times> 'e reader) option" where
  "drain ff r =
     Option.bind (ReadTo ff r) (\<lambda>(n, b, r1).
       case b of
         None \<Rightarrow> Some ([], r1)
       | Some blk \<Rightarrow> Option.bind (drain ff r1) (\<lambda>(bs, r2). Some (blk # bs, r2)))"

definition prepend :: "block list \<Rightarrow> (block list \<times> 'e reader) option \<Rightarrow> (block list \<times> 'e reader) option" where
  "prepend xs res = map_option (\<lambda>(bs, r). (xs @ bs, r)) res"

lemma prepend_simps [simp]:
  "prepend [] res = res"
  "prepend xs (prepend ys res) = prepend (xs @ ys) res"
  "prepend xs (Some (bs, r)) = Some (xs @ bs, r)"
  "prepend xs None = None"
  by (cases res; simp add: prepend_def split_beta)+

lemma map_fst_number_blocks [simp]: "map fst (number_blocks i idx t cs) = cs"
  by (induction cs arbitrary: i) simp_all

lemma length_number_blocks [simp]: "length (number_blocks i idx t cs) = length cs"
  by (induction cs arbitrary: i) simp_all

lemma nth_number_blocks:
  "k < length cs \<Longrightarrow> number_blocks i idx t cs ! k = (cs ! k, of_nat (i + k), idx, t)"
proof (induction cs arbitrary: i k)
  case Nil
  then show ?case by simp
next
  case (Cons c cs)
  then show ?case by (cases k) simp_all
qed

lemma blockSize_pos [simp]: "0 < blockSize"
  by (simp add: wire_simps)

lemma blocks_of_bytes: "concat (map fst (blocks_of idx n)) = n"
  by (simp add: blocks_of_def Let_def concat_chunks)

lemma units_blocks_bytes: "concat (map fst (units_blocks idx ns)) = concat ns"
  by (induction idx ns rule: units_blocks.induct) (simp_all add: blocks_of_bytes)

text \<open>The state of the reader after the last block of its unit.\<close>

definition unit_done :: "'e reader \<Rightarrow> 'e reader" where
  "unit_done r = r\<lparr>r_currentNALU := [], r_currentNaluOffset := 0,
     r_currentNaluIndex := r_currentNaluIndex r + 1\<rparr>"

lemma ReadTo_inside:
  "r_currentNaluOffset r < length (r_currentNALU r) \<Longrightarrow> ReadTo ff r = Some (emit_block r)"
  by (auto simp: ReadTo_def)

lemma emit_block_eq:
  assumes "r_currentNaluOffset r = k * blockSize" and "k * blockSize < length (r_currentNALU r)"
  shows "emit_block r =
    (int (length (take blockSize (drop (k * blockSize) (r_currentNALU r)))),
     Some (take blockSize (drop (k * blockSize) (r_currentNALU r)), of_nat k, r_currentNaluIndex r,
           of_nat (length (chunks blockSize (r_currentNALU r)))),
     if (k + 1) * blockSize < length (r_currentNALU r)
     then r\<lparr>r_currentNaluOffset := (k + 1) * blockSize\<rparr> else unit_done r)"
  using assms
  by (auto simp: emit_block_def Let_def length_chunks unit_done_def min_def take_all_iff)

lemma drain_unit:
  assumes "r_currentNaluOffset r = k * blockSize" and "k * blockSize < length (r_currentNALU r)"
  shows "drain ff r = prepend
    (number_blocks k (r_currentNaluIndex r) (of_nat (length (chunks blockSize (r_currentNALU r))))
       (chunks blockSize (drop (k * blockSize) (r_currentNALU r))))
    (drain ff (unit_done r))"
  using assms
proof (induction "length (r_currentNALU r) - k * blockSize" arbitrary: k r rule: less_induct)
  case less
  let ?n = "r_currentNALU r" and ?i = "r_currentNaluIndex r"
  let ?t = "of_nat (length (chunks blockSize ?n)) :: u32"
  let ?c = "take blockSize (drop (k * blockSize) ?n)"
  have cs: "chunks blockSize (drop (k * blockSize) ?n) =
      ?c # chunks blockSize (drop ((k + 1) * blockSize) ?n)"
    using less.prems(2) by (subst chunks_step) (simp_all add: add.commute)
  have rd: "ReadTo ff r = Some (emit_block r)"
    using less.prems by (simp add: ReadTo_inside)
  show ?case
  proof (cases "(k + 1) * blockSize < length ?n")
    case True
    let ?r = "r\<lparr>r_currentNaluOffset := (k + 1) * blockSize\<rparr>"
    have lt: "length ?n - (k + 1) * blockSize < length ?n - k * blockSize"
      using less.prems(2) by (simp add: diff_less_mono2)
    have ud: "unit_done ?r = unit_done r" by (simp add: unit_done_def)
    have "drain ff r = prepend [(?c, of_nat k, ?i, ?t)] (drain ff ?r)"
      using True
      by (subst drain.simps)
        (simp add: rd emit_block_eq [OF less.prems] prepend_def map_option_case split: option.split)
    also have "drain ff ?r = prepend (number_blocks (k + 1) ?i ?t
        (chunks blockSize (drop ((k + 1) * blockSize) ?n))) (drain ff (unit_done r))"
      using less.hyps [of ?r "k + 1"] lt True ud by simp
    finally show ?thesis by (simp add: cs)
  next
    case False
    then have "chunks blockSize (drop ((k + 1) * blockSize) ?n) = []" by simp
    moreover have "drain ff r = prepend [(?c, of_nat k, ?i, ?t)] (drain ff (unit_done r))"
      using False
      by (subst drain.simps)
        (simp add: rd emit_block_eq [OF less.prems] prepend_def map_option_case split: option.split)
    ultimately show ?thesis by (simp add: cs)
  qed
qed

lemma drain_current_unit_aux:
  "r_currentNALU r \<noteq> [] \<Longrightarrow> r_currentNaluOffset r = 0 \<Longrightarrow>
   drain ff r = prepend (blocks_of (r_currentNaluIndex r) (r_currentNALU r))
     (drain ff (unit_done r))"
  using drain_unit [of r 0 ff] by (simp add: blocks_of_def Let_def)

text \<open>
  A reader at the start of a unit hands out all its blocks, in order, with block
  indices from 0, the index of the unit and the number of blocks, and then goes on behind
  the unit with the next unit index.
\<close>

theorem drain_current_unit:
  assumes "r_currentNALU r \<noteq> []" and "r_currentNaluOffset r = 0"
  shows "drain ff r = prepend (blocks_of (r_currentNaluIndex r) (r_currentNALU r))
    (drain ff (unit_done r))"
  using assms by (rule drain_current_unit_aux)

theorem drain_current_unit_witness:
  fixes ff :: "unit ffmpeg"
  shows "drain ff ((reader_zero ())\<lparr>r_currentNALU := [0, 0, 1, 5]\<rparr>) =
    prepend [([0, 0, 1, 5], 0, 0, 1)]
      (drain ff ((reader_zero ())\<lparr>r_currentNaluIndex := 1\<rparr>))"
proof -
  let ?r = "(reader_zero ())\<lparr>r_currentNALU := [0, 0, 1, 5]\<rparr>"
  have "r_currentNALU ?r \<noteq> []" and "r_currentNaluOffset ?r = 0"
    by (simp_all add: reader_zero_def)
  from drain_current_unit [OF this, of ff] show ?thesis
    by (simp add: blocks_of_def Let_def chunks_step wire_simps unit_done_def reader_zero_def)
qed

section \<open>The blocks of a buffer\<close>

lemma drain_extract:
  assumes "r_currentNALU r = []"
    and "ExtractNextNalu ff r = Some (True, r1)" and "r_currentNALU r1 \<noteq> []"
    and "r_currentNaluOffset r1 = 0"
  shows "drain ff r = drain ff r1"
proof -
  have "ReadTo ff r = ReadTo ff r1" using assms by (simp add: ReadTo_def)
  then show ?thesis by (simp add: drain.simps [of ff r] drain.simps [of ff r1])
qed

text \<open>The reader once all units of its buffer are handed out.\<close>

definition buffer_done :: "'e reader \<Rightarrow> 'e reader" where
  "buffer_done r =
     (let ns = split_nalus (r_streamBuffer r) (r_streamBufferOffset r)
      in if ns = [] then r
         else r\<lparr>r_streamBufferOffset := length (r_streamBuffer r), r_currentNaluOffset := 0,
                r_currentNaluIndex := r_currentNaluIndex r + of_nat (length ns)\<rparr>)"

lemma split_nalus_at_end: "split_nalus buf (length buf) = []"
  by (rule split_nalus_None) (auto simp: FindStartCode_None dest: start_code_at_length)

lemma buffer_done_step:
  assumes "FindStartCode (r_streamBuffer r) (r_streamBufferOffset r) = Some s"
    and "r_currentNALU r = []"
  shows "buffer_done (r\<lparr>r_streamBufferOffset := nalu_end (r_streamBuffer r) s,
      r_currentNALU := [], r_currentNaluOffset := 0,
      r_currentNaluIndex := r_currentNaluIndex r + 1\<rparr>) = buffer_done r"
proof (cases "split_nalus (r_streamBuffer r) (nalu_end (r_streamBuffer r) s)")
  case Nil
  let ?e = "nalu_end (r_streamBuffer r) s"
  have "?e = length (r_streamBuffer r)"
  proof (rule ccontr)
    assume "?e \<noteq> length (r_streamBuffer r)"
    with FindStartCode_nalu_end [OF assms(1)] Nil show False
      by (simp add: split_nalus_Some)
  qed
  with Nil assms show ?thesis by (simp add: buffer_done_def split_nalus_Some)
next
  case Cons
  with assms show ?thesis
    by (simp add: buffer_done_def split_nalus_Some add.assoc)
qed

lemma drain_buffer:
  assumes "r_currentNALU r = []"
  shows "drain ff r = prepend
    (units_blocks (r_currentNaluIndex r) (split_nalus (r_streamBuffer r) (r_streamBufferOffset r)))
    (drain ff (buffer_done r))"
  using assms
proof (induction "length (r_streamBuffer r) - r_streamBufferOffset r" arbitrary: r rule: less_induct)
  case less
  let ?buf = "r_streamBuffer r" and ?off = "r_streamBufferOffset r"
  show ?case
  proof (cases "FindStartCode ?buf ?off")
    case None
    then show ?thesis by (simp add: split_nalus_None buffer_done_def)
  next
    case (Some s)
    let ?e = "nalu_end ?buf s"
    let ?n = "drop s (take ?e ?buf)"
    let ?r1 = "r\<lparr>r_currentNALU := ?n, r_streamBufferOffset := ?e, r_currentNaluOffset := 0\<rparr>"
    have e: "?off < ?e" "?e \<le> length ?buf" "s < ?e"
      using nalu_end_bounds [OF Some] FindStartCode_bounds [OF Some] by simp_all
    then have n: "?n \<noteq> []" by simp
    have ex: "ExtractNextNalu ff r = Some (True, ?r1)"
      by (subst ExtractNextNalu.simps) (simp add: Some)
    have "drain ff r = drain ff ?r1"
      by (rule drain_extract [OF less.prems ex]) (use n in simp_all)
    also have "\<dots> = prepend (blocks_of (r_currentNaluIndex r) ?n) (drain ff (unit_done ?r1))"
      using drain_current_unit_aux [of ?r1 ff] n by simp
    also have "drain ff (unit_done ?r1) = prepend
        (units_blocks (r_currentNaluIndex r + 1) (split_nalus ?buf ?e)) (drain ff (buffer_done r))"
      using less.hyps [of "unit_done ?r1"] e buffer_done_step [OF Some less.prems]
      by (simp add: unit_done_def)
    finally show ?thesis by (simp add: split_nalus_Some [OF Some])
  qed
qed

section \<open>The blocks of a demuxed file\<close>

text \<open>
  What an unfiltered demuxer in state \<open>env\<close> delivers for the stream \<open>vid\<close>: the data of the
  packets of that stream, up to the end of the file. Packets of other streams are skipped.
\<close>

inductive demuxes :: "'e ffmpeg \<Rightarrow> int \<Rightarrow> 'e \<Rightarrow> bytes list \<Rightarrow> bool" for ff vid where
  demux_eof: "av_read_frame ff env = (rd, p, env') \<Longrightarrow> rd < 0 \<Longrightarrow> rd = averror_eof ff \<Longrightarrow>
     demuxes ff vid env []"
| demux_skip: "av_read_frame ff env = (rd, p, env') \<Longrightarrow> 0 \<le> rd \<Longrightarrow> pkt_stream_index p \<noteq> vid \<Longrightarrow>
     demuxes ff vid env' ds \<Longrightarrow> demuxes ff vid env ds"
| demux_take: "av_read_frame ff env = (rd, p, env') \<Longrightarrow> 0 \<le> rd \<Longrightarrow> pkt_stream_index p = vid \<Longrightarrow>
     pkt_data p = Some d \<Longrightarrow> pkt_size p = int (length d) \<Longrightarrow>
     demuxes ff vid env' ds \<Longrightarrow> demuxes ff vid env (d # ds)"

text \<open>Updates of the reader in one order; what became of the resources is kept apart.\<close>

lemma reader_order:
  "r_env_update f (r_resources_update g r) = r_resources_update g (r_env_update f r)"
  "r_avPacket_update f1 (r_resources_update g r) = r_resources_update g (r_avPacket_update f1 r)"
  "r_env_update f (r_avPacket_update f1 r) = r_avPacket_update f1 (r_env_update f r)"
  by simp_all

lemmas resource_simps = acquire_def release_def reader_order

lemma read_unfiltered_demuxes:
  assumes "demuxes ff vid (r_env r) ds" and "r_videoStreamId r = vid"
  shows "case ds of
      [] \<Rightarrow> \<exists>env p ev. read_unfiltered ff r = Some (0, r\<lparr>r_env := env, r_avPacket := p, r_resources := ev\<rparr>)
    | d # ds' \<Rightarrow> \<exists>env p ev. read_unfiltered ff r =
        Some (1, r\<lparr>r_env := env, r_avPacket := p, r_resources := ev, r_videoStreamPosition := 0\<rparr>) \<and>
        pkt_data p = Some d \<and> pkt_size p = int (length d) \<and> demuxes ff vid env ds'"
  using assms
proof (induction "r_env r" ds arbitrary: r)
  case (demux_eof rd p env')
  let ?ev = "r_resources r @ [Released TempAvPacket]"
  have "read_unfiltered ff r =
      Some (0, r\<lparr>r_env := env', r_avPacket := r_avPacket r, r_resources := ?ev\<rparr>)"
    using demux_eof by (subst read_unfiltered.simps) (simp add: release_def)
  then show ?case unfolding list.case by blast
next
  case (demux_skip rd p env' ds)
  let ?r = "r\<lparr>r_env := env'\<rparr>"
  have "read_unfiltered ff r = read_unfiltered ff ?r"
    using demux_skip by (subst read_unfiltered.simps) simp
  with demux_skip.hyps(5) [of ?r] demux_skip.prems show ?case
    by (simp split: list.splits)
next
  case (demux_take rd p env' d ds)
  then show ?case by (subst read_unfiltered.simps) (auto simp: resource_simps)
qed

text \<open>
  What the demuxer and the bit stream filter together deliver: whatever number of packets the
  filter takes before it gives one, and the flush at the end. Once a packet has been given,
  the next read starts again without having sent the null packet.
\<close>

inductive filters :: "'e ffmpeg \<Rightarrow> int \<Rightarrow> bool \<Rightarrow> 'e \<Rightarrow> bytes list \<Rightarrow> bool" for ff vid where
  filter_eof: "av_bsf_receive_packet ff env = (ret, p, env') \<Longrightarrow> ret \<noteq> 0 \<Longrightarrow> ret \<noteq> averror_eagain ff \<Longrightarrow>
     ret = averror_eof ff \<Longrightarrow> filters ff vid sent env []"
| filter_empty: "av_bsf_receive_packet ff env = (0, p, env') \<Longrightarrow> pkt_size p \<le> 0 \<or> pkt_data p = None \<Longrightarrow>
     filters ff vid sent env' ds \<Longrightarrow> filters ff vid sent env ds"
| filter_take: "av_bsf_receive_packet ff env = (0, p, env') \<Longrightarrow> pkt_data p = Some d \<Longrightarrow>
     pkt_size p = int (length d) \<Longrightarrow> d \<noteq> [] \<Longrightarrow> filters ff vid False env' ds \<Longrightarrow> filters ff vid sent env (d # ds)"
| filter_feed: "av_bsf_receive_packet ff env = (ret, p, ea) \<Longrightarrow> ret \<noteq> 0 \<Longrightarrow> ret = averror_eagain ff \<Longrightarrow>
     av_read_frame ff ea = (rd, t, eb) \<Longrightarrow> 0 \<le> rd \<Longrightarrow> pkt_stream_index t = vid \<Longrightarrow>
     av_bsf_send_packet ff (Some t) eb = (sd, ec) \<Longrightarrow> 0 \<le> sd \<Longrightarrow>
     filters ff vid False ec ds \<Longrightarrow> filters ff vid False env ds"
| filter_skip: "av_bsf_receive_packet ff env = (ret, p, ea) \<Longrightarrow> ret \<noteq> 0 \<Longrightarrow> ret = averror_eagain ff \<Longrightarrow>
     av_read_frame ff ea = (rd, t, eb) \<Longrightarrow> 0 \<le> rd \<Longrightarrow> pkt_stream_index t \<noteq> vid \<Longrightarrow>
     filters ff vid False eb ds \<Longrightarrow> filters ff vid False env ds"
| filter_flush: "av_bsf_receive_packet ff env = (ret, p, ea) \<Longrightarrow> ret \<noteq> 0 \<Longrightarrow> ret = averror_eagain ff \<Longrightarrow>
     av_read_frame ff ea = (rd, t, eb) \<Longrightarrow> rd < 0 \<Longrightarrow> rd = averror_eof ff \<Longrightarrow>
     av_bsf_send_packet ff None eb = (sd, ec) \<Longrightarrow> 0 \<le> sd \<Longrightarrow>
     filters ff vid True ec ds \<Longrightarrow> filters ff vid False env ds"

lemma read_filtered_gives:
  assumes "filters ff vid sent (r_env r) ds" and "r_videoStreamId r = vid"
    and "\<forall>env. av_packet_alloc ff env = (True, env)"
  shows "case ds of
      [] \<Rightarrow> \<exists>env p ev. read_filtered ff sent r = Some (0, r\<lparr>r_env := env, r_avPacket := p, r_resources := ev\<rparr>)
    | d # ds' \<Rightarrow> \<exists>env p ev. read_filtered ff sent r =
        Some (1, r\<lparr>r_env := env, r_avPacket := p, r_resources := ev, r_videoStreamPosition := 0\<rparr>) \<and>
        pkt_data p = Some d \<and> pkt_size p = int (length d) \<and> filters ff vid False env ds'"
  using assms(1,2)
proof (induction sent "r_env r" ds arbitrary: r)
  case (filter_eof ret p env' sent)
  have "read_filtered ff sent r =
      Some (0, r\<lparr>r_env := env', r_avPacket := blank_packet, r_resources := r_resources r\<rparr>)"
    using filter_eof by (subst read_filtered.simps) simp
  then show ?case unfolding list.case by blast
next
  case (filter_empty p env' sent ds)
  let ?r = "r\<lparr>r_env := env', r_avPacket := blank_packet\<rparr>"
  have "read_filtered ff sent r = read_filtered ff sent ?r"
    using filter_empty by (subst read_filtered.simps) simp
  with filter_empty.hyps(4) [of ?r] filter_empty.prems show ?case
    by (simp add: reader_order split: list.splits)
next
  case (filter_take p env' d ds sent)
  have "read_filtered ff sent r = Some (1, r\<lparr>r_env := env', r_avPacket := p,
      r_resources := r_resources r, r_videoStreamPosition := 0\<rparr>)"
    using filter_take by (subst read_filtered.simps) simp
  with filter_take show ?case unfolding list.case by blast
next
  case (filter_feed ret p env1 rd t env2 sd env3 ds)
  let ?ev = "r_resources r @ [Acquired TempAvPacket, Released TempAvPacket]"
  let ?r = "r\<lparr>r_env := env3, r_avPacket := p, r_resources := ?ev\<rparr>"
  have "read_filtered ff False r = read_filtered ff False ?r"
    using filter_feed assms(3) by (subst read_filtered.simps) (simp add: resource_simps)
  with filter_feed.hyps(10) [of ?r] filter_feed.prems show ?case
    by (simp add: reader_order split: list.splits)
next
  case (filter_skip ret p env1 rd t env2 ds)
  let ?ev = "r_resources r @ [Acquired TempAvPacket, Released TempAvPacket]"
  let ?r = "r\<lparr>r_env := env2, r_avPacket := p, r_resources := ?ev\<rparr>"
  have "read_filtered ff False r = read_filtered ff False ?r"
    using filter_skip assms(3) by (subst read_filtered.simps) (simp add: resource_simps)
  with filter_skip.hyps(8) [of ?r] filter_skip.prems show ?case
    by (simp add: reader_order split: list.splits)
next
  case (filter_flush ret p env1 rd t env2 sd env3 ds)
  let ?ev = "r_resources r @ [Acquired TempAvPacket, Released TempAvPacket]"
  let ?r = "r\<lparr>r_env := env3, r_avPacket := p, r_resources := ?ev\<rparr>"
  have "read_filtered ff False r = read_filtered ff True ?r"
    using filter_flush assms(3) by (subst read_filtered.simps) (simp add: resource_simps)
  with filter_flush.hyps(10) [of ?r] filter_flush.prems show ?case
    by (simp add: reader_order split: list.splits)
qed

text \<open>Raw files are read without the filter, all others through it.\<close>

definition packets_of :: "'e ffmpeg \<Rightarrow> bool \<Rightarrow> int \<Rightarrow> 'e \<Rightarrow> bytes list \<Rightarrow> bool" where
  "packets_of ff filtered vid env ds \<longleftrightarrow>
     (if filtered then filters ff vid False env ds else demuxes ff vid env ds)"

lemma drain_fill:
  assumes "r_currentNALU r = []"
    and "FindStartCode (r_streamBuffer r) (r_streamBufferOffset r) = None"
    and "FillStreamBuffer ff r = Some (ok, r1)"
    and "r_currentNALU r1 = []"
  shows "drain ff r = (if ok then drain ff r1 else Some ([], r1))"
proof -
  have "ExtractNextNalu ff r = (if ok then ExtractNextNalu ff r1 else Some (False, r1))"
    using assms(2,3) by (subst ExtractNextNalu.simps) simp
  then have "ReadTo ff r = (if ok then ReadTo ff r1 else Some (0, None, r1))"
    using assms(1,4) by (simp add: ReadTo_def)
  then show ?thesis
    by (auto simp: drain.simps [of ff r] drain.simps [of ff r1])
qed

lemma split_nalus_shift:
  "split_nalus (pre @ d) (length pre + i) = split_nalus d i"
proof (induction d i rule: split_nalus_induct)
  case (1 d i)
  show ?case
  proof (cases "FindStartCode d i")
    case None
    then show ?thesis by (simp add: split_nalus_None FindStartCode_shift)
  next
    case (Some s)
    have e: "nalu_end (pre @ d) (length pre + s) = length pre + nalu_end d s"
      using FindStartCode_shift [of pre d "s + 3"]
      by (simp add: nalu_end_def add.assoc split: option.split)
    from Some have "FindStartCode (pre @ d) (length pre + i) = Some (length pre + s)"
      by (simp add: FindStartCode_shift)
    with 1 [OF Some] Some e show ?thesis by (simp add: split_nalus_Some)
  qed
qed

lemma units_blocks_append:
  "units_blocks idx (ms @ ns) = units_blocks idx ms @ units_blocks (idx + of_nat (length ms)) ns"
  by (induction idx ms rule: units_blocks.induct) (simp_all add: add.assoc)

text \<open>Allocation succeeds, all units so far are handed out.\<close>

definition ready_for_packet :: "'e ffmpeg \<Rightarrow> 'e reader \<Rightarrow> bool" where
  "ready_for_packet ff r \<longleftrightarrow> (\<forall>env. av_packet_alloc ff env = (True, env)) \<and>
     r_currentNALU r = [] \<and> r_streamBufferOffset r = length (r_streamBuffer r)"

lemma ReadPacket_packets:
  assumes "ready_for_packet ff r"
    and "packets_of ff (r_bitStreamFilter r) (r_videoStreamId r) (r_env r) ds"
  shows "case ds of
      [] \<Rightarrow> \<exists>env p ev. ReadPacketFromStream ff r = Some (0, r\<lparr>r_env := env, r_avPacket := p, r_resources := ev\<rparr>)
    | d # ds' \<Rightarrow> \<exists>env p ev. ReadPacketFromStream ff r =
        Some (1, r\<lparr>r_env := env, r_avPacket := p, r_resources := ev, r_videoStreamPosition := 0\<rparr>) \<and>
        pkt_data p = Some d \<and> pkt_size p = int (length d) \<and>
        packets_of ff (r_bitStreamFilter r) (r_videoStreamId r) env ds'"
proof (cases "r_bitStreamFilter r")
  case True
  then have "filters ff (r_videoStreamId r) False (r_env r) ds" using assms(2) by (simp add: packets_of_def)
  from read_filtered_gives [OF this refl] assms(1) True show ?thesis
    by (simp add: ReadPacketFromStream_def ready_for_packet_def packets_of_def cong: list.case_cong)
next
  case False
  then have "demuxes ff (r_videoStreamId r) (r_env r) ds" using assms(2) by (simp add: packets_of_def)
  then have "demuxes ff (r_videoStreamId r)
      (r_env (r\<lparr>r_resources := r_resources r @ [Acquired TempAvPacket]\<rparr>)) ds" by simp
  from read_unfiltered_demuxes [OF this] assms(1) False show ?thesis
    by (simp add: ReadPacketFromStream_def ready_for_packet_def packets_of_def resource_simps
        cong: list.case_cong)
qed

lemma Fill_packets:
  assumes "ready_for_packet ff r"
    and "packets_of ff (r_bitStreamFilter r) (r_videoStreamId r) (r_env r) ds"
  shows "case ds of
      [] \<Rightarrow> \<exists>env p ev. FillStreamBuffer ff r = Some (False, r\<lparr>r_env := env, r_avPacket := p, r_resources := ev\<rparr>)
    | d # ds' \<Rightarrow> \<exists>env ev. FillStreamBuffer ff r =
        Some (True, r\<lparr>r_env := env, r_resources := ev, r_videoStreamPosition := 0,
          r_streamBuffer := r_streamBuffer r @ d, r_avPacket := blank_packet\<rparr>) \<and>
        packets_of ff (r_bitStreamFilter r) (r_videoStreamId r) env ds'"
proof (cases ds)
  case Nil
  with ReadPacket_packets [OF assms] obtain env p ev where
    "ReadPacketFromStream ff r = Some (0, r\<lparr>r_env := env, r_avPacket := p, r_resources := ev\<rparr>)" by auto
  then have "FillStreamBuffer ff r = Some (False, r\<lparr>r_env := env, r_avPacket := p, r_resources := ev\<rparr>)"
    by (simp add: FillStreamBuffer_def)
  with Nil show ?thesis by (simp only: list.case) (rule exI [of _ env], rule exI [of _ p], rule exI [of _ ev], rule refl)
next
  case (Cons d ds')
  with ReadPacket_packets [OF assms] obtain env p ev where
    read: "ReadPacketFromStream ff r = Some (1, r\<lparr>r_env := env, r_avPacket := p, r_resources := ev, r_videoStreamPosition := 0\<rparr>)"
    and p: "pkt_data p = Some d" "pkt_size p = int (length d)"
    and rest: "packets_of ff (r_bitStreamFilter r) (r_videoStreamId r) env ds'" by auto
  have "FillStreamBuffer ff r = Some (True, r\<lparr>r_env := env, r_resources := ev, r_videoStreamPosition := 0,
      r_streamBuffer := r_streamBuffer r @ d, r_avPacket := blank_packet\<rparr>)"
    using read p by (simp add: FillStreamBuffer_def)
  with rest Cons show ?thesis by (simp only: list.case) (rule exI [of _ env], rule exI [of _ ev], simp)
qed

lemma drain_file_aux:
  assumes "ready_for_packet ff r"
    and "packets_of ff (r_bitStreamFilter r) (r_videoStreamId r) (r_env r) ds"
    and "\<forall>d \<in> set ds. start_code_at d 0"
  shows "\<exists>r'. drain ff r =
    Some (units_blocks (r_currentNaluIndex r) (concat (map (\<lambda>d. split_nalus d 0) ds)), r')"
  using assms
proof (induction ds arbitrary: r)
  case Nil
  from Nil.prems(1) have none: "FindStartCode (r_streamBuffer r) (r_streamBufferOffset r) = None"
    by (auto simp: ready_for_packet_def FindStartCode_None dest: start_code_at_length)
  from Fill_packets [OF Nil.prems(1,2)] obtain env p ev where
    "FillStreamBuffer ff r = Some (False, r\<lparr>r_env := env, r_avPacket := p, r_resources := ev\<rparr>)" by auto
  from drain_fill [OF _ none this] Nil.prems(1) show ?case
    by (simp add: ready_for_packet_def)
next
  case (Cons d ds)
  from Cons.prems(1) have none: "FindStartCode (r_streamBuffer r) (r_streamBufferOffset r) = None"
    and nalu: "r_currentNALU r = []"
    by (auto simp: ready_for_packet_def FindStartCode_None dest: start_code_at_length)
  from Fill_packets [OF Cons.prems(1,2)] obtain env ev where
    fill: "FillStreamBuffer ff r =
        Some (True, r\<lparr>r_env := env, r_resources := ev, r_videoStreamPosition := 0,
          r_streamBuffer := r_streamBuffer r @ d, r_avPacket := blank_packet\<rparr>)"
    and rest: "packets_of ff (r_bitStreamFilter r) (r_videoStreamId r) env ds" by auto
  let ?r1 = "r\<lparr>r_env := env, r_resources := ev, r_videoStreamPosition := 0,
          r_streamBuffer := r_streamBuffer r @ d, r_avPacket := blank_packet\<rparr>"
  have split: "split_nalus (r_streamBuffer ?r1) (r_streamBufferOffset ?r1) = split_nalus d 0"
    using split_nalus_shift [of "r_streamBuffer r" d 0] Cons.prems(1)
    by (simp add: ready_for_packet_def)
  have ne: "split_nalus d 0 \<noteq> []"
    using Cons.prems(3) by (simp add: split_nalus_Some [of d 0 0] FindStartCode_step)
  let ?r2 = "buffer_done ?r1"
  have r2: "ready_for_packet ff ?r2" "r_videoStreamId ?r2 = r_videoStreamId r" "r_env ?r2 = env"
      "r_bitStreamFilter ?r2 = r_bitStreamFilter r" "r_currentNaluIndex ?r2 = r_currentNaluIndex r + of_nat (length (split_nalus d 0))"
    using Cons.prems(1) split ne by (simp_all add: buffer_done_def Let_def ready_for_packet_def)
  from Cons.IH [of ?r2] r2 rest Cons.prems(3) obtain r' where
    IH: "drain ff ?r2 = Some (units_blocks (r_currentNaluIndex r +
        of_nat (length (split_nalus d 0))) (concat (map (\<lambda>d. split_nalus d 0) ds)), r')"
    by auto
  have "drain ff r = drain ff ?r1"
    using drain_fill [OF nalu none fill] nalu by simp
  also have "\<dots> = prepend (units_blocks (r_currentNaluIndex r) (split_nalus d 0)) (drain ff ?r2)"
    using drain_buffer [of ?r1 ff] nalu split by simp
  finally show ?case by (simp add: IH units_blocks_append)
qed

text \<open>
  C13: Over a file whose packets (those of the demuxer for a raw H.264 file, those of the bit
  stream filter for any other) begin with a start code, the reader hands out, for each unit of
  each packet in order, its numbered blocks, and then reports the end; the bytes of all blocks
  are the bytes of the packets.
\<close>

theorem drain_file:
  assumes "ready_for_packet ff r"
    and "packets_of ff (r_bitStreamFilter r) (r_videoStreamId r) (r_env r) ds"
    and "\<forall>d \<in> set ds. start_code_at d 0"
  shows "\<exists>bs r'. drain ff r = Some (bs, r') \<and>
    bs = units_blocks (r_currentNaluIndex r) (concat (map (\<lambda>d. split_nalus d 0) ds)) \<and>
    concat (map fst bs) = concat ds"
proof -
  have "concat (concat (map (\<lambda>d. split_nalus d 0) ds)) = concat ds"
    using assms(3)
  proof (induction ds)
    case (Cons d ds)
    then have "FindStartCode d 0 = Some 0" by (simp add: FindStartCode_step)
    from split_nalus_concat_aux [OF this] Cons show ?case by simp
  qed simp
  with drain_file_aux [OF assms] show ?thesis by (auto simp: units_blocks_bytes)
qed

text \<open>A demuxer over a list of packets, for the witnesses.\<close>

definition list_ffmpeg :: "av_packet list ffmpeg" where
  "list_ffmpeg =
     \<lparr>av_read_frame = (\<lambda>ps. case ps of [] \<Rightarrow> (-541478725, blank_packet, []) | p # ps' \<Rightarrow> (0, p, ps')),
      av_bsf_receive_packet = (\<lambda>ps. (-541478725, blank_packet, ps)),
      av_bsf_send_packet = (\<lambda>p ps. (0, ps)),
      av_packet_alloc = (\<lambda>ps. (True, ps)),
      averror_eagain = -11, averror_eof = -541478725\<rparr>"

definition data_packet :: "bytes \<Rightarrow> av_packet" where
  "data_packet d = \<lparr>pkt_size = int (length d), pkt_data = Some d, pkt_stream_index = 0\<rparr>"

lemma demuxes_list: "demuxes list_ffmpeg 0 (map data_packet ds) ds"
proof (induction ds)
  case Nil
  show ?case by (rule demux_eof) (simp_all add: list_ffmpeg_def)
next
  case (Cons d ds)
  then show ?case
    by (intro demux_take [where p = "data_packet d" and rd = 0])
      (simp_all add: list_ffmpeg_def data_packet_def)
qed

definition list_reader :: "bytes list \<Rightarrow> av_packet list reader" where
  "list_reader ds = (reader_zero (map data_packet ds))\<lparr>r_formatContext := True, r_videoStreamId := 0\<rparr>"

text \<open>A demuxer with a filter that gives back each packet it is sent, and the end after a flush.\<close>

definition relay_ffmpeg :: "(av_packet list \<times> av_packet option \<times> bool) ffmpeg" where
  "relay_ffmpeg =
     \<lparr>av_read_frame = (\<lambda>(ps, held, fl). case ps of
        [] \<Rightarrow> (-541478725, blank_packet, ps, held, fl) | p # ps' \<Rightarrow> (0, p, ps', held, fl)),
      av_bsf_receive_packet = (\<lambda>(ps, held, fl). case held of
        Some p \<Rightarrow> (0, p, ps, None, fl)
      | None \<Rightarrow> (if fl then -541478725 else -11, blank_packet, ps, None, fl)),
      av_bsf_send_packet = (\<lambda>pkt (ps, held, fl). (0, ps, pkt, pkt = None)),
      av_packet_alloc = (\<lambda>env. (True, env)),
      averror_eagain = -11, averror_eof = -541478725\<rparr>"

lemma filters_relay: "[] \<notin> set ds \<Longrightarrow> filters relay_ffmpeg 0 False (map data_packet ds, None, False) ds"
proof (induction ds)
  case Nil
  have "filters relay_ffmpeg 0 True ([], None, True) []"
    by (rule filter_eof) (simp_all add: relay_ffmpeg_def)
  then show ?case
    by (intro filter_flush [where ret = "-11" and p = blank_packet and ea = "([], None, False)" and
          rd = "-541478725" and t = blank_packet and eb = "([], None, False)" and sd = 0 and
          ec = "([], None, True)"]) (simp_all add: relay_ffmpeg_def)
next
  case (Cons d ds)
  let ?rest = "map data_packet ds"
  from Cons have d: "d \<noteq> []" and IH: "filters relay_ffmpeg 0 False (?rest, None, False) ds" by auto
  have fed: "filters relay_ffmpeg 0 False (?rest, Some (data_packet d), False) (d # ds)"
    by (rule filter_take [where p = "data_packet d", OF _ _ _ d IH])
      (simp_all add: relay_ffmpeg_def data_packet_def)
  show ?case
    by (rule filter_feed [where ret = "-11" and p = blank_packet and
          ea = "(map data_packet (d # ds), None, False)" and rd = 0 and t = "data_packet d" and
          eb = "(?rest, None, False)" and sd = 0, OF _ _ _ _ _ _ _ _ fed])
      (simp_all add: relay_ffmpeg_def data_packet_def)
qed

theorem drain_file_witness:
  "(\<exists>bs r'. drain list_ffmpeg (list_reader [[0, 0, 1, 5], [0, 0, 1, 6]]) = Some (bs, r') \<and>
     concat (map fst bs) = [0, 0, 1, 5, 0, 0, 1, 6]) \<and>
   (\<exists>bs r'. drain relay_ffmpeg ((reader_zero (map data_packet [[0, 0, 1, 5], [0, 0, 1, 6]], None, False))
        \<lparr>r_bitStreamFilter := True, r_videoStreamId := 0\<rparr>) = Some (bs, r') \<and>
     concat (map fst bs) = [0, 0, 1, 5, 0, 0, 1, 6])"
proof -
  let ?ds = "[[0, 0, 1, 5], [0, 0, 1, 6]] :: bytes list"
  have sc: "\<forall>d \<in> set ?ds. start_code_at d 0" by (simp add: start_code_at_def)
  let ?r = "list_reader ?ds"
  have "ready_for_packet list_ffmpeg ?r"
    by (simp add: ready_for_packet_def list_reader_def reader_zero_def list_ffmpeg_def)
  moreover have "packets_of list_ffmpeg (r_bitStreamFilter ?r) (r_videoStreamId ?r) (r_env ?r) ?ds"
    using demuxes_list [of ?ds] by (simp add: list_reader_def reader_zero_def packets_of_def)
  moreover let ?f = "(reader_zero (map data_packet ?ds, None, False))\<lparr>r_bitStreamFilter := True, r_videoStreamId := 0\<rparr>"
  have "ready_for_packet relay_ffmpeg ?f"
    by (simp add: ready_for_packet_def reader_zero_def relay_ffmpeg_def)
  moreover have "packets_of relay_ffmpeg (r_bitStreamFilter ?f) (r_videoStreamId ?f) (r_env ?f) ?ds"
    using filters_relay [of ?ds] by (simp add: reader_zero_def packets_of_def)
  ultimately show ?thesis using drain_file [OF _ _ sc, of list_ffmpeg ?r] drain_file [OF _ _ sc, of relay_ffmpeg ?f]
    by auto
qed

end
