(* ===== verification/Stream_Termination.thy ===== *)
theory Stream_Termination
  imports Stream_Run
begin

text \<open>
  Every call of the stream reader returns when the input is finite: the loops over the
  demuxer and the bit stream filter, the search for the next unit, \<open>ReadTo\<close> and the whole
  reading side of the client. \<open>finite_stream ff m\<close> is the behaviour of FFmpeg this rests on:
  \<open>m\<close> bounds what is still to come, a packet that is read takes at least two from it and
  gives back at most one when it is sent to the filter, a packet taken out of the filter
  takes one.
\<close>

definition finite_stream :: "'e ffmpeg \<Rightarrow> ('e \<Rightarrow> nat) \<Rightarrow> bool" where
  "finite_stream ff m \<longleftrightarrow>
     (\<forall>e rd p e'. av_read_frame ff e = (rd, p, e') \<longrightarrow> m e' + (if 0 \<le> rd then 2 else 0) \<le> m e) \<and>
     (\<forall>e ret p e'. av_bsf_receive_packet ff e = (ret, p, e') \<longrightarrow>
        m e' + (if ret = 0 then 1 else 0) \<le> m e) \<and>
     (\<forall>p e sd e'. av_bsf_send_packet ff (Some p) e = (sd, e') \<longrightarrow> m e' \<le> m e + 1) \<and>
     (\<forall>e sd e'. av_bsf_send_packet ff None e = (sd, e') \<longrightarrow> m e' \<le> m e) \<and>
     (\<forall>e ok e'. av_packet_alloc ff e = (ok, e') \<longrightarrow> m e' \<le> m e)"

lemma finite_streamD:
  assumes "finite_stream ff m"
  shows "av_read_frame ff e = (rd, p, e') \<Longrightarrow> m e' + (if 0 \<le> rd then 2 else 0) \<le> m e"
    and "av_bsf_receive_packet ff e = (ret, p, e') \<Longrightarrow> m e' + (if ret = 0 then 1 else 0) \<le> m e"
    and "av_bsf_send_packet ff (Some p) e = (sd, e') \<Longrightarrow> m e' \<le> m e + 1"
    and "av_bsf_send_packet ff None e = (sd, e') \<Longrightarrow> m e' \<le> m e"
    and "av_packet_alloc ff e = (ok, e') \<Longrightarrow> m e' \<le> m e"
  using assms unfolding finite_stream_def by blast+

text \<open>What reading one packet keeps, and what it takes.\<close>

definition read_step :: "('e \<Rightarrow> nat) \<Rightarrow> 'e reader \<Rightarrow> (int \<times> 'e reader) option \<Rightarrow> bool" where
  "read_step m r res \<longleftrightarrow>
     (\<exists>ret r'. res = Some (ret, r') \<and> ret \<in> {-1, 0, 1} \<and>
        m (r_env r') + (if ret = 1 then 1 else 0) \<le> m (r_env r) \<and>
        r_streamBuffer r' = r_streamBuffer r \<and> r_streamBufferOffset r' = r_streamBufferOffset r \<and>
        r_currentNALU r' = r_currentNALU r \<and> r_currentNaluOffset r' = r_currentNaluOffset r)"

lemma read_step_Some:
  assumes "ret \<in> {-1, 0, 1}" and "m (r_env r') + (if ret = 1 then 1 else 0) \<le> m (r_env r)"
    and "r_streamBuffer r' = r_streamBuffer r" "r_streamBufferOffset r' = r_streamBufferOffset r"
      "r_currentNALU r' = r_currentNALU r" "r_currentNaluOffset r' = r_currentNaluOffset r"
  shows "read_step m r (Some (ret, r'))"
  unfolding read_step_def using assms by blast

lemma read_step_weaken:
  assumes "read_step m r1 res" and "m (r_env r1) \<le> m (r_env r)"
    and "r_streamBuffer r1 = r_streamBuffer r" "r_streamBufferOffset r1 = r_streamBufferOffset r"
      "r_currentNALU r1 = r_currentNALU r" "r_currentNaluOffset r1 = r_currentNaluOffset r"
  shows "read_step m r res"
proof -
  from assms(1) obtain ret r' where res: "res = Some (ret, r')" and "ret \<in> {-1, 0, 1}"
    and le: "m (r_env r') + (if ret = 1 then 1 else 0) \<le> m (r_env r1)"
    and "r_streamBuffer r' = r_streamBuffer r1" "r_streamBufferOffset r' = r_streamBufferOffset r1"
      "r_currentNALU r' = r_currentNALU r1" "r_currentNaluOffset r' = r_currentNaluOffset r1"
    unfolding read_step_def by blast
  then show ?thesis
    unfolding res using assms(2-6) le by (intro read_step_Some) simp_all
qed

lemma reader_log_fields [simp]:
  "r_env (reader_log l s a r) = r_env r" "r_streamBuffer (reader_log l s a r) = r_streamBuffer r"
  "r_streamBufferOffset (reader_log l s a r) = r_streamBufferOffset r"
  "r_currentNALU (reader_log l s a r) = r_currentNALU r"
  "r_currentNaluOffset (reader_log l s a r) = r_currentNaluOffset r"
  by (simp_all add: reader_log_def)

lemma read_unfiltered_returns:
  assumes fin: "finite_stream ff m"
  shows "read_step m r (read_unfiltered ff r)"
proof (induction "m (r_env r)" arbitrary: r rule: less_induct)
  case less
  obtain rd p e where rd: "av_read_frame ff (r_env r) = (rd, p, e)" by (metis prod_cases3)
  note le = finite_streamD(1) [OF fin rd]
  show ?case
  proof (cases "0 \<le> rd \<and> pkt_stream_index p \<noteq> r_videoStreamId r")
    case True
    then have "read_step m (r\<lparr>r_env := e\<rparr>) (read_unfiltered ff (r\<lparr>r_env := e\<rparr>))"
      using le by (intro less.hyps) simp
    then show ?thesis
      using True rd le
      by (subst read_unfiltered.simps) (auto elim!: read_step_weaken)
  next
    case False
    then show ?thesis
      using rd le
      by (subst read_unfiltered.simps) (auto simp: Let_def intro!: read_step_Some split: if_splits)
  qed
qed

text \<open>
  One round of the loop over the filter: it returns, or it goes on in a state that is
  smaller in twice the bound plus one as long as the null packet has not been sent.
\<close>

definition filter_measure :: "('e \<Rightarrow> nat) \<Rightarrow> bool \<Rightarrow> 'e \<Rightarrow> nat" where
  "filter_measure m sentNull env = 2 * m env + (if sentNull then 0 else 1)"

text \<open>What a state with which the loop goes on has in common with the one it had.\<close>

definition goes_on :: "('e \<Rightarrow> nat) \<Rightarrow> bool \<Rightarrow> 'e reader \<Rightarrow> bool \<Rightarrow> 'e reader \<Rightarrow> bool" where
  "goes_on m s r s' r' \<longleftrightarrow> filter_measure m s' (r_env r') < filter_measure m s (r_env r) \<and>
     m (r_env r') \<le> m (r_env r) \<and> r_streamBuffer r' = r_streamBuffer r \<and>
     r_streamBufferOffset r' = r_streamBufferOffset r \<and> r_currentNALU r' = r_currentNALU r \<and>
     r_currentNaluOffset r' = r_currentNaluOffset r"

lemma read_filtered_fed:
  assumes fin: "finite_stream ff m" and rc: "av_bsf_receive_packet ff (r_env r) = (ret, pkt, e0)"
    and again: "ret \<noteq> 0" "ret = averror_eagain ff" "\<not> s" and al: "av_packet_alloc ff e0 = (True, e1)"
    and rest: "\<And>s' r'. goes_on m s r s' r' \<Longrightarrow> read_step m r (read_filtered ff s' r')"
  shows "read_step m r (read_filtered ff s r)"
proof -
  obtain rd temp e2 where rd: "av_read_frame ff e1 = (rd, temp, e2)" by (metis prod_cases3)
  obtain sn e3 where sn: "av_bsf_send_packet ff None e2 = (sn, e3)" by fastforce
  obtain sd e4 where sd: "av_bsf_send_packet ff (Some temp) e2 = (sd, e4)" by fastforce
  note le = finite_streamD(2) [OF fin rc] finite_streamD(5) [OF fin al]
    finite_streamD(1) [OF fin rd] finite_streamD(4) [OF fin sn] finite_streamD(3) [OF fin sd]
  note round = read_filtered.simps [of ff s r]
  show ?thesis
  proof (cases "rd < 0")
    case True
    with again le(1-4) show ?thesis
      by (subst round) (auto simp: rc al rd sn Let_def goes_on_def filter_measure_def
          intro!: rest read_step_Some)
  next
    case False
    with again le(1-3,5) show ?thesis
      by (subst round) (auto simp: rc al rd sd Let_def goes_on_def filter_measure_def
          intro!: rest read_step_Some)
  qed
qed

lemma read_filtered_round:
  assumes fin: "finite_stream ff m"
    and rest: "\<And>s' r'. goes_on m s r s' r' \<Longrightarrow> read_step m r (read_filtered ff s' r')"
  shows "read_step m r (read_filtered ff s r)"
proof -
  obtain ret pkt e0 where rc: "av_bsf_receive_packet ff (r_env r) = (ret, pkt, e0)"
    by (metis prod_cases3)
  obtain ok e1 where al: "av_packet_alloc ff e0 = (ok, e1)" by fastforce
  note le = finite_streamD(2) [OF fin rc] finite_streamD(5) [OF fin al]
  note one = read_filtered.simps [of ff s r]
  consider "ret = 0" | "ret \<noteq> 0" "ret = averror_eagain ff" "\<not> s" "ok"
    | "ret \<noteq> 0" "ret = averror_eagain ff" "s" | "ret \<noteq> 0" "ret = averror_eagain ff" "\<not> s" "\<not> ok"
    | "ret \<noteq> 0" "ret \<noteq> averror_eagain ff" by blast
  then show ?thesis
  proof cases
    case 1
    with le(1) show ?thesis
      by (subst one) (auto simp: rc goes_on_def filter_measure_def intro!: rest read_step_Some)
  next
    case 2
    with read_filtered_fed [OF fin rc 2(1-3) _ rest] al show ?thesis by simp
  next
    case 3
    with le show ?thesis by (subst one) (auto simp: rc intro!: read_step_Some)
  next
    case 4
    with le show ?thesis by (subst one) (auto simp: rc al intro!: read_step_Some)
  next
    case 5
    with le show ?thesis by (subst one) (auto simp: rc intro!: read_step_Some)
  qed
qed

lemma read_filtered_returns:
  assumes fin: "finite_stream ff m"
  shows "read_step m r (read_filtered ff s r)"
proof (induction "filter_measure m s (r_env r)" arbitrary: s r rule: less_induct)
  case less
  show ?case
  proof (rule read_filtered_round [OF fin])
    fix s' r'
    assume on: "goes_on m s r s' r'"
    then have "read_step m r' (read_filtered ff s' r')" by (intro less.hyps) (simp add: goes_on_def)
    then show "read_step m r (read_filtered ff s' r')"
      by (rule read_step_weaken) (use on in \<open>simp_all add: goes_on_def\<close>)
  qed
qed

lemma ReadPacketFromStream_returns:
  assumes fin: "finite_stream ff m"
  shows "read_step m r (ReadPacketFromStream ff r)"
proof (cases "r_bitStreamFilter r")
  case True
  with read_filtered_returns [OF fin] show ?thesis by (simp add: ReadPacketFromStream_def)
next
  case False
  obtain ok e where al: "av_packet_alloc ff (r_env r) = (ok, e)" by fastforce
  note le = finite_streamD(5) [OF fin al]
  show ?thesis
  proof (cases ok)
    case True
    let ?r = "acquire TempAvPacket (r\<lparr>r_env := e\<rparr>)"
    have "read_step m ?r (read_unfiltered ff ?r)" by (rule read_unfiltered_returns [OF fin])
    then have "read_step m r (read_unfiltered ff ?r)"
      by (rule read_step_weaken) (use le in simp_all)
    with False True al show ?thesis by (simp add: ReadPacketFromStream_def)
  next
    case no_packet: False
    with False al le show ?thesis
      by (auto simp: ReadPacketFromStream_def intro!: read_step_Some)
  qed
qed

section \<open>The next unit\<close>

lemma Fill_returns:
  assumes fin: "finite_stream ff m"
  obtains ok r' where "FillStreamBuffer ff r = Some (ok, r')"
    and "m (r_env r') + (if ok then 1 else 0) \<le> m (r_env r)"
    and "r_streamBufferOffset r' = r_streamBufferOffset r"
    and "r_currentNALU r' = r_currentNALU r" and "r_currentNaluOffset r' = r_currentNaluOffset r"
proof -
  from ReadPacketFromStream_returns [OF fin, of r] obtain ret r1 where
    rp: "ReadPacketFromStream ff r = Some (ret, r1)" and ret: "ret \<in> {-1, 0, 1}"
    and facts: "m (r_env r1) + (if ret = 1 then 1 else 0) \<le> m (r_env r)"
    "r_streamBufferOffset r1 = r_streamBufferOffset r"
    "r_currentNALU r1 = r_currentNALU r" "r_currentNaluOffset r1 = r_currentNaluOffset r"
    unfolding read_step_def by blast
  from rp ret consider "ret = 1" | "FillStreamBuffer ff r = Some (False, r1)" "ret \<noteq> 1"
    by (auto simp: FillStreamBuffer_def)
  then show thesis
  proof cases
    case 1
    let ?r' = "r1\<lparr>r_streamBuffer := r_streamBuffer r1 @ (case pkt_data (r_avPacket r1) of
        Some d \<Rightarrow> if 0 < pkt_size (r_avPacket r1) then take (nat (pkt_size (r_avPacket r1))) d else []
      | None \<Rightarrow> []), r_avPacket := blank_packet\<rparr>"
    from 1 rp facts show ?thesis
      by (intro that [of True ?r']) (simp_all add: FillStreamBuffer_def Let_def)
  next
    case 2
    with facts show ?thesis by (intro that [of False r1]) simp_all
  qed
qed

text \<open>What is left for the reader: input first, then buffer, then the current unit.\<close>

definition left :: "('e \<Rightarrow> nat) \<Rightarrow> 'e reader \<Rightarrow> nat \<times> nat \<times> nat" where
  "left m r = (m (r_env r), length (r_streamBuffer r) - r_streamBufferOffset r,
     length (r_currentNALU r) - r_currentNaluOffset r)"

abbreviation less_left :: "((nat \<times> nat \<times> nat) \<times> (nat \<times> nat \<times> nat)) set" where
  "less_left \<equiv> less_than <*lex*> less_than <*lex*> less_than"

lemma Extract_returns:
  assumes fin: "finite_stream ff m"
  shows "\<exists>ok r'. ExtractNextNalu ff r = Some (ok, r') \<and>
    (ok \<longrightarrow> r_currentNALU r' \<noteq> [] \<and> r_currentNaluOffset r' = 0 \<and>
       (m (r_env r') < m (r_env r) \<or> r_env r' = r_env r \<and>
          length (r_streamBuffer r') - r_streamBufferOffset r' <
          length (r_streamBuffer r) - r_streamBufferOffset r))"
proof (induction "m (r_env r)" arbitrary: r rule: less_induct)
  case less
  show ?case
  proof (cases "FindStartCode (r_streamBuffer r) (r_streamBufferOffset r)")
    case (Some s)
    let ?e = "nalu_end (r_streamBuffer r) s"
    let ?r' = "r\<lparr>r_currentNALU := drop s (take ?e (r_streamBuffer r)),
      r_streamBufferOffset := ?e, r_currentNaluOffset := 0\<rparr>"
    have "ExtractNextNalu ff r = Some (True, ?r')"
      by (subst ExtractNextNalu.simps) (simp add: Some)
    moreover have "r_currentNALU ?r' \<noteq> []"
      and "length (r_streamBuffer ?r') - r_streamBufferOffset ?r' <
        length (r_streamBuffer r) - r_streamBufferOffset r"
      using nalu_end_bounds [OF Some] FindStartCode_bounds [OF Some] by (simp_all add: diff_less_mono2)
    ultimately show ?thesis by (intro exI [of _ True] exI [of _ ?r']) simp
  next
    case None
    obtain ok r1 where fill: "FillStreamBuffer ff r = Some (ok, r1)"
      and le: "m (r_env r1) + (if ok then 1 else 0) \<le> m (r_env r)"
      by (rule Fill_returns [OF fin, of r])
    show ?thesis
    proof (cases ok)
      case True
      with less.hyps [of r1] le obtain ok' r' where "ExtractNextNalu ff r1 = Some (ok', r')"
        and "ok' \<longrightarrow> r_currentNALU r' \<noteq> [] \<and> r_currentNaluOffset r' = 0 \<and>
          (m (r_env r') < m (r_env r1) \<or> r_env r' = r_env r1)"
        by auto
      moreover have "ExtractNextNalu ff r = ExtractNextNalu ff r1"
        using True None fill by (subst ExtractNextNalu.simps) simp
      ultimately show ?thesis
        using True le by (intro exI [of _ ok'] exI [of _ r']) auto
    next
      case False
      with None fill have "ExtractNextNalu ff r = Some (False, r1)"
        by (subst ExtractNextNalu.simps) simp
      then show ?thesis by (intro exI [of _ False] exI [of _ r1]) simp
    qed
  qed
qed

section \<open>Reading blocks\<close>

text \<open>A block that \<open>ReadTo\<close> hands out: its bytes and their number.\<close>

fun block_bytes :: "block \<Rightarrow> bytes" where
  "block_bytes (d, _, _, _) = d"

lemma emit_block_left:
  assumes "r_currentNaluOffset r < length (r_currentNALU r)"
  shows "\<exists>b r'. emit_block r = (int (length (block_bytes b)), Some b, r') \<and>
    block_bytes b \<noteq> [] \<and> length (block_bytes b) \<le> blockSize \<and>
    r_env r' = r_env r \<and> r_streamBuffer r' = r_streamBuffer r \<and>
    r_streamBufferOffset r' = r_streamBufferOffset r \<and>
    length (r_currentNALU r') - r_currentNaluOffset r' <
      length (r_currentNALU r) - r_currentNaluOffset r"
  using assms blockSize_pos by (auto simp: emit_block_def Let_def diff_less_mono2)

lemma ReadTo_left:
  assumes fin: "finite_stream ff m"
  shows "(\<exists>r'. ReadTo ff r = Some (0, None, r')) \<or>
    (\<exists>b r'. ReadTo ff r = Some (int (length (block_bytes b)), Some b, r') \<and>
       block_bytes b \<noteq> [] \<and> length (block_bytes b) \<le> blockSize \<and>
       (left m r', left m r) \<in> less_left)"
proof (cases "r_currentNALU r = [] \<or> r_currentNaluOffset r \<ge> length (r_currentNALU r)")
  case True
  from Extract_returns [OF fin, of r] obtain ok r1 where ex: "ExtractNextNalu ff r = Some (ok, r1)"
    and step: "ok \<longrightarrow> r_currentNALU r1 \<noteq> [] \<and> r_currentNaluOffset r1 = 0 \<and>
       (m (r_env r1) < m (r_env r) \<or> r_env r1 = r_env r \<and>
          length (r_streamBuffer r1) - r_streamBufferOffset r1 <
          length (r_streamBuffer r) - r_streamBufferOffset r)"
    by blast
  show ?thesis
  proof (cases ok)
    case False
    with True ex show ?thesis by (simp add: ReadTo_def)
  next
    case ok: True
    with step have "r_currentNaluOffset r1 < length (r_currentNALU r1)" by simp
    from emit_block_left [OF this] obtain b r' where
      em: "emit_block r1 = (int (length (block_bytes b)), Some b, r')"
      and b: "block_bytes b \<noteq> []" "length (block_bytes b) \<le> blockSize"
      and keep: "r_env r' = r_env r1" "r_streamBuffer r' = r_streamBuffer r1"
        "r_streamBufferOffset r' = r_streamBufferOffset r1"
      by blast
    have "ReadTo ff r = Some (emit_block r1)" using True ex ok by (simp add: ReadTo_def)
    moreover have "(left m r', left m r) \<in> less_left"
      using step ok keep by (auto simp: left_def)
    ultimately show ?thesis using em b by (intro disjI2 exI [of _ b] exI [of _ r']) simp
  qed
next
  case False
  then have in_unit: "r_currentNaluOffset r < length (r_currentNALU r)" by simp
  from emit_block_left [OF this] obtain b r' where
    "emit_block r = (int (length (block_bytes b)), Some b, r')"
    and "block_bytes b \<noteq> []" "length (block_bytes b) \<le> blockSize"
    and "(left m r', left m r) \<in> less_left"
    by (auto simp: left_def)
  with ReadTo_inside [OF in_unit, of ff] show ?thesis
    by (intro disjI2 exI [of _ b] exI [of _ r']) simp
qed

text \<open>
  C24: On a finite stream \<open>ReadTo\<close> returns, from every state. Its result is the number of
  bytes of the block, from 1 to 1024, or 0 without a block; it is never negative, so that
  an error of the demuxer looks like the end of the stream to the caller.
\<close>

theorem ReadTo_returns:
  assumes "finite_stream ff m"
  shows "\<exists>n b r'. ReadTo ff r = Some (n, b, r') \<and> 0 \<le> n \<and> n \<le> int blockSize \<and>
    n = (case b of None \<Rightarrow> 0 | Some blk \<Rightarrow> int (length (block_bytes blk))) \<and>
    (n = 0 \<longleftrightarrow> b = None)"
  using ReadTo_left [OF assms, of r] by auto

lemma drain_returns_aux:
  assumes fin: "finite_stream ff m"
  shows "\<exists>bs r'. drain ff r = Some (bs, r') \<and>
    (\<forall>b \<in> set bs. 0 < length (block_bytes b) \<and> length (block_bytes b) \<le> blockSize)"
proof (induction "left m r" arbitrary: r rule: wf_induct [OF wf_lex_prod [OF wf_less_than wf_lex_prod [OF wf_less_than wf_less_than]]])
  case (1 r)
  from ReadTo_left [OF fin, of r] show ?case
  proof (elim disjE exE conjE)
    fix r'
    assume "ReadTo ff r = Some (0, None, r')"
    then show ?thesis by (simp add: drain.simps [of ff r])
  next
    fix b r'
    assume rd: "ReadTo ff r = Some (int (length (block_bytes b)), Some b, r')"
      and b: "block_bytes b \<noteq> []" "length (block_bytes b) \<le> blockSize"
      and lt: "(left m r', left m r) \<in> less_left"
    from 1 lt obtain bs r'' where "drain ff r' = Some (bs, r'')"
      and "\<forall>b \<in> set bs. 0 < length (block_bytes b) \<and> length (block_bytes b) \<le> blockSize"
      by blast
    with rd b show ?thesis by (simp add: drain.simps [of ff r])
  qed
qed

text \<open>
  On a finite stream the whole reading side of the client returns, with blocks of 1
  to 1024 bytes.
\<close>

theorem drain_returns:
  assumes "finite_stream ff m"
  shows "\<exists>bs r'. drain ff r = Some (bs, r') \<and>
    (\<forall>b \<in> set bs. 0 < length (block_bytes b) \<and> length (block_bytes b) \<le> blockSize)"
  using assms by (rule drain_returns_aux)

text \<open>A file read through a filter that passes the packets on, for the witnesses.\<close>

definition queue_ffmpeg :: "(av_packet list \<times> av_packet list \<times> bool) ffmpeg" where
  "queue_ffmpeg =
     \<lparr>av_read_frame = (\<lambda>(file, q, done). case file of
          [] \<Rightarrow> (-541478725, blank_packet, (file, q, done)) | p # ps \<Rightarrow> (0, p, (ps, q, done))),
      av_bsf_receive_packet = (\<lambda>(file, q, done). case q of
          [] \<Rightarrow> (if done then -541478725 else -11, blank_packet, (file, q, done))
        | p # ps \<Rightarrow> (0, p, (file, ps, done))),
      av_bsf_send_packet = (\<lambda>p (file, q, done). case p of
          None \<Rightarrow> (0, (file, q, True)) | Some pkt \<Rightarrow> (0, (file, q @ [pkt], done))),
      av_packet_alloc = (\<lambda>e. (True, e)),
      averror_eagain = -11, averror_eof = -541478725\<rparr>"

lemma queue_finite: "finite_stream queue_ffmpeg (\<lambda>(file, q, done). 2 * length file + length q)"
  by (auto simp: finite_stream_def queue_ffmpeg_def split: list.splits if_splits)

theorem ReadTo_returns_witness:
  "\<exists>n b r'. ReadTo queue_ffmpeg (reader_zero ([data_packet [0, 0, 1, 7]], [], False)) = Some (n, b, r') \<and>
     0 \<le> n \<and> n \<le> 1024"
  using ReadTo_returns [OF queue_finite, of "reader_zero ([data_packet [0, 0, 1, 7]], [], False)"]
  by (auto simp: wire_simps)

theorem drain_returns_witness:
  "\<exists>bs r'. drain queue_ffmpeg ((reader_zero ([data_packet [0, 0, 1, 7]], [], False))
     \<lparr>r_bitStreamFilter := True, r_videoStreamId := 0\<rparr>) = Some (bs, r')"
  using drain_returns [OF queue_finite] by blast

end
