(* ===== verification/Client.thy ===== *)
theory Client
  imports Socket Stream_Termination
begin

text \<open>
  The client program \<open>client/client.cpp\<close>: the loop of the reader thread, which reads blocks
  and sends each of them as one raw packet, or as the fields the Reed-Solomon encoder makes
  of it. The encoder is third-party code and a parameter: \<open>Encode\<close> on a state \<open>'x\<close>. \<open>os\<close> is
  the result of the system call \<open>send\<close> for a datagram; \<open>cl_sent\<close> are the datagrams given to it.
\<close>

section \<open>State\<close>

record ('e, 'x) client =
  cl_running :: bool
  cl_reader :: "'e reader"
  cl_encoder :: 'x
  cl_sent :: "bytes list"
  cl_log :: "log_call list"

definition clog :: "LogLevel \<Rightarrow> string \<Rightarrow> log_arg list \<Rightarrow> ('e, 'x) client \<Rightarrow> ('e, 'x) client" where
  "clog level msg args cl = cl\<lparr>cl_log := cl_log cl @ [LogCall level msg args]\<rparr>"

type_synonym 'x encode = "bytes \<Rightarrow> 'x \<Rightarrow> bytes list \<times> 'x"

text \<open>\<open>cc_encodingMode\<close>, \<open>cc_packetAmount\<close>: what \<open>main\<close> takes from the configuration.\<close>

record client_conf =
  cc_endian :: endian
  cc_socket :: socket_if
  cc_encodingMode :: bool
  cc_packetAmount :: u32

section \<open>Sending one block\<close>

text \<open>A call of \<open>socket.Send\<close>: the datagram reaches the system unless there is no address.\<close>

definition send_image :: "client_conf \<Rightarrow> (bytes \<Rightarrow> u64) \<Rightarrow> bytes \<Rightarrow> ('e, 'x) client \<Rightarrow>
    bool \<times> ('e, 'x) client" where
  "send_image cc os img cl =
     (case Send os (cc_socket cc) img of (ok, logs) \<Rightarrow>
        (ok, cl\<lparr>cl_sent := cl_sent cl @
                  (if sin_port (sk_sendAddress (cc_socket cc)) = 0 then [] else [img]),
                cl_log := cl_log cl @ logs\<rparr>))"

definition send_raw :: "client_conf \<Rightarrow> (bytes \<Rightarrow> u64) \<Rightarrow> int \<Rightarrow> block \<Rightarrow> ('e, 'x) client \<Rightarrow>
    ('e, 'x) client access" where
  "send_raw cc os bytesRead blk cl =
     (case blk of (buffer, blockIndex, naluIndex, naluBlockSize) \<Rightarrow>
        case composePacket (cc_endian cc) blockIndex naluIndex naluBlockSize (Some buffer)
               (of_int bytesRead) of
          OutOfBounds \<Rightarrow> OutOfBounds
        | Ok None \<Rightarrow> Ok (clog Error ''composePacket failed (non-encoded)'' [] cl)
        | Ok (Some packet) \<Rightarrow>
            (case send_image cc os (packet_image (cc_endian cc) packet) cl of (ok, cl1) \<Rightarrow>
               Ok (if ok then cl1 else clog Error ''Socket send failed (non-encoded)'' [] cl1)))"

text \<open>
  The loop over the encoded fields. The index is compared with the amount after the packet is
  sent; \<open>continue\<close> on a failed composition does not advance it. The pause changes nothing.
\<close>

fun send_fields :: "client_conf \<Rightarrow> (bytes \<Rightarrow> u64) \<Rightarrow> int \<Rightarrow> block \<Rightarrow> u8 \<Rightarrow> bytes list \<Rightarrow>
    ('e, 'x) client \<Rightarrow> ('e, 'x) client access" where
  "send_fields cc os bytesRead blk packetIndex [] cl = Ok cl"
| "send_fields cc os bytesRead blk packetIndex (packetPayload # rest) cl =
     (case blk of (buffer, blockIndex, naluIndex, naluBlockSize) \<Rightarrow>
        case composeRsPacket (cc_endian cc) blockIndex packetIndex (of_int bytesRead) naluIndex
               naluBlockSize (Some packetPayload) (of_nat (length packetPayload)) of
          OutOfBounds \<Rightarrow> OutOfBounds
        | Ok None \<Rightarrow>
            send_fields cc os bytesRead blk packetIndex rest
              (clog Error ''composePacket failed for packet index {}'' [ArgNat (unat packetIndex)] cl)
        | Ok (Some packet) \<Rightarrow>
            (case send_image cc os (rs_packet_image (cc_endian cc) packet) cl of (ok, cl1) \<Rightarrow>
               let cl2 = (if ok then cl1
                          else clog Error ''Socket send failed for packet index {}''
                                 [ArgNat (unat packetIndex)] cl1)
               in if ucast packetIndex = cc_packetAmount cc then Ok cl2
                  else send_fields cc os bytesRead blk (packetIndex + 1) rest cl2))"

definition send_block :: "client_conf \<Rightarrow> (bytes \<Rightarrow> u64) \<Rightarrow> 'x encode \<Rightarrow> int \<Rightarrow> block \<Rightarrow>
    ('e, 'x) client \<Rightarrow> ('e, 'x) client access" where
  "send_block cc os Encode bytesRead blk cl =
     (if \<not> cc_encodingMode cc then send_raw cc os bytesRead blk cl
      else (case Encode (fst blk) (cl_encoder cl) of (encodedPackets, x) \<Rightarrow>
              send_fields cc os bytesRead blk 0 encodedPackets (cl\<lparr>cl_encoder := x\<rparr>)))"

section \<open>The loop\<close>

text \<open>
  The out-parameters of \<open>ReadTo\<close> are variables of the thread, but it writes them whenever it
  returns a positive number, and they are read only then.
\<close>

partial_function (option) client_loop :: "'e ffmpeg \<Rightarrow> client_conf \<Rightarrow> (bytes \<Rightarrow> u64) \<Rightarrow> 'x encode \<Rightarrow>
    ('e, 'x) client \<Rightarrow> ('e, 'x) client access option" where
  "client_loop ff cc os Encode cl =
     (if \<not> cl_running cl then Some (Ok cl)
      else Option.bind (ReadTo ff (cl_reader cl)) (\<lambda>(bytesRead, blk, r1).
        let cl1 = cl\<lparr>cl_reader := r1\<rparr>
        in if bytesRead < 0
           then Some (Ok ((clog Error ''StreamReader::ReadTo failed'' [] cl1)\<lparr>cl_running := False\<rparr>))
           else if bytesRead = 0 then Some (Ok (clog Info ''End of stream reached'' [] cl1))
           else (case blk of
                   None \<Rightarrow> Some OutOfBounds
                 | Some b \<Rightarrow>
                     (case send_block cc os Encode bytesRead b cl1 of
                        OutOfBounds \<Rightarrow> Some OutOfBounds
                      | Ok cl2 \<Rightarrow> client_loop ff cc os Encode cl2))))"

text \<open>The reader thread: open, loop, close.\<close>

definition client_thread :: "'e ffmpeg \<Rightarrow> 'e open_env \<Rightarrow> string \<Rightarrow> client_conf \<Rightarrow> (bytes \<Rightarrow> u64) \<Rightarrow>
    'x encode \<Rightarrow> ('e, 'x) client \<Rightarrow> ('e, 'x) client access outcome option" where
  "client_thread ff oe streamSource cc os Encode cl =
     (case Open oe streamSource (cl_reader cl) of
        Stuck \<Rightarrow> Some Stuck
      | Exited r1 \<Rightarrow> Some (Exited (Ok (cl\<lparr>cl_reader := r1\<rparr>)))
      | Done r1 \<Rightarrow>
          Option.bind (client_loop ff cc os Encode
              (clog Info ''StreamReader opened: {}'' [ArgStr streamSource] (cl\<lparr>cl_reader := r1\<rparr>)))
            (\<lambda>res. case res of
               OutOfBounds \<Rightarrow> Some (Done OutOfBounds)
             | Ok cl1 \<Rightarrow> Some (Done (Ok (clog Info ''StreamReader closed'' []
                           (cl1\<lparr>cl_reader := Close (cl_reader cl1)\<rparr>))))))"

text \<open>
  \<open>main\<close>: the socket, the encoder, the thread and its join. The thread makes the reader,
  whose construction may end the process.
\<close>

definition fresh_client :: "'e reader \<Rightarrow> 'x \<Rightarrow> log_call list \<Rightarrow> ('e, 'x) client" where
  "fresh_client r x logs =
     \<lparr>cl_running = True, cl_reader = r, cl_encoder = x, cl_sent = [], cl_log = logs\<rparr>"

definition client_main :: "'e ffmpeg \<Rightarrow> int \<Rightarrow> 'e \<Rightarrow> 'e open_env \<Rightarrow>
    socket_if outcome \<times> log_call list \<Rightarrow> endian \<Rightarrow> bool \<Rightarrow> u32 \<Rightarrow> string \<Rightarrow> (bytes \<Rightarrow> u64) \<Rightarrow>
    'x encode \<Rightarrow> 'x \<Rightarrow> ('e, 'x) client access outcome option" where
  "client_main ff network_init env oe sock e encodingMode packetAmount streamSource os Encode x =
     (case sock of
        (Done sk, logs) \<Rightarrow>
          let logs1 = logs @ [LogCall Info ''Socket created'' [],
                LogCall Info ''Encoder created with 8 cells'' []];
              cc = \<lparr>cc_endian = e, cc_socket = sk, cc_encodingMode = encodingMode,
                   cc_packetAmount = packetAmount\<rparr>
          in (case StreamReader ff network_init env of
                Done r \<Rightarrow>
                  Option.bind (client_thread ff oe streamSource cc os Encode (fresh_client r x logs1))
                    (\<lambda>res. Some (case res of
                       Done (Ok cl) \<Rightarrow> Done (Ok (clog Info ''Client shutting down'' [] cl))
                     | other \<Rightarrow> other))
              | Exited r \<Rightarrow> Some (Exited (Ok (fresh_client r x logs1)))
              | Stuck \<Rightarrow> Some Stuck)
      | (_, logs) \<Rightarrow> Some (Exited (Ok (fresh_client (reader_zero env) x logs))))"

end
