(* ===== verification/Client_Facts.thy ===== *)
theory Client_Facts
  imports Client
begin

text \<open>
  What the client puts on the wire: in raw mode one datagram for every block it reads, in
  order; in encoded mode the fields of every block, one more than configured; and that its
  loop ends on a finite stream.
\<close>

section \<open>Sending a raw block\<close>

text \<open>A block as the arguments of the raw composer.\<close>

fun raw_of :: "block \<Rightarrow> raw_msg" where
  "raw_of (d, bi, ni, ns) = (bi, ni, ns, d)"

fun block_ok :: "block \<Rightarrow> bool" where
  "block_ok (d, bi, ni, ns) \<longleftrightarrow> 0 < length d \<and> length d \<le> blockSize"

definition has_address :: "client_conf \<Rightarrow> bool" where
  "has_address cc \<longleftrightarrow> sin_port (sk_sendAddress (cc_socket cc)) \<noteq> 0"

lemma clog_fields [simp]:
  "cl_running (clog l m a cl) = cl_running cl" "cl_reader (clog l m a cl) = cl_reader cl"
  "cl_sent (clog l m a cl) = cl_sent cl" "cl_encoder (clog l m a cl) = cl_encoder cl"
  by (simp_all add: clog_def)

lemma send_image_fields:
  assumes "send_image cc os img cl = (ok, cl')"
  shows "cl_running cl' = cl_running cl" "cl_reader cl' = cl_reader cl"
    "cl_encoder cl' = cl_encoder cl"
    "cl_sent cl' = cl_sent cl @ (if has_address cc then [img] else [])"
  using assms by (auto simp: send_image_def has_address_def split: prod.splits)

text \<open>Without an address nothing reaches the system.\<close>

definition reaching :: "client_conf \<Rightarrow> bytes list \<Rightarrow> bytes list" where
  "reaching cc ds = (if has_address cc then ds else [])"

lemma send_raw_sends:
  assumes "block_ok blk"
  shows "\<exists>cl'. send_raw cc os (int (length (block_bytes blk))) blk cl = Ok cl' \<and>
    cl_running cl' = cl_running cl \<and> cl_reader cl' = cl_reader cl \<and>
    cl_sent cl' = cl_sent cl @ reaching cc [raw_encode (cc_endian cc) (raw_of blk)]"
proof -
  obtain d bi ni ns where blk: "blk = (d, bi, ni, ns)" by (cases blk)
  have len: "unat (of_nat (length d) :: u16) = length d"
    using assms(1) by (simp add: blk wire_simps)
  then obtain p where p: "composePacket (cc_endian cc) bi ni ns (Some d) (of_nat (length d)) = Ok (Some p)"
    using assms(1) by (auto simp: composePacket_def memcpy_def blk)
  obtain ok cl1 where si: "send_image cc os (packet_image (cc_endian cc) p) cl = (ok, cl1)"
    by fastforce
  show ?thesis
    using p si send_image_fields [OF si] by (simp add: send_raw_def blk reaching_def)
qed

section \<open>What a read gives\<close>

lemma Extract_true:
  "ExtractNextNalu ff r = Some res \<Longrightarrow> fst res \<Longrightarrow>
     r_currentNALU (snd res) \<noteq> [] \<and> r_currentNaluOffset (snd res) = 0"
proof (induction rule: ExtractNextNalu.raw_induct [rotated, consumes 1, case_names step])
  case (step f ff r res)
  show ?case
  proof (cases "FindStartCode (r_streamBuffer r) (r_streamBufferOffset r)")
    case (Some s)
    have "s < nalu_end (r_streamBuffer r) s \<and> nalu_end (r_streamBuffer r) s \<le> length (r_streamBuffer r)"
      using nalu_end_bounds [OF Some] by linarith
    moreover have "res = (True, r\<lparr>r_currentNALU :=
        drop s (take (nalu_end (r_streamBuffer r) s) (r_streamBuffer r)),
        r_streamBufferOffset := nalu_end (r_streamBuffer r) s, r_currentNaluOffset := 0\<rparr>)"
      using step(2) Some by simp
    ultimately show ?thesis by simp
  next
    case None
    from step(2) None obtain ok r1 where "FillStreamBuffer ff r = Some (ok, r1)"
      and "(if \<not> ok then Some (False, r1) else f ff r1) = Some res"
      by (auto split: Option.bind_splits)
    with step(3) have "f ff r1 = Some res" by (auto split: if_splits)
    from step(1) [OF this step(3)] show ?thesis .
  qed
qed

lemma emit_block_ok:
  assumes "r_currentNaluOffset r < length (r_currentNALU r)"
  shows "\<exists>blk r'. emit_block r = (int (length (block_bytes blk)), Some blk, r') \<and> block_ok blk"
  using assms blockSize_pos by (auto simp: emit_block_def Let_def)

lemma ReadTo_result:
  assumes "ReadTo ff r = Some (n, b, r1)"
  shows "case b of None \<Rightarrow> n = 0
    | Some blk \<Rightarrow> n = int (length (block_bytes blk)) \<and> block_ok blk"
proof (cases "r_currentNALU r = [] \<or> r_currentNaluOffset r \<ge> length (r_currentNALU r)")
  case True
  with assms obtain ok r2 where ex: "ExtractNextNalu ff r = Some (ok, r2)"
    and res: "(if \<not> ok then (0, None, r2) else emit_block r2) = (n, b, r1)"
    by (auto simp: ReadTo_def split: option.splits prod.splits if_splits)
  show ?thesis
  proof (cases ok)
    case True
    with Extract_true [OF ex] have "r_currentNaluOffset r2 < length (r_currentNALU r2)" by simp
    from emit_block_ok [OF this] True res show ?thesis by auto
  next
    case False
    with res show ?thesis by simp
  qed
next
  case False
  then have "r_currentNaluOffset r < length (r_currentNALU r)" by simp
  from emit_block_ok [OF this] False assms show ?thesis by (auto simp: ReadTo_def)
qed

lemma drain_cases:
  assumes "drain ff r = Some (bs, r')"
  obtains (ended) "ReadTo ff r = Some (0, None, r')" "bs = []"
  | (block) blk bs1 r1 where "ReadTo ff r = Some (int (length (block_bytes blk)), Some blk, r1)"
      "block_ok blk" "bs = blk # bs1" "drain ff r1 = Some (bs1, r')"
proof -
  obtain n b r1 where rd: "ReadTo ff r = Some (n, b, r1)"
    and rest: "(case b of None \<Rightarrow> Some ([], r1)
      | Some blk \<Rightarrow> Option.bind (drain ff r1) (\<lambda>(bs, r2). Some (blk # bs, r2))) = Some (bs, r')"
    using assms by (subst (asm) drain.simps) (auto split: Option.bind_splits)
  note res = ReadTo_result [OF rd]
  show thesis
  proof (cases b)
    case None
    with rd rest res show ?thesis by (intro ended) simp_all
  next
    case (Some blk)
    with rest obtain bs1 where "drain ff r1 = Some (bs1, r')" and "bs = blk # bs1"
      by (auto split: Option.bind_splits)
    with Some rd res show ?thesis by (intro block) simp_all
  qed
qed

section \<open>The loop\<close>

text \<open>When sending a block adds datagrams that \<open>good\<close> allows, so does the loop, block by block.\<close>

lemma client_loop_blocks:
  fixes cl :: "('e, 'x) client"
  assumes "\<And>blk (c :: ('e, 'x) client). block_ok blk \<Longrightarrow> \<exists>cl1 ds. good blk ds \<and>
      send_block cc os Encode (int (length (block_bytes blk))) blk c = Ok cl1 \<and>
      cl_running cl1 = cl_running c \<and> cl_reader cl1 = cl_reader c \<and> cl_sent cl1 = cl_sent c @ ds"
    and "drain ff (cl_reader cl) = Some (bs, r')" and "cl_running cl"
  shows "\<exists>cl' dss. client_loop ff cc os Encode cl = Some (Ok cl') \<and> cl_reader cl' = r' \<and>
    cl_running cl' \<and> list_all2 good bs dss \<and> cl_sent cl' = cl_sent cl @ concat dss"
  using assms(2,3)
proof (induction bs arbitrary: cl)
  case Nil
  from Nil.prems(1) have "ReadTo ff (cl_reader cl) = Some (0, None, r')"
    by (cases rule: drain_cases) simp_all
  with Nil.prems(2) show ?case by (subst client_loop.simps) (simp add: Let_def)
next
  case (Cons blk bs)
  from Cons.prems(1) obtain r1 where
    rd: "ReadTo ff (cl_reader cl) = Some (int (length (block_bytes blk)), Some blk, r1)"
    and ok: "block_ok blk" and dr: "drain ff r1 = Some (bs, r')"
    by (cases rule: drain_cases) simp_all
  from assms(1) [OF ok, of "cl\<lparr>cl_reader := r1\<rparr>"] obtain cl2 ds where
    sb: "send_block cc os Encode (int (length (block_bytes blk))) blk (cl\<lparr>cl_reader := r1\<rparr>) = Ok cl2"
    and cl2: "cl_running cl2" "drain ff (cl_reader cl2) = Some (bs, r')"
    and ds: "good blk ds" "cl_sent cl2 = cl_sent cl @ ds"
    using dr Cons.prems(2) by auto
  have pos: "0 < length (block_bytes blk)" using ok by (cases blk) simp
  have step: "client_loop ff cc os Encode cl = client_loop ff cc os Encode cl2"
    using rd sb pos Cons.prems(2) by (subst client_loop.simps) (simp add: Let_def)
  from Cons.IH [OF cl2(2,1)] obtain cl' dss where
    "client_loop ff cc os Encode cl2 = Some (Ok cl')" "cl_reader cl' = r'" "cl_running cl'"
    "list_all2 good bs dss" "cl_sent cl' = cl_sent cl2 @ concat dss" by blast
  with ds step show ?case by (intro exI [of _ cl'] exI [of _ "ds # dss"]) simp
qed

lemma send_block_raw:
  assumes "\<not> cc_encodingMode cc" and "block_ok blk"
  shows "\<exists>cl1. send_block cc os Encode (int (length (block_bytes blk))) blk cl = Ok cl1 \<and>
    cl_running cl1 = cl_running cl \<and> cl_reader cl1 = cl_reader cl \<and>
    cl_sent cl1 = cl_sent cl @ reaching cc [raw_encode (cc_endian cc) (raw_of blk)]"
  using send_raw_sends [OF assms(2), of cc os cl] assms(1) by (simp add: send_block_def)

section \<open>Raw mode\<close>

lemma concat_singles: "list_all2 (\<lambda>b ds. ds = (if c then [f b] else [])) bs dss \<Longrightarrow>
    concat dss = (if c then map f bs else [])"
  by (induction bs dss rule: list_all2_induct) simp_all

lemma client_loop_sends:
  fixes cl :: "('e, 'x) client"
  assumes "drain ff (cl_reader cl) = Some (bs, r')" and "cl_running cl"
    and "\<not> cc_encodingMode cc"
  shows "\<exists>cl'. client_loop ff cc os Encode cl = Some (Ok cl') \<and> cl_reader cl' = r' \<and>
    cl_sent cl' = cl_sent cl @ reaching cc (map (raw_encode (cc_endian cc) \<circ> raw_of) bs)"
proof -
  have "\<exists>cl1 ds. ds = (if has_address cc then [raw_encode (cc_endian cc) (raw_of blk)] else []) \<and>
      send_block cc os Encode (int (length (block_bytes blk))) blk c = Ok cl1 \<and>
      cl_running cl1 = cl_running c \<and> cl_reader cl1 = cl_reader c \<and> cl_sent cl1 = cl_sent c @ ds"
    if "block_ok blk" for blk and c :: "('e, 'x) client"
    using send_block_raw [OF assms(3) that, of os Encode c] by (simp add: reaching_def)
  from client_loop_blocks [OF this assms(1,2)] obtain cl' dss where
    "client_loop ff cc os Encode cl = Some (Ok cl')" "cl_reader cl' = r'" "cl_sent cl' = cl_sent cl @ concat dss"
    "list_all2 (\<lambda>b ds. ds = (if has_address cc then [raw_encode (cc_endian cc) (raw_of b)] else [])) bs dss"
    by blast
  with concat_singles [OF this(4)] show ?thesis by (auto simp: comp_def reaching_def)
qed

lemma client_loop_raw:
  assumes "drain ff (cl_reader cl) = Some (bs, r')" and "cl_running cl"
    and "\<not> cc_encodingMode cc" and "has_address cc"
  shows "\<exists>cl'. client_loop ff cc os Encode cl = Some (Ok cl') \<and> cl_reader cl' = r' \<and>
    cl_sent cl' = cl_sent cl @ map (raw_encode (cc_endian cc) \<circ> raw_of) bs"
  using client_loop_sends [OF assms(1-3), of os Encode] assms(4) by (auto simp: reaching_def)

text \<open>
  In raw mode the client gives the system one datagram for each block it reads, in the
  order of reading, each the raw packet of the block, whether or not sending succeeds.
\<close>

theorem client_raw_datagrams:
  assumes "drain ff (cl_reader cl) = Some (bs, r')" and "cl_running cl"
    and "\<not> cc_encodingMode cc" and "has_address cc"
  shows "\<exists>cl'. client_loop ff cc os Encode cl = Some (Ok cl') \<and>
    cl_sent cl' = cl_sent cl @ map (raw_encode (cc_endian cc) \<circ> raw_of) bs"
  using client_loop_raw [OF assms] by blast

definition demo_socket :: socket_if where
  "demo_socket = \<lparr>sk_udpSocket = 3, sk_ownAddress = zero_addr,
     sk_sendAddress = zero_addr\<lparr>sin_port := 80\<rparr>, sk_closed = False\<rparr>"

definition demo_conf :: "bool \<Rightarrow> u32 \<Rightarrow> client_conf" where
  "demo_conf mode amount = \<lparr>cc_endian = LittleEndian, cc_socket = demo_socket,
     cc_encodingMode = mode, cc_packetAmount = amount\<rparr>"

lemma demo_conf_address: "has_address (demo_conf mode amount)"
  by (simp add: has_address_def demo_conf_def demo_socket_def)

theorem client_raw_datagrams_witness:
  "\<exists>cl'. client_loop list_ffmpeg (demo_conf False 8) (\<lambda>_. 0) (\<lambda>d x. ([], x))
      (fresh_client ((reader_zero [])\<lparr>r_currentNALU := [0, 0, 1, 5]\<rparr>) () []) = Some (Ok cl') \<and>
     cl_sent cl' = [raw_encode LittleEndian (0, 0, 1, [0, 0, 1, 5])]"
proof -
  let ?r = "(reader_zero [])\<lparr>r_currentNALU := [0, 0, 1, 5]\<rparr>"
  let ?temp = "[Acquired TempAvPacket, Released TempAvPacket]"
  have "drain list_ffmpeg ?r = prepend [([0, 0, 1, 5], 0, 0, 1)]
      (drain list_ffmpeg ((reader_zero [])\<lparr>r_currentNaluIndex := 1\<rparr>))"
    using drain_current_unit_aux [of ?r list_ffmpeg]
    by (simp add: blocks_of_def Let_def chunks_step wire_simps unit_done_def reader_zero_def)
  moreover have "drain list_ffmpeg ((reader_zero [])\<lparr>r_currentNaluIndex := 1\<rparr>) =
      Some ([], (reader_zero [])\<lparr>r_currentNaluIndex := 1, r_resources := ?temp\<rparr>)"
    by (simp add: acquire_def release_def drain.simps ReadTo_def ExtractNextNalu.simps reader_zero_def FindStartCode.simps
        FillStreamBuffer_def ReadPacketFromStream_def list_ffmpeg_def read_unfiltered.simps)
  ultimately have dr: "drain list_ffmpeg (cl_reader (fresh_client ?r () [])) =
      Some ([([0, 0, 1, 5], 0, 0, 1)],
        (reader_zero [])\<lparr>r_currentNaluIndex := 1, r_resources := ?temp\<rparr>)"
    by (simp add: fresh_client_def)
  have "cl_running (fresh_client ?r () [])" and "\<not> cc_encodingMode (demo_conf False 8)"
    by (simp_all add: fresh_client_def demo_conf_def)
  from client_raw_datagrams [OF dr this demo_conf_address, of "\<lambda>_. 0" "\<lambda>d x. ([], x)"]
  show ?thesis by (simp add: fresh_client_def demo_conf_def)
qed

section \<open>Encoded mode\<close>

definition fields_ok :: "bytes list \<Rightarrow> bool" where
  "fields_ok fs \<longleftrightarrow> (\<forall>f \<in> set fs. length f = fieldSize)"

definition encoder_ok :: "'x encode \<Rightarrow> bool" where
  "encoder_ok Encode \<longleftrightarrow> (\<forall>d x. fields_ok (fst (Encode d x)))"

text \<open>An encoder that pads the block and cuts it, for the witnesses.\<close>

definition demo_encode :: "unit encode" where
  "demo_encode d x = (replicate 12 (replicate 128 7), x)"

lemma demo_encode_ok: "encoder_ok demo_encode"
  by (simp add: encoder_ok_def demo_encode_def fields_ok_def wire_simps)

text \<open>A field as the arguments of the Reed-Solomon composer.\<close>

fun rs_of :: "block \<Rightarrow> nat \<times> bytes \<Rightarrow> rs_msg" where
  "rs_of (d, bi, ni, ns) (i, f) = (bi, of_nat i, of_nat (length d), ni, ns, f)"

lemma send_fields_Cons:
  assumes "length f = fieldSize"
  shows "\<exists>cl1. send_fields cc os (int (length (block_bytes blk))) blk packetIndex (f # fs) cl =
      (if ucast packetIndex = cc_packetAmount cc then Ok cl1
       else send_fields cc os (int (length (block_bytes blk))) blk (packetIndex + 1) fs cl1) \<and>
    cl_running cl1 = cl_running cl \<and> cl_reader cl1 = cl_reader cl \<and>
    cl_sent cl1 = cl_sent cl @
      (if has_address cc
       then [rs_encode (cc_endian cc) (rs_of blk (unat packetIndex, f))] else [])"
proof -
  obtain d bi ni ns where blk: "blk = (d, bi, ni, ns)" by (cases blk)
  have len: "unat (of_nat (length f) :: u16) = fieldSize" using assms by (simp add: wire_simps)
  obtain p where p: "composeRsPacket (cc_endian cc) bi packetIndex (of_nat (length d)) ni ns (Some f)
      (of_nat (length f)) = Ok (Some p)"
    using assms len by (auto simp: composeRsPacket_def memcpy_def)
  obtain ok cl1 where si: "send_image cc os (rs_packet_image (cc_endian cc) p) cl = (ok, cl1)"
    by fastforce
  show ?thesis
    using p si send_image_fields [OF si] by (cases ok) (auto simp: blk Let_def)
qed

lemma send_fields_keeps:
  "fields_ok fs \<Longrightarrow>
     \<exists>cl1 ds. send_fields cc os (int (length (block_bytes blk))) blk packetIndex fs cl = Ok cl1 \<and>
       cl_running cl1 = cl_running cl \<and> cl_reader cl1 = cl_reader cl \<and> cl_sent cl1 = cl_sent cl @ ds"
proof (induction fs arbitrary: packetIndex cl)
  case Nil
  show ?case by simp
next
  case (Cons f fs)
  then have f: "length f = fieldSize" and fs: "fields_ok fs" by (simp_all add: fields_ok_def)
  from send_fields_Cons [OF f, of cc os blk packetIndex fs cl] obtain cl1 where
    step: "send_fields cc os (int (length (block_bytes blk))) blk packetIndex (f # fs) cl =
      (if ucast packetIndex = cc_packetAmount cc then Ok cl1
       else send_fields cc os (int (length (block_bytes blk))) blk (packetIndex + 1) fs cl1)"
    and cl1: "cl_running cl1 = cl_running cl" "cl_reader cl1 = cl_reader cl"
    "\<exists>ds. cl_sent cl1 = cl_sent cl @ ds" by auto
  from Cons.IH [OF fs, of "packetIndex + 1" cl1] step cl1 show ?case
    by (cases "ucast packetIndex = cc_packetAmount cc") auto
qed

lemma send_fields_sends:
  assumes "fields_ok fs" and "i \<le> unat (cc_packetAmount cc)"
    and "i + length fs \<le> 256 \<or> unat (cc_packetAmount cc) < 256"
  shows "\<exists>cl1. send_fields cc os (int (length (block_bytes blk))) blk (of_nat i) fs cl = Ok cl1 \<and>
    cl_running cl1 = cl_running cl \<and> cl_reader cl1 = cl_reader cl \<and>
    cl_sent cl1 = cl_sent cl @ reaching cc (map (rs_encode (cc_endian cc) \<circ> rs_of blk)
      (enumerate i (take (Suc (unat (cc_packetAmount cc)) - i) fs)))"
  using assms
proof (induction fs arbitrary: i cl)
  case Nil
  show ?case by (simp add: reaching_def)
next
  case (Cons f fs)
  then have f: "length f = fieldSize" and fs: "fields_ok fs" by (simp_all add: fields_ok_def)
  have "i < 256" using Cons.prems(2,3) by auto
  then have i: "unat (of_nat i :: u8) = i" by (simp add: unat_of_nat)
  have eq: "(ucast (of_nat i :: u8) :: u32) = cc_packetAmount cc \<longleftrightarrow> i = unat (cc_packetAmount cc)"
    using i \<open>i < 256\<close> by (simp add: word_unat_eq_iff unsigned_ucast_eq take_bit_eq_mod)
  from send_fields_Cons [OF f, of cc os blk "of_nat i" fs cl] obtain cl1 where
    step: "send_fields cc os (int (length (block_bytes blk))) blk (of_nat i) (f # fs) cl =
      (if i = unat (cc_packetAmount cc) then Ok cl1
       else send_fields cc os (int (length (block_bytes blk))) blk (of_nat (Suc i)) fs cl1)"
    and cl1: "cl_running cl1 = cl_running cl" "cl_reader cl1 = cl_reader cl"
    "cl_sent cl1 = cl_sent cl @ reaching cc [rs_encode (cc_endian cc) (rs_of blk (i, f))]"
    using i eq by (auto simp: add.commute reaching_def)
  show ?case
  proof (cases "i = unat (cc_packetAmount cc)")
    case True
    with step cl1 show ?thesis by simp
  next
    case False
    with Cons.prems(2,3) have "Suc i \<le> unat (cc_packetAmount cc)"
      and "Suc i + length fs \<le> 256 \<or> unat (cc_packetAmount cc) < 256" by auto
    from Cons.IH [OF fs this, of cl1] step False cl1 Cons.prems(2) show ?thesis
      by (auto simp: Suc_diff_le reaching_def)
  qed
qed

text \<open>The datagrams of a block, when the encoder makes the first \<open>k\<close> fields of a code.\<close>

definition encoder_gives :: "'x encode \<Rightarrow> (bytes \<Rightarrow> u8 \<Rightarrow> bytes) \<Rightarrow> nat \<Rightarrow> bool" where
  "encoder_gives Encode field k \<longleftrightarrow> k \<le> 256 \<and> (\<forall>d i. length (field d i) = fieldSize) \<and>
     (\<forall>d x. fst (Encode d x) = map (\<lambda>i. field d (of_nat i)) [0..<k])"

definition field_datagrams :: "endian \<Rightarrow> (bytes \<Rightarrow> u8 \<Rightarrow> bytes) \<Rightarrow> nat \<Rightarrow> block \<Rightarrow> bytes list" where
  "field_datagrams e field n b =
     map (\<lambda>i. rs_encode e (rs_of b (i, field (block_bytes b) (of_nat i)))) [0..<n]"

lemma send_block_encoded:
  assumes "cc_encodingMode cc" and "encoder_gives Encode field k"
  shows "\<exists>cl1. send_block cc os Encode (int (length (block_bytes blk))) blk cl = Ok cl1 \<and>
    cl_running cl1 = cl_running cl \<and> cl_reader cl1 = cl_reader cl \<and>
    cl_sent cl1 = cl_sent cl @ reaching cc
      (field_datagrams (cc_endian cc) field (min k (Suc (unat (cc_packetAmount cc)))) blk)"
proof -
  let ?n = "Suc (unat (cc_packetAmount cc))"
  obtain fs x where enc: "Encode (block_bytes blk) (cl_encoder cl) = (fs, x)" by fastforce
  with assms(2) have fs: "fs = map (\<lambda>i. field (block_bytes blk) (of_nat i)) [0..<k]"
    unfolding encoder_gives_def by (metis fst_conv)
  with assms(2) have "fields_ok fs" and "0 + length fs \<le> 256" by (auto simp: fields_ok_def encoder_gives_def)
  moreover have "enumerate 0 (take ?n fs) = map (\<lambda>i. (i, field (block_bytes blk) (of_nat i))) [0..<min k ?n]"
    unfolding fs take_map by (intro nth_equalityI) (auto simp: nth_enumerate_eq min.commute)
  moreover have "fst blk = block_bytes blk" by (cases blk) simp
  ultimately show ?thesis
    using send_fields_sends [of fs 0 cc os blk "cl\<lparr>cl_encoder := x\<rparr>"] assms(1) enc
    by (simp add: send_block_def field_datagrams_def comp_def)
qed

lemma client_loop_encoded:
  fixes cl :: "('e, 'x) client"
  assumes "drain ff (cl_reader cl) = Some (bs, r')" and "cl_running cl"
    and "cc_encodingMode cc" and "encoder_gives Encode field k"
  shows "\<exists>cl'. client_loop ff cc os Encode cl = Some (Ok cl') \<and> cl_reader cl' = r' \<and>
    cl_sent cl' = cl_sent cl @ reaching cc (concat (map
      (field_datagrams (cc_endian cc) field (min k (Suc (unat (cc_packetAmount cc))))) bs))"
proof -
  let ?f = "field_datagrams (cc_endian cc) field (min k (Suc (unat (cc_packetAmount cc))))"
  have "\<exists>cl1 ds. ds = reaching cc (?f blk) \<and>
      send_block cc os Encode (int (length (block_bytes blk))) blk c = Ok cl1 \<and>
      cl_running cl1 = cl_running c \<and> cl_reader cl1 = cl_reader c \<and> cl_sent cl1 = cl_sent c @ ds"
    for blk and c :: "('e, 'x) client"
    using send_block_encoded [OF assms(3,4), of os blk c] by simp
  from client_loop_blocks [OF this assms(1,2)] obtain cl' dss where
    "client_loop ff cc os Encode cl = Some (Ok cl')" "cl_reader cl' = r'"
    "cl_sent cl' = cl_sent cl @ concat dss" and dss: "list_all2 (\<lambda>b ds. ds = reaching cc (?f b)) bs dss"
    by blast
  moreover from dss have "concat dss = reaching cc (concat (map ?f bs))"
    by (induction bs dss rule: list_all2_induct) (simp_all add: reaching_def)
  ultimately show ?thesis by auto
qed

text \<open>
  In encoded mode a block is sent as its fields with ascending packet indices, one
  more of them than the configured amount (or all, when the encoder gives fewer).
\<close>

theorem client_sends_amount_plus_one:
  assumes "encoder_ok Encode" and "has_address cc"
    and "cc_encodingMode cc" and "unat (cc_packetAmount cc) < 256"
  shows "\<exists>cl1. send_block cc os Encode (int (length (block_bytes blk))) blk cl = Ok cl1 \<and>
    cl_sent cl1 = cl_sent cl @ map (rs_encode (cc_endian cc) \<circ> rs_of blk)
      (enumerate 0 (take (Suc (unat (cc_packetAmount cc)))
         (fst (Encode (block_bytes blk) (cl_encoder cl)))))"
proof -
  have "fst blk = block_bytes blk" by (cases blk) simp
  moreover obtain fs x where enc: "Encode (block_bytes blk) (cl_encoder cl) = (fs, x)" by fastforce
  moreover from assms(1) enc have "fields_ok fs" unfolding encoder_ok_def by (metis fst_conv)
  ultimately show ?thesis
    using assms(2-4) send_fields_sends [of fs 0 cc os blk "cl\<lparr>cl_encoder := x\<rparr>"]
    by (auto simp: send_block_def reaching_def)
qed

theorem client_sends_amount_plus_one_witness:
  "\<exists>cl1. send_block (demo_conf True 8) (\<lambda>_. 0) demo_encode 3
      ([1, 2, 3], 0, 0, 1) (fresh_client (reader_zero []) () []) = Ok cl1 \<and> length (cl_sent cl1) = 9"
proof -
  let ?cl = "fresh_client (reader_zero []) () []"
  have "cc_encodingMode (demo_conf True 8)" and "unat (cc_packetAmount (demo_conf True 8)) < 256"
    by (simp_all add: demo_conf_def)
  from client_sends_amount_plus_one [OF demo_encode_ok demo_conf_address this, of "\<lambda>_. 0"
      "([1, 2, 3], 0, 0, 1)" ?cl] show ?thesis
    by (auto simp: demo_conf_def fresh_client_def demo_encode_def)
qed

section \<open>The loop ends\<close>

lemma send_block_returns:
  assumes "encoder_ok Encode" and "block_ok blk"
  shows "\<exists>cl1 ds. True \<and> send_block cc os Encode (int (length (block_bytes blk))) blk cl = Ok cl1 \<and>
    cl_running cl1 = cl_running cl \<and> cl_reader cl1 = cl_reader cl \<and> cl_sent cl1 = cl_sent cl @ ds"
proof (cases "cc_encodingMode cc")
  case True
  obtain fs x where enc: "Encode (fst blk) (cl_encoder cl) = (fs, x)" by fastforce
  with assms(1) have "fields_ok fs" unfolding encoder_ok_def by (metis fst_conv)
  from send_fields_keeps [OF this, of cc os blk 0 "cl\<lparr>cl_encoder := x\<rparr>"] True enc show ?thesis
    by (auto simp: send_block_def)
next
  case False
  from send_block_raw [OF this assms(2), of os Encode cl] show ?thesis by blast
qed

lemma client_loop_returns_aux:
  assumes "finite_stream ff m" and "encoder_ok Encode" and "cl_running cl"
  shows "\<exists>cl'. client_loop ff cc os Encode cl = Some (Ok cl') \<and> cl_running cl'"
proof -
  from drain_returns_aux [OF assms(1)] obtain bs r' where "drain ff (cl_reader cl) = Some (bs, r')"
    by blast
  from client_loop_blocks [where good = "\<lambda>_ _. True", OF send_block_returns [OF assms(2)] this assms(3)]
  show ?thesis by blast
qed

text \<open>
  C22: On a finite stream, with an encoder that gives fields of 128 bytes, the client's loop
  returns, reads no memory outside its buffers, and ends by the end of the stream: the error
  branch, which stops the client, is never taken.
\<close>

theorem client_loop_returns:
  assumes "finite_stream ff m" and "encoder_ok Encode" and "cl_running cl"
  shows "\<exists>cl'. client_loop ff cc os Encode cl = Some (Ok cl') \<and> cl_running cl'"
  using assms by (rule client_loop_returns_aux)

theorem client_loop_returns_witness:
  "\<exists>cl'. client_loop queue_ffmpeg (demo_conf True 8) (\<lambda>_. 0) demo_encode
      (fresh_client (reader_zero ([data_packet [0, 0, 1, 7]], [], False)) () []) = Some (Ok cl')"
proof -
  have "cl_running (fresh_client (reader_zero ([data_packet [0, 0, 1, 7]], [], False)) () [])"
    by (simp add: fresh_client_def)
  from client_loop_returns [OF queue_finite demo_encode_ok this] show ?thesis by blast
qed

end
