(* ===== verification/Resources.thy ===== *)
theory Resources
  imports Client_Facts "HOL-Library.Multiset"
begin

text \<open>
  What the stream reader takes from FFmpeg and gives back: the account of the resources held
  agrees with the reader's pointers after every operation, on every error path, so that
  nothing is freed twice and the destructor leaves nothing behind, however the client ends.
\<close>

section \<open>The account\<close>

text \<open>What is held after some events; \<open>None\<close> when something is released that is not held.\<close>

fun held :: "resource_event list \<Rightarrow> resource multiset \<Rightarrow> resource multiset option" where
  "held [] h = Some h"
| "held (Acquired x # es) h = held es (add_mset x h)"
| "held (Released x # es) h = (if x \<in># h then held es (h - {#x#}) else None)"

lemma held_append: "held (es @ fs) h = Option.bind (held es h) (held fs)"
  by (induction es h rule: held.induct) auto

definition holds :: "'e reader \<Rightarrow> resource multiset \<Rightarrow> bool" where
  "holds r h \<longleftrightarrow> held (r_resources r) {#} = Some h"

lemma holds_acquire: "holds r h \<Longrightarrow> holds (acquire x r) (add_mset x h)"
  by (simp add: holds_def acquire_def held_append)

lemma holds_release: "holds r (add_mset x h) \<Longrightarrow> holds (release x r) h"
  by (simp add: holds_def release_def held_append)

lemma holds_update [simp]:
  "holds (r\<lparr>r_env := a\<rparr>) = holds r" "holds (r\<lparr>r_avPacket := b\<rparr>) = holds r"
  "holds (r\<lparr>r_formatContext := c\<rparr>) = holds r" "holds (r\<lparr>r_bitStreamFilter := c\<rparr>) = holds r"
  "holds (r\<lparr>r_videoStreamPosition := i\<rparr>) = holds r" "holds (r\<lparr>r_videoStreamId := i\<rparr>) = holds r"
  "holds (r\<lparr>r_streamBuffer := d\<rparr>) = holds r" "holds (r\<lparr>r_streamBufferOffset := n\<rparr>) = holds r"
  "holds (r\<lparr>r_currentNALU := d\<rparr>) = holds r" "holds (r\<lparr>r_currentNaluOffset := n\<rparr>) = holds r"
  "holds (r\<lparr>r_currentNaluIndex := w\<rparr>) = holds r" "holds (reader_log l s args r) = holds r"
  by (simp_all add: holds_def fun_eq_iff reader_log_def)

text \<open>What the reader's members point to. There is no filter without an open file.\<close>

definition owned :: "'e reader \<Rightarrow> resource multiset" where
  "owned r = {#Network, AvPacket#} + (if r_formatContext r then {#FormatContext#} else {#}) +
     (if r_bitStreamFilter r then {#BitStreamFilter#} else {#})"

definition accounted :: "'e reader \<Rightarrow> bool" where
  "accounted r \<longleftrightarrow> holds r (owned r) \<and> (r_bitStreamFilter r \<longrightarrow> r_formatContext r)"

lemma accounted_update [simp]:
  "accounted (r\<lparr>r_env := a\<rparr>) = accounted r" "accounted (r\<lparr>r_avPacket := b\<rparr>) = accounted r"
  "accounted (r\<lparr>r_videoStreamPosition := i\<rparr>) = accounted r"
  "accounted (r\<lparr>r_videoStreamId := i\<rparr>) = accounted r"
  "accounted (r\<lparr>r_streamBuffer := d\<rparr>) = accounted r"
  "accounted (r\<lparr>r_streamBufferOffset := n\<rparr>) = accounted r"
  "accounted (r\<lparr>r_currentNALU := d\<rparr>) = accounted r"
  "accounted (r\<lparr>r_currentNaluOffset := n\<rparr>) = accounted r"
  "accounted (r\<lparr>r_currentNaluIndex := w\<rparr>) = accounted r"
  "accounted (reader_log l s args r) = accounted r"
  by (simp_all add: accounted_def owned_def reader_log_def) (simp_all add: holds_def)

section \<open>Construction, \<open>Open\<close>, \<open>Close\<close> and destruction\<close>

lemma StreamReader_accounted:
  assumes "StreamReader ff network_init env = Done r"
  shows "accounted r"
proof -
  obtain env' where "r = acquire AvPacket (acquire Network (reader_zero env'))"
    using assms by (auto simp: StreamReader_def Let_def split: if_splits prod.splits)
  then show ?thesis
    by (simp add: accounted_def owned_def holds_def acquire_def reader_zero_def add_mset_commute)
qed

lemma Close_accounted:
  assumes "accounted r"
  shows "holds (Close r) {#Network, AvPacket#}" and "\<not> r_formatContext (Close r)"
    and "\<not> r_bitStreamFilter (Close r)" and "accounted (Close r)"
proof -
  show closed: "\<not> r_formatContext (Close r)" "\<not> r_bitStreamFilter (Close r)"
    by (simp_all add: Close_def Let_def)
  show h: "holds (Close r) {#Network, AvPacket#}"
    using assms by (auto simp: Close_def Let_def accounted_def owned_def add_mset_commute
        intro!: holds_release split: if_splits)
  with closed show "accounted (Close r)" by (simp add: accounted_def owned_def)
qed

lemma destroy_holds:
  assumes "accounted r"
  shows "holds (StreamReader_destroy r) {#}"
  using Close_accounted(1) [OF assms]
  by (auto simp: StreamReader_destroy_def add_mset_commute intro!: holds_release)

lemma accounted_opened:
  assumes "accounted r" and "\<not> r_formatContext r"
  shows "accounted (acquire FormatContext (r\<lparr>r_formatContext := True, r_env := env\<rparr>))"
proof -
  have "\<not> r_bitStreamFilter r" and "holds r {#Network, AvPacket#}"
    using assms by (auto simp: accounted_def owned_def)
  with holds_acquire [of "r\<lparr>r_formatContext := True, r_env := env\<rparr>" "{#Network, AvPacket#}" FormatContext]
  show ?thesis by (simp add: accounted_def owned_def add_mset_commute [of AvPacket])
qed

lemma accounted_filter:
  assumes "accounted r" and "r_formatContext r" and "\<not> r_bitStreamFilter r"
  shows "accounted (acquire BitStreamFilter (r\<lparr>r_bitStreamFilter := True\<rparr>))"
proof -
  have "holds r {#FormatContext, AvPacket, Network#}"
    using assms by (simp add: accounted_def owned_def add_mset_commute)
  with holds_acquire [of "r\<lparr>r_bitStreamFilter := True\<rparr>" "{#FormatContext, AvPacket, Network#}" BitStreamFilter]
  show ?thesis using assms by (simp add: accounted_def owned_def add_mset_commute)
qed

definition ends_accounted :: "'e reader outcome \<Rightarrow> bool" where
  "ends_accounted out \<longleftrightarrow> (\<exists>r. (out = Done r \<or> out = Exited r) \<and> accounted r)"

lemma ends_accounted_intros:
  "accounted r \<Longrightarrow> ends_accounted (Done r)"
  "accounted r \<Longrightarrow> ends_accounted (open_fail msg url r)"
  "(c \<Longrightarrow> ends_accounted a) \<Longrightarrow> (\<not> c \<Longrightarrow> ends_accounted b) \<Longrightarrow> ends_accounted (if c then a else b)"
  by (auto simp: ends_accounted_def open_fail_def Close_accounted)

lemma Open_accounted:
  assumes "accounted r"
  shows "ends_accounted (Open oe url r)"
proof -
  define r0 where "r0 = (if r_formatContext r then Close r else r)"
  define r1 where "r1 = acquire FormatContext (r0\<lparr>r_formatContext := True, r_env := oe_env oe\<rparr>)"
  define r2 where "r2 = (case find_video_stream (oe_streams oe) 0 of
    None \<Rightarrow> r1 | Some streamId \<Rightarrow> r1\<lparr>r_videoStreamId := streamId\<rparr>)"
  define r3 where "r3 = (if oe_format_name oe = ''h264''
    then reader_log Info ''Raw H.264 input detected, skipping bitstream filter'' []
           (r2\<lparr>r_bitStreamFilter := False\<rparr>)
    else acquire BitStreamFilter (r2\<lparr>r_bitStreamFilter := True\<rparr>))"
  have r0: "accounted r0" "\<not> r_formatContext r0" "\<not> r_bitStreamFilter r0"
    using assms Close_accounted [OF assms] by (auto simp: r0_def accounted_def)
  have r1: "accounted r1" "r_formatContext r1" "\<not> r_bitStreamFilter r1"
    using accounted_opened [OF r0(1,2), of "oe_env oe"] r0(3) by (simp_all add: r1_def)
  have r2: "accounted r2" "r_formatContext r2" "\<not> r_bitStreamFilter r2"
    using r1 by (simp_all add: r2_def split: option.split)
  have "r2\<lparr>r_bitStreamFilter := False\<rparr> = r2" using r2(3) by (cases r2) simp
  then have r3: "accounted r3" using accounted_filter [OF r2] r2(1) by (simp add: r3_def)
  show ?thesis
    unfolding Open_def Let_def r0_def [symmetric] r1_def [symmetric] r2_def [symmetric] r3_def [symmetric]
    by (intro ends_accounted_intros) (simp_all add: r0 r1 r2 r3)
qed

section \<open>Reading\<close>

text \<open>In between, the temporary packet is held as well.\<close>

definition with_temp :: "'e reader \<Rightarrow> bool" where
  "with_temp r \<longleftrightarrow> holds r (add_mset TempAvPacket (owned r)) \<and> (r_bitStreamFilter r \<longrightarrow> r_formatContext r)"

lemma with_temp_update [simp]:
  "with_temp (r\<lparr>r_env := a\<rparr>) = with_temp r" "with_temp (r\<lparr>r_avPacket := b\<rparr>) = with_temp r"
  by (simp_all add: with_temp_def owned_def)

lemma with_temp_acquire: "accounted r \<Longrightarrow> with_temp (acquire TempAvPacket r)"
  by (simp add: accounted_def with_temp_def owned_def holds_acquire)

lemma with_temp_release: "with_temp r \<Longrightarrow> accounted (release TempAvPacket r)"
  by (simp add: accounted_def with_temp_def owned_def holds_release)

lemma read_filtered_accounted:
  "read_filtered ff s r = Some res \<Longrightarrow> accounted r \<Longrightarrow> accounted (snd res)"
proof (induction rule: read_filtered.raw_induct [rotated, consumes 1, case_names step])
  case (step f ff s r res)
  from step(2,3) show ?case
    by (auto simp: Let_def with_temp_acquire with_temp_release split: prod.splits if_splits dest!: step(1))
qed

lemma read_unfiltered_accounted:
  "read_unfiltered ff r = Some res \<Longrightarrow> with_temp r \<Longrightarrow> accounted (snd res)"
proof (induction rule: read_unfiltered.raw_induct [rotated, consumes 1, case_names step])
  case (step f ff r res)
  from step(2,3) show ?case
    by (auto simp: Let_def with_temp_release split: prod.splits if_splits dest!: step(1))
qed

lemma ReadPacket_accounted:
  assumes "ReadPacketFromStream ff r = Some (ret, r')" and "accounted r"
  shows "accounted r'"
  using assms read_filtered_accounted [of ff False r "(ret, r')"]
  by (auto simp: ReadPacketFromStream_def with_temp_acquire split: prod.splits if_splits
      dest!: read_unfiltered_accounted)

lemma Fill_accounted:
  assumes "FillStreamBuffer ff r = Some (ok, r')" and "accounted r"
  shows "accounted r'"
proof -
  from assms(1) obtain ret r1 where rp: "ReadPacketFromStream ff r = Some (ret, r1)"
    by (auto simp: FillStreamBuffer_def split: option.splits)
  from ReadPacket_accounted [OF rp assms(2)] assms(1) rp show ?thesis
    by (auto simp: FillStreamBuffer_def Let_def split: if_splits)
qed

lemma Extract_accounted_aux:
  "ExtractNextNalu ff r = Some res \<Longrightarrow> accounted r \<Longrightarrow> accounted (snd res)"
proof (induction rule: ExtractNextNalu.raw_induct [rotated, consumes 1, case_names step])
  case (step f ff r res)
  show ?case
  proof (cases "FindStartCode (r_streamBuffer r) (r_streamBufferOffset r)")
    case None
    with step(2) obtain ok r1 where fill: "FillStreamBuffer ff r = Some (ok, r1)"
      and rest: "(if \<not> ok then Some (False, r1) else f ff r1) = Some res"
      by (auto split: Option.bind_splits)
    from Fill_accounted [OF fill step(3)] rest step(1) [of ff r1 res] show ?thesis
      by (auto split: if_splits)
  next
    case (Some i)
    with step(2,3) show ?thesis by auto
  qed
qed

lemma Extract_accounted:
  "ExtractNextNalu ff r = Some (ok, r') \<Longrightarrow> accounted r \<Longrightarrow> accounted r'"
  by (drule (1) Extract_accounted_aux) simp

lemma emit_block_accounted: "emit_block r = (n, b, r') \<Longrightarrow> accounted r \<Longrightarrow> accounted r'"
  by (auto simp: emit_block_def Let_def split: if_splits)

lemma ReadTo_accounted:
  assumes "ReadTo ff r = Some (n, b, r')" and "accounted r"
  shows "accounted r'"
  using assms Extract_accounted [of ff r] emit_block_accounted [of _ n b r']
  by (auto simp: ReadTo_def split: option.splits if_splits)

section \<open>The client\<close>

lemma send_raw_reader: "send_raw cc os n blk cl = Ok cl' \<Longrightarrow> cl_reader cl' = cl_reader cl"
  by (auto simp: send_raw_def split: prod.splits access.splits option.splits if_splits
      dest: send_image_fields)

lemma send_fields_reader:
  "send_fields cc os n blk i fs cl = Ok cl' \<Longrightarrow> cl_reader cl' = cl_reader cl"
proof (induction fs arbitrary: i cl)
  case (Cons f fs)
  obtain d bi ni ns where blk: "blk = (d, bi, ni, ns)" by (cases blk)
  from Cons.prems show ?case
    by (auto simp: blk Let_def split: prod.splits access.splits option.splits if_splits
        dest: send_image_fields dest!: Cons.IH [unfolded blk])
qed simp

lemma send_block_reader: "send_block cc os Encode n blk cl = Ok cl' \<Longrightarrow> cl_reader cl' = cl_reader cl"
  by (auto simp: send_block_def split: prod.splits if_splits dest: send_raw_reader send_fields_reader)

lemma client_loop_accounted:
  "client_loop ff cc os Encode cl = Some res \<Longrightarrow> accounted (cl_reader cl) \<Longrightarrow>
     (case res of OutOfBounds \<Rightarrow> True | Ok cl' \<Rightarrow> accounted (cl_reader cl'))"
proof (induction rule: client_loop.raw_induct [rotated, consumes 1, case_names step])
  case (step f ff cc os Encode cl res)
  show ?case
  proof (cases "cl_running cl")
    case True
    with step(2) obtain n b r1 where rd: "ReadTo ff (cl_reader cl) = Some (n, b, r1)"
      by (auto split: Option.bind_splits)
    have IH: "accounted (cl_reader cl2)" if "send_block cc os Encode n blk (cl\<lparr>cl_reader := r1\<rparr>) = Ok cl1"
      and "f ff cc os Encode cl1 = Some (Ok cl2)" for cl1 cl2 blk
      using step(1) [OF that(2)] send_block_reader [OF that(1)] ReadTo_accounted [OF rd step(3)] by simp
    from ReadTo_accounted [OF rd step(3)] True step(2) rd show ?thesis
      by (auto simp: Let_def split: option.splits access.splits if_splits dest: IH)
  qed (use step in auto)
qed

lemma client_thread_accounted:
  assumes "finite_stream ff m" and "encoder_ok Encode" and "cl_running cl" and "accounted (cl_reader cl)"
  shows "\<exists>cl'. accounted (cl_reader cl') \<and>
    (client_thread ff oe url cc os Encode cl = Some (Exited (Ok cl')) \<or>
     client_thread ff oe url cc os Encode cl = Some (Done (Ok cl')) \<and>
       holds (cl_reader cl') {#Network, AvPacket#})"
proof -
  from Open_accounted [OF assms(4), of oe url] obtain r where r: "accounted r"
    and op: "Open oe url (cl_reader cl) = Done r \<or> Open oe url (cl_reader cl) = Exited r"
    unfolding ends_accounted_def by blast
  let ?cl = "clog Info ''StreamReader opened: {}'' [ArgStr url] (cl\<lparr>cl_reader := r\<rparr>)"
  from op show ?thesis
  proof
    assume op: "Open oe url (cl_reader cl) = Done r"
    have "cl_running ?cl" using assms(3) by simp
    from client_loop_returns_aux [OF assms(1,2) this, of cc os] obtain cl1 where
      loop: "client_loop ff cc os Encode ?cl = Some (Ok cl1)" by blast
    with client_loop_accounted [OF loop] r have "accounted (cl_reader cl1)" by simp
    from Close_accounted [OF this] op loop show ?thesis
      by (intro exI [of _ "clog Info ''StreamReader closed'' [] (cl1\<lparr>cl_reader := Close (cl_reader cl1)\<rparr>)"])
        (simp add: client_thread_def)
  next
    assume "Open oe url (cl_reader cl) = Exited r"
    with r show ?thesis
      by (intro exI [of _ "cl\<lparr>cl_reader := r\<rparr>"]) (simp add: client_thread_def)
  qed
qed

text \<open>
  C23: Over a finite stream the client ends, and whichever way it ends, by returning from
  \<open>main\<close> or by an exit on one of the errors of \<open>Open\<close>, once the reader's destructor has run
  everything FFmpeg gave has been given back, each thing exactly once: the network, the
  packets, the format context and the filter. When the reader thread is done, only the network
  and the reader's own packet are held.
\<close>

theorem client_frees_everything:
  assumes "finite_stream ff m" and "encoder_ok Encode" and "StreamReader ff network_init env = Done r0"
  shows "\<exists>out cl. client_main ff network_init env oe (Done sk, logs) e encodingMode packetAmount
      streamSource os Encode x = Some out \<and> (out = Done (Ok cl) \<or> out = Exited (Ok cl)) \<and>
    (out = Done (Ok cl) \<longrightarrow> held (r_resources (cl_reader cl)) {#} = Some {#Network, AvPacket#}) \<and>
    held (r_resources (StreamReader_destroy (cl_reader cl))) {#} = Some {#}"
proof -
  define cc where "cc = \<lparr>cc_endian = e, cc_socket = sk, cc_encodingMode = encodingMode,
    cc_packetAmount = packetAmount\<rparr>"
  let ?cl = "fresh_client r0 x (logs @ [LogCall Info ''Socket created'' [],
    LogCall Info ''Encoder created with 8 cells'' []])"
  have "cl_running ?cl" and "accounted (cl_reader ?cl)"
    using StreamReader_accounted [OF assms(3)] by (simp_all add: fresh_client_def)
  from client_thread_accounted [OF assms(1,2) this, of oe streamSource cc os] obtain cl where
    acc: "accounted (cl_reader cl)"
    and out: "client_thread ff oe streamSource cc os Encode ?cl = Some (Exited (Ok cl)) \<or>
      client_thread ff oe streamSource cc os Encode ?cl = Some (Done (Ok cl)) \<and>
       holds (cl_reader cl) {#Network, AvPacket#}" by blast
  note main = client_main_def assms(3) Let_def cc_def [symmetric]
  from destroy_holds [OF acc] out show ?thesis
    by (elim disjE conjE) (auto simp: main holds_def)
qed

text \<open>An MP4 file read through the filter; the filter's initialisation may fail.\<close>

definition mp4_file :: "int \<Rightarrow> (av_packet list \<times> av_packet list \<times> bool) open_env" where
  "mp4_file init = \<lparr>oe_open_input = 0, oe_find_stream_info = 0, oe_format_name = ''mp4'',
     oe_streams = [(False, False), (True, True)], oe_bsf_found = True, oe_bsf_alloc = 0,
     oe_parameters_copy = 0, oe_bsf_init = init,
     oe_env = ([(data_packet [0, 0, 1, 7])\<lparr>pkt_stream_index := 1\<rparr>], [], False)\<rparr>"

theorem client_frees_everything_witness:
  "\<exists>out cl. client_main queue_ffmpeg 0 ([], [], False) (mp4_file (-22)) (Done demo_socket, []) LittleEndian
      True 8 ''a.mp4'' (\<lambda>_. 0) demo_encode () = Some out \<and> out = Exited (Ok cl) \<and>
    held (r_resources (StreamReader_destroy (cl_reader cl))) {#} = Some {#}"
proof -
  let ?r0 = "acquire AvPacket (acquire Network (reader_zero ([], [], False)))"
  have sr: "StreamReader queue_ffmpeg 0 ([], [], False) = Done ?r0"
    by (simp add: StreamReader_def queue_ffmpeg_def Let_def)
  have "\<exists>r. Open (mp4_file (-22)) ''a.mp4'' ?r0 = Exited r"
    by (simp add: Open_def mp4_file_def Let_def open_fail_def reader_zero_def)
  then obtain r where "Open (mp4_file (-22)) ''a.mp4'' ?r0 = Exited r" ..
  then have fails: "client_main queue_ffmpeg 0 ([], [], False) (mp4_file (-22)) (Done demo_socket, [])
      LittleEndian True 8 ''a.mp4'' (\<lambda>_. 0) demo_encode () = Some out \<Longrightarrow> out \<noteq> Done res" for out res
    by (auto simp: client_main_def sr client_thread_def fresh_client_def Let_def)
  from client_frees_everything [OF queue_finite demo_encode_ok sr, of "mp4_file (-22)" demo_socket "[]"
      LittleEndian True 8 "''a.mp4''" "\<lambda>_. 0" "()"] fails
  show ?thesis by blast
qed

end
