(* ===== verification/Config.thy ===== *)
theory Config
  imports Logger Statistics
begin

text \<open>
  The configuration readers: \<open>common/config/Parser.h\<close> and the two classes of
  \<open>common/config/Config.h\<close>. The JSON library and the system calls are parameters. A
  constructor runs to its end (\<open>Cont\<close>), ends the process by \<open>exit(1)\<close> (\<open>Exit\<close>), or violates
  an assertion of the library (\<open>Abort\<close>): a member is looked up in a value that is no object.
\<close>

section \<open>The JSON library\<close>

record 'v rapidjson =
  IsObject :: "'v \<Rightarrow> bool"
  ObjectEmpty :: "'v \<Rightarrow> bool"
  FindMember :: "'v \<Rightarrow> string \<Rightarrow> 'v option"
  IsString :: "'v \<Rightarrow> bool"
  GetString :: "'v \<Rightarrow> string"
  IsUint :: "'v \<Rightarrow> bool"
  GetUint :: "'v \<Rightarrow> u32"
  IsInt :: "'v \<Rightarrow> bool"
  GetInt :: "'v \<Rightarrow> int"
  IsBool :: "'v \<Rightarrow> bool"
  GetBool :: "'v \<Rightarrow> bool"
  IsArray :: "'v \<Rightarrow> bool"
  GetArray :: "'v \<Rightarrow> 'v list"

section \<open>Reading the file\<close>

text \<open>
  What the system calls give for the path, and the parser for the mapped bytes: a document or
  an error code with its text.
\<close>

record 'v file_env =
  fe_open :: int
  fe_fstat :: int
  fe_size :: nat
  fe_mapped :: bool
  fe_parse :: "(int \<times> string) + 'v"

datatype fd_event = FdOpened | FdClosed | Mapped | Unmapped

definition kParseErrorDocumentEmpty :: int where "kParseErrorDocumentEmpty = 1"

definition Read :: "'v file_env \<Rightarrow> (int + 'v) \<times> log_call list \<times> fd_event list" where
  "Read fe =
     (if fe_open fe < 0
      then (Inl kParseErrorDocumentEmpty,
            [LogCall Error ''Configuration file descriptor cannot be created'' []], [])
      else if fe_fstat fe \<noteq> 0
      then (Inl kParseErrorDocumentEmpty,
            [LogCall Error ''Error during getting configuration file attributes'' []],
            [FdOpened, FdClosed])
      else if fe_size fe = 0
      then (Inl kParseErrorDocumentEmpty,
            [LogCall Error ''Configuration file is empty file'' []], [FdOpened, FdClosed])
      else if \<not> fe_mapped fe
      then (Inl kParseErrorDocumentEmpty,
            [LogCall Error ''Error during configuration file mapping in virtual memory'' []],
            [FdOpened, FdClosed])
      else (case fe_parse fe of
              Inl (code, msg) \<Rightarrow>
                (Inl code, [LogCall Error ''Configuration file parse from json failed: {}'' [ArgStr msg]],
                 [FdOpened, Mapped, FdClosed, Unmapped])
            | Inr doc \<Rightarrow> (Inr doc, [], [FdOpened, Mapped, FdClosed, Unmapped])))"

section \<open>The constructors' machinery\<close>

text \<open>The object under construction and the two singletons it changes.\<close>

record 'c cfg_state =
  cs_config :: 'c
  cs_logger :: logger
  cs_stats :: statistics
  cs_log :: "log_call list"

datatype 'a cfg_result = Cont 'a | Exit 'a | Abort

fun and_then :: "'a cfg_result \<Rightarrow> ('a \<Rightarrow> 'a cfg_result) \<Rightarrow> 'a cfg_result" where
  "and_then (Cont s) f = f s"
| "and_then (Exit s) f = Exit s"
| "and_then Abort f = Abort"

definition cfg_log :: "LogLevel \<Rightarrow> string \<Rightarrow> log_arg list \<Rightarrow> 'c cfg_state \<Rightarrow> 'c cfg_state" where
  "cfg_log level msg args s = s\<lparr>cs_log := cs_log s @ [LogCall level msg args]\<rparr>"

definition fail :: "string \<Rightarrow> 'c cfg_state \<Rightarrow> 'c cfg_state cfg_result" where
  "fail msg s = Exit (cfg_log Error msg [] s)"

definition tab_line :: "string \<Rightarrow> string" where
  "tab_line msg = CHR 0x09 # msg"

text \<open>\<open>FindMember\<close> and \<open>HasMember\<close> assert that the value is an object.\<close>

definition find_member :: "'v rapidjson \<Rightarrow> 'v \<Rightarrow> string \<Rightarrow> 'v option access" where
  "find_member js v key = (if IsObject js v then Ok (FindMember js v key) else OutOfBounds)"

text \<open>
  The code's pattern for a field: when it is there it must have its type, and is then used.
\<close>

definition read_field :: "'v rapidjson \<Rightarrow> 'v \<Rightarrow> string \<Rightarrow> ('v \<Rightarrow> bool) \<Rightarrow> string \<Rightarrow>
    ('v \<Rightarrow> 'c cfg_state \<Rightarrow> 'c cfg_state cfg_result) \<Rightarrow> 'c cfg_state \<Rightarrow> 'c cfg_state cfg_result" where
  "read_field js sec key has_type wrong_type use s =
     (case find_member js sec key of
        OutOfBounds \<Rightarrow> Abort
      | Ok None \<Rightarrow> Cont s
      | Ok (Some v) \<Rightarrow> if \<not> has_type v then fail wrong_type s else use v s)"

text \<open>A section: nothing happens when it is missing.\<close>

definition with_section :: "'v rapidjson \<Rightarrow> 'v \<Rightarrow> string \<Rightarrow>
    ('v \<Rightarrow> 'c cfg_state \<Rightarrow> 'c cfg_state cfg_result) \<Rightarrow> 'c cfg_state \<Rightarrow> 'c cfg_state cfg_result" where
  "with_section js doc key use s =
     (case find_member js doc key of
        OutOfBounds \<Rightarrow> Abort
      | Ok None \<Rightarrow> Cont s
      | Ok (Some v) \<Rightarrow> use v s)"

text \<open>A mandatory member, tested by \<open>HasMember\<close>.\<close>

definition require_member :: "'v rapidjson \<Rightarrow> 'v \<Rightarrow> string \<Rightarrow> string \<Rightarrow> 'c cfg_state \<Rightarrow>
    'c cfg_state cfg_result" where
  "require_member js v key missing s =
     (case find_member js v key of
        OutOfBounds \<Rightarrow> Abort
      | Ok None \<Rightarrow> fail missing s
      | Ok (Some _) \<Rightarrow> Cont s)"

definition require_object :: "'v rapidjson \<Rightarrow> 'v \<Rightarrow> string \<Rightarrow> 'c cfg_state \<Rightarrow> 'c cfg_state cfg_result" where
  "require_object js v msg s = (if \<not> IsObject js v \<or> ObjectEmpty js v then fail msg s else Cont s)"

text \<open>\<open>Logger::SetFilePath\<close> ends the process when the file cannot be opened.\<close>

definition set_log_path :: "(string \<Rightarrow> bool) \<Rightarrow> string \<Rightarrow> 'c cfg_state \<Rightarrow> 'c cfg_state cfg_result" where
  "set_log_path can_open path s =
     (case SetFilePath can_open path (cs_logger s) of
        Done lg \<Rightarrow> Cont (s\<lparr>cs_logger := lg\<rparr>)
      | Exited lg \<Rightarrow> Exit (s\<lparr>cs_logger := lg\<rparr>)
      | Stuck \<Rightarrow> Abort)"

definition set_stat_path :: "(string \<Rightarrow> bool) \<Rightarrow> string \<Rightarrow> 'c cfg_state \<Rightarrow> 'c cfg_state cfg_result" where
  "set_stat_path can_open path s =
     (case stat_SetFilePath can_open path (cs_stats s) of
        Done st \<Rightarrow> Cont (s\<lparr>cs_stats := st\<rparr>)
      | Exited st \<Rightarrow> Exit (s\<lparr>cs_stats := st\<rparr>)
      | Stuck \<Rightarrow> Abort)"

lemma and_then_Cont: "and_then r f = Cont s \<longleftrightarrow> (\<exists>s1. r = Cont s1 \<and> f s1 = Cont s)"
  by (cases r) simp_all

lemma and_then_Abort: "and_then r f = Abort \<longleftrightarrow> r = Abort \<or> (\<exists>s1. r = Cont s1 \<and> f s1 = Abort)"
  by (cases r) simp_all

text \<open>
  Reading the configuration closes the file on every path and unmaps what it has
  mapped, and gives a document only when it logs nothing.
\<close>

theorem Read_releases:
  shows "case Read fe of (res, logs, evs) \<Rightarrow>
    length (filter (\<lambda>e. e = FdOpened) evs) = length (filter (\<lambda>e. e = FdClosed) evs) \<and>
    length (filter (\<lambda>e. e = Mapped) evs) = length (filter (\<lambda>e. e = Unmapped) evs) \<and>
    ((\<exists>doc. res = Inr doc) \<longleftrightarrow> logs = [])"
  by (simp add: Read_def split: sum.split)

end
