(* ===== verification/Config_Client.thy ===== *)
theory Config_Client
  imports Config
begin

text \<open>
  \<open>client::Config\<close>: its members with their defaults, the constructor section by section in
  the order of the code, the getters, and what \<open>main\<close> takes from them.
\<close>

section \<open>State and getters\<close>

record client_config =
  cf_serverIp :: string
  cf_serverPort :: u16
  cf_ownPort :: u16
  cf_streamSource :: string
  cf_logPath :: string
  cf_logLevel :: u8
  cf_encodingMode :: bool
  cf_packetAmount :: u8
  cf_interPacketGap :: u32

text \<open>\<open>_serverPort\<close> has no initial value: \<open>garbage\<close>.\<close>

definition client_config_init :: "u16 \<Rightarrow> client_config" where
  "client_config_init garbage =
     \<lparr>cf_serverIp = '''', cf_serverPort = garbage, cf_ownPort = 8000, cf_streamSource = '''',
      cf_logPath = DEFAULT_LOG_PATH, cf_logLevel = 0, cf_encodingMode = False,
      cf_packetAmount = 255, cf_interPacketGap = 0\<rparr>"

definition client_getters :: "client_config \<Rightarrow>
    string \<times> u16 \<times> string \<times> u8 \<times> u16 \<times> string \<times> bool \<times> u8 \<times> u32" where
  "client_getters c = (cf_serverIp c, cf_serverPort c, cf_logPath c, cf_logLevel c, cf_ownPort c,
     cf_streamSource c, cf_encodingMode c, cf_packetAmount c, cf_interPacketGap c)"

text \<open>The constants at the start of the client's \<open>main\<close>; the gap is narrowed to 8 bits.\<close>

record client_settings =
  cm_encodingMode :: bool
  cm_serverIp :: string
  cm_serverPort :: u16
  cm_ownPort :: u16
  cm_streamSource :: string
  cm_interPacketGap :: u8
  cm_packetAmount :: u32

definition client_settings_of :: "client_config \<Rightarrow> client_settings" where
  "client_settings_of c =
     (case client_getters c of (ip, port, _, _, own, source, mode, amount, gap) \<Rightarrow>
        \<lparr>cm_encodingMode = mode, cm_serverIp = ip, cm_serverPort = port, cm_ownPort = own,
         cm_streamSource = source, cm_interPacketGap = ucast gap, cm_packetAmount = ucast amount\<rparr>)"

section \<open>The constructor\<close>

definition client_log_section :: "'v rapidjson \<Rightarrow> (string \<Rightarrow> bool) \<Rightarrow> 'v \<Rightarrow>
    client_config cfg_state \<Rightarrow> client_config cfg_state cfg_result" where
  "client_log_section js can_open sec s =
     and_then
       (read_field js sec FIELD_PATH (IsString js)
          ''Config file client.json optional section <log> optional field <path> has wrong type''
          (\<lambda>v s. set_log_path can_open (GetString js v)
             (s\<lparr>cs_config := (cs_config s)\<lparr>cf_logPath := GetString js v\<rparr>\<rparr>)) s)
       (read_field js sec FIELD_LEVEL (IsUint js)
          ''Config file client.json optional section <log> optional field <level> has wrong type''
          (\<lambda>v s. let level = (ucast (GetUint js v) :: u8)
             in Cont (s\<lparr>cs_config := (cs_config s)\<lparr>cf_logLevel := level\<rparr>,
                      cs_logger := SetLevel (unat level) (cs_logger s)\<rparr>)))"

definition client_log_done :: "client_config cfg_state \<Rightarrow> client_config cfg_state cfg_result" where
  "client_log_done s = Cont
     (cfg_log Info (tab_line ''_logLevel: {}'') [ArgNat (unat (cf_logLevel (cs_config s)))]
       (cfg_log Info (tab_line ''_logPath: {}'') [ArgStr (cf_logPath (cs_config s))]
         (cfg_log Info ''Finished reading config file client.json optional section <log>'' [] s)))"

definition client_server_section :: "'v rapidjson \<Rightarrow> 'v \<Rightarrow>
    client_config cfg_state \<Rightarrow> client_config cfg_state cfg_result" where
  "client_server_section js sec s =
     and_then (and_then (and_then (and_then
       (require_object js sec ''Config file client.json mandatory section <server> is empty'' s)
       (require_member js sec FIELD_IP
          ''Config file client.json mandatory section <server> missing mandatory field <ip>''))
       (require_member js sec FIELD_PORT
          ''Config file client.json mandatory section <server> missing mandatory field <port>''))
       (read_field js sec FIELD_IP (IsString js)
          ''Config file client.json mandatory section <server> mandatory field <ip> has wrong type''
          (\<lambda>v s. Cont (s\<lparr>cs_config := (cs_config s)\<lparr>cf_serverIp := GetString js v\<rparr>\<rparr>))))
       (read_field js sec FIELD_PORT (IsUint js)
          ''Config file client.json mandatory section <server> mandatory field <port> has wrong type''
          (\<lambda>v s. Cont (s\<lparr>cs_config := (cs_config s)\<lparr>cf_serverPort := ucast (GetUint js v)\<rparr>\<rparr>)))"

definition client_server_done :: "client_config cfg_state \<Rightarrow> client_config cfg_state cfg_result" where
  "client_server_done s = Cont
     (cfg_log Info (tab_line ''_serverPort: {}'') [ArgNat (unat (cf_serverPort (cs_config s)))]
       (cfg_log Info (tab_line ''_serverIp: {}'') [ArgStr (cf_serverIp (cs_config s))]
         (cfg_log Info ''Finished reading config file client.json mandatory section <server>'' [] s)))"

text \<open>
  The amount is stored in 8 bits before its range is tested; the gap is looked up under the
  name of the log level.
\<close>

definition client_packet_section :: "'v rapidjson \<Rightarrow> 'v \<Rightarrow>
    client_config cfg_state \<Rightarrow> client_config cfg_state cfg_result" where
  "client_packet_section js sec s =
     and_then (and_then
       (read_field js sec ENCODING_MODE (IsBool js)
          ''Config file client.json optional section <packet> optional field <encoding> has wrong type''
          (\<lambda>v s. Cont (s\<lparr>cs_config := (cs_config s)\<lparr>cf_encodingMode := GetBool js v\<rparr>\<rparr>)) s)
       (read_field js sec PACKETS_AMOUNT (IsUint js)
          ''Config file client.json optional section <packet> optional field <amount> has wrong type''
          (\<lambda>v s. let amount = (ucast (GetUint js v) :: u8);
                  s1 = s\<lparr>cs_config := (cs_config s)\<lparr>cf_packetAmount := amount\<rparr>\<rparr>
             in if 255 < unat amount \<or> unat amount < 8
                then Exit (cfg_log Error
                       (''Config file client.json optional section <packet> optional'' @
                        ''field <amount> has wrong value {}, expected value in range <8-255>'')
                       [ArgNat (unat amount)] s1)
                else Cont s1)))
       (read_field js sec FIELD_LEVEL (IsUint js)
          ''Config file client.json optional section <packet> optional field <gap> has wrong type''
          (\<lambda>v s. Cont (s\<lparr>cs_config := (cs_config s)\<lparr>cf_interPacketGap := GetUint js v\<rparr>\<rparr>)))"

definition client_general_section :: "'v rapidjson \<Rightarrow> 'v \<Rightarrow>
    client_config cfg_state \<Rightarrow> client_config cfg_state cfg_result" where
  "client_general_section js sec s =
     and_then (and_then (and_then
       (require_object js sec ''Config file client.json mandatory section <general> is empty'' s)
       (require_member js sec STREAM_SOURCE
          ''Config file client.json mandatory section <general> missing mandatory field <source>''))
       (read_field js sec FIELD_PORT (IsUint js)
          ''Config file client.json mandatory section <general> optional field <port> has wrong type''
          (\<lambda>v s. Cont (s\<lparr>cs_config := (cs_config s)\<lparr>cf_ownPort := ucast (GetUint js v)\<rparr>\<rparr>))))
       (read_field js sec STREAM_SOURCE (IsString js)
          ''Config file client.json mandatory section <general> mandatory field <source> has wrong type''
          (\<lambda>v s. Cont (s\<lparr>cs_config := (cs_config s)\<lparr>cf_streamSource := GetString js v\<rparr>\<rparr>)))"

definition client_general_done :: "client_config cfg_state \<Rightarrow> client_config cfg_state cfg_result" where
  "client_general_done s = Cont
     (cfg_log Info (tab_line ''_encodingMode: {}'') [ArgBool (cf_encodingMode (cs_config s))]
       (cfg_log Info (tab_line ''_streamSource: {}'') [ArgStr (cf_streamSource (cs_config s))]
         (cfg_log Info (tab_line ''_ownPort: {}'') [ArgNat (unat (cf_ownPort (cs_config s)))]
           (cfg_log Info ''Finished reading config file client.json mandatory section <general>'' [] s))))"

definition client_sections :: "'v rapidjson \<Rightarrow> (string \<Rightarrow> bool) \<Rightarrow> 'v \<Rightarrow>
    client_config cfg_state \<Rightarrow> client_config cfg_state cfg_result" where
  "client_sections js can_open doc s =
     and_then (and_then (and_then (and_then (and_then (and_then (and_then (and_then (and_then
       (require_object js doc ''Config file client.json is not an object'' s)
       (require_member js doc GENERAL_SECTION
          ''Config file client.json missing mandatory section <general>''))
       (require_member js doc SERVER_SECTION
          ''Config file client.json missing mandatory section <server>''))
       (with_section js doc LOG_SECTION (client_log_section js can_open)))
       client_log_done)
       (with_section js doc SERVER_SECTION (client_server_section js)))
       client_server_done)
       (with_section js doc PACKET_SECTION (client_packet_section js)))
       (with_section js doc GENERAL_SECTION (client_general_section js)))
       client_general_done"

definition client_Config :: "'v rapidjson \<Rightarrow> 'v file_env \<Rightarrow> (string \<Rightarrow> bool) \<Rightarrow> u16 \<Rightarrow> logger \<Rightarrow>
    statistics \<Rightarrow> client_config cfg_state cfg_result" where
  "client_Config js fe can_open garbage lg st =
     (case Read fe of (res, logs, _) \<Rightarrow>
        let s = \<lparr>cs_config = client_config_init garbage, cs_logger = lg, cs_stats = st, cs_log = logs\<rparr>
        in case res of
             Inl _ \<Rightarrow> fail ''Empty or missing config file client.json'' s
           | Inr doc \<Rightarrow> client_sections js can_open doc s)"

section \<open>What a finished construction read\<close>

lemma read_field_Cont:
  "read_field js sec key ty err use s = Cont s' \<longleftrightarrow> IsObject js sec \<and>
     (case FindMember js sec key of None \<Rightarrow> s' = s | Some v \<Rightarrow> ty v \<and> use v s = Cont s')"
  by (auto simp: read_field_def find_member_def fail_def split: option.split)

lemma with_section_Cont:
  "with_section js doc key use s = Cont s' \<longleftrightarrow> IsObject js doc \<and>
     (case FindMember js doc key of None \<Rightarrow> s' = s | Some v \<Rightarrow> use v s = Cont s')"
  by (auto simp: with_section_def find_member_def split: option.split)

lemma require_Cont:
  "require_member js v key msg s = Cont s' \<longleftrightarrow> IsObject js v \<and> FindMember js v key \<noteq> None \<and> s' = s"
  "require_object js v msg s = Cont s' \<longleftrightarrow> IsObject js v \<and> \<not> ObjectEmpty js v \<and> s' = s"
  by (auto simp: require_member_def require_object_def find_member_def fail_def split: option.split)

lemmas cont_simps = and_then_Cont read_field_Cont with_section_Cont require_Cont

lemma cfg_log_fields [simp]:
  "cs_config (cfg_log l m a s) = cs_config s" "cs_logger (cfg_log l m a s) = cs_logger s"
  "cs_stats (cfg_log l m a s) = cs_stats s"
  by (simp_all add: cfg_log_def)

lemma set_log_path_Cont:
  "set_log_path can_open path s = Cont s' \<Longrightarrow> cs_config s' = cs_config s \<and> cs_stats s' = cs_stats s"
  by (auto simp: set_log_path_def SetFilePath_def split: if_splits)

text \<open>A field of a section of the document, the section being optional.\<close>

definition member :: "'v rapidjson \<Rightarrow> 'v \<Rightarrow> string \<Rightarrow> string \<Rightarrow> 'v option" where
  "member js doc sec key = Option.bind (FindMember js doc sec) (\<lambda>v. FindMember js v key)"

definition field_or :: "('v \<Rightarrow> 'a) \<Rightarrow> 'a \<Rightarrow> 'v option \<Rightarrow> 'a" where
  "field_or get dflt m = (case m of None \<Rightarrow> dflt | Some v \<Rightarrow> get v)"

lemma with_section_cases:
  assumes "with_section js doc key use s = Cont s'"
  obtains "FindMember js doc key = None" "s' = s"
  | v where "FindMember js doc key = Some v" "use v s = Cont s'"
  using assms by (auto simp: with_section_Cont split: option.splits)

lemma member_simps:
  "FindMember js doc sec = None \<Longrightarrow> member js doc sec key = None"
  "FindMember js doc sec = Some v \<Longrightarrow> member js doc sec key = FindMember js v key"
  by (simp_all add: member_def)

lemma log_section_Cont:
  assumes "client_log_section js can_open sec s = Cont s'"
  shows "\<exists>p l. cs_config s' = (cs_config s)\<lparr>cf_logPath := p, cf_logLevel := l\<rparr>"
proof -
  let ?c = "cs_config s"
  have "cs_config s' = ?c\<lparr>
      cf_logPath := field_or (GetString js) (cf_logPath ?c) (FindMember js sec FIELD_PATH),
      cf_logLevel := field_or (\<lambda>v. ucast (GetUint js v)) (cf_logLevel ?c) (FindMember js sec FIELD_LEVEL)\<rparr>"
    using assms
    by (cases "FindMember js sec FIELD_PATH"; cases "FindMember js sec FIELD_LEVEL")
      (auto simp: client_log_section_def cont_simps Let_def field_or_def dest!: set_log_path_Cont)
  then show ?thesis by blast
qed

lemma server_section_Cont:
  assumes "client_server_section js sec s = Cont s'"
  shows "\<exists>vi vp. FindMember js sec FIELD_IP = Some vi \<and> IsString js vi \<and>
    FindMember js sec FIELD_PORT = Some vp \<and> IsUint js vp \<and>
    cs_config s' = (cs_config s)\<lparr>cf_serverIp := GetString js vi, cf_serverPort := ucast (GetUint js vp)\<rparr>"
  using assms by (auto simp: client_server_section_def cont_simps split: option.splits)

lemma packet_section_Cont:
  assumes "client_packet_section js sec s = Cont s'" and "8 \<le> unat (cf_packetAmount (cs_config s))"
  shows "8 \<le> unat (cf_packetAmount (cs_config s')) \<and>
    cs_config s' = (cs_config s)\<lparr>
      cf_encodingMode := field_or (GetBool js) (cf_encodingMode (cs_config s)) (FindMember js sec ENCODING_MODE),
      cf_packetAmount := field_or (\<lambda>v. ucast (GetUint js v)) (cf_packetAmount (cs_config s))
        (FindMember js sec PACKETS_AMOUNT),
      cf_interPacketGap := field_or (GetUint js) (cf_interPacketGap (cs_config s))
        (FindMember js sec FIELD_LEVEL)\<rparr>"
  using assms
  by (cases "FindMember js sec ENCODING_MODE"; cases "FindMember js sec PACKETS_AMOUNT";
      cases "FindMember js sec FIELD_LEVEL")
    (auto simp: client_packet_section_def cont_simps Let_def field_or_def not_less split: if_splits)

lemma general_section_Cont:
  assumes "client_general_section js sec s = Cont s'"
  shows "\<exists>vs. FindMember js sec STREAM_SOURCE = Some vs \<and> IsString js vs \<and>
    cs_config s' = (cs_config s)\<lparr>
      cf_ownPort := field_or (\<lambda>v. ucast (GetUint js v)) (cf_ownPort (cs_config s)) (FindMember js sec FIELD_PORT),
      cf_streamSource := GetString js vs\<rparr>"
  using assms
  by (cases "FindMember js sec FIELD_PORT"; cases "FindMember js sec STREAM_SOURCE")
    (auto simp: client_general_section_def cont_simps field_or_def)

text \<open>The sections of the document, absent or present.\<close>

lemma with_client_log:
  assumes "with_section js doc LOG_SECTION (client_log_section js can_open) s = Cont s'"
  shows "\<exists>p l. cs_config s' = (cs_config s)\<lparr>cf_logPath := p, cf_logLevel := l\<rparr>"
proof -
  have same: "cs_config s = (cs_config s)\<lparr>cf_logPath := cf_logPath (cs_config s),
      cf_logLevel := cf_logLevel (cs_config s)\<rparr>" by simp
  from with_section_cases [OF assms] log_section_Cont same show ?thesis by metis
qed

lemma with_client_server:
  assumes "with_section js doc SERVER_SECTION (client_server_section js) s = Cont s'"
    and "FindMember js doc SERVER_SECTION \<noteq> None"
  shows "\<exists>vi vp. member js doc SERVER_SECTION FIELD_IP = Some vi \<and> IsString js vi \<and>
    member js doc SERVER_SECTION FIELD_PORT = Some vp \<and> IsUint js vp \<and>
    cs_config s' = (cs_config s)\<lparr>cf_serverIp := GetString js vi, cf_serverPort := ucast (GetUint js vp)\<rparr>"
proof (cases rule: with_section_cases [OF assms(1)])
  case 1
  with assms(2) show ?thesis by simp
next
  case (2 v)
  from server_section_Cont [OF 2(2)] show ?thesis by (simp add: member_simps(2) [OF 2(1)])
qed

lemma with_client_packet:
  assumes "with_section js doc PACKET_SECTION (client_packet_section js) s = Cont s'"
    and "8 \<le> unat (cf_packetAmount (cs_config s))"
  shows "8 \<le> unat (cf_packetAmount (cs_config s')) \<and> cs_config s' = (cs_config s)\<lparr>
      cf_encodingMode := field_or (GetBool js) (cf_encodingMode (cs_config s))
        (member js doc PACKET_SECTION ENCODING_MODE),
      cf_packetAmount := field_or (\<lambda>v. ucast (GetUint js v)) (cf_packetAmount (cs_config s))
        (member js doc PACKET_SECTION PACKETS_AMOUNT),
      cf_interPacketGap := field_or (GetUint js) (cf_interPacketGap (cs_config s))
        (member js doc PACKET_SECTION FIELD_LEVEL)\<rparr>"
proof (cases rule: with_section_cases [OF assms(1)])
  case 1
  with assms(2) show ?thesis by (simp add: member_simps field_or_def)
next
  case (2 v)
  from packet_section_Cont [OF 2(2) assms(2)] show ?thesis unfolding member_simps(2) [OF 2(1)] .
qed

lemma with_client_general:
  assumes "with_section js doc GENERAL_SECTION (client_general_section js) s = Cont s'"
    and "FindMember js doc GENERAL_SECTION \<noteq> None"
  shows "\<exists>vs. member js doc GENERAL_SECTION STREAM_SOURCE = Some vs \<and> IsString js vs \<and>
    cs_config s' = (cs_config s)\<lparr>
      cf_ownPort := field_or (\<lambda>v. ucast (GetUint js v)) (cf_ownPort (cs_config s))
        (member js doc GENERAL_SECTION FIELD_PORT),
      cf_streamSource := GetString js vs\<rparr>"
proof (cases rule: with_section_cases [OF assms(1)])
  case 1
  with assms(2) show ?thesis by simp
next
  case (2 v)
  from general_section_Cont [OF 2(2)] show ?thesis by (simp add: member_simps(2) [OF 2(1)])
qed

lemma client_sections_Cont:
  assumes "client_sections js can_open doc s = Cont s'"
    and "8 \<le> unat (cf_packetAmount (cs_config s))"
  shows "\<exists>vi vp vs p l. member js doc SERVER_SECTION FIELD_IP = Some vi \<and> IsString js vi \<and>
    member js doc SERVER_SECTION FIELD_PORT = Some vp \<and> IsUint js vp \<and>
    member js doc GENERAL_SECTION STREAM_SOURCE = Some vs \<and> IsString js vs \<and>
    8 \<le> unat (cf_packetAmount (cs_config s')) \<and>
    cs_config s' = (cs_config s)\<lparr>
      cf_logPath := p, cf_logLevel := l,
      cf_serverIp := GetString js vi, cf_serverPort := ucast (GetUint js vp),
      cf_encodingMode := field_or (GetBool js) (cf_encodingMode (cs_config s))
        (member js doc PACKET_SECTION ENCODING_MODE),
      cf_packetAmount := field_or (\<lambda>v. ucast (GetUint js v)) (cf_packetAmount (cs_config s))
        (member js doc PACKET_SECTION PACKETS_AMOUNT),
      cf_interPacketGap := field_or (GetUint js) (cf_interPacketGap (cs_config s))
        (member js doc PACKET_SECTION FIELD_LEVEL),
      cf_ownPort := field_or (\<lambda>v. ucast (GetUint js v)) (cf_ownPort (cs_config s))
        (member js doc GENERAL_SECTION FIELD_PORT),
      cf_streamSource := GetString js vs\<rparr>"
proof -
  from assms(1) obtain s1 t1 s2 t2 s3 s4 where
    g: "FindMember js doc GENERAL_SECTION \<noteq> None" and sv: "FindMember js doc SERVER_SECTION \<noteq> None"
    and log: "with_section js doc LOG_SECTION (client_log_section js can_open) s = Cont s1"
    and d1: "client_log_done s1 = Cont t1"
    and srv: "with_section js doc SERVER_SECTION (client_server_section js) t1 = Cont s2"
    and d2: "client_server_done s2 = Cont t2"
    and pk: "with_section js doc PACKET_SECTION (client_packet_section js) t2 = Cont s3"
    and gen: "with_section js doc GENERAL_SECTION (client_general_section js) s3 = Cont s4"
    and d4: "client_general_done s4 = Cont s'"
    by (auto simp: client_sections_def and_then_Cont require_Cont)
  have t1: "cs_config t1 = cs_config s1" using d1 by (auto simp: client_log_done_def)
  have t2: "cs_config t2 = cs_config s2" using d2 by (auto simp: client_server_done_def)
  have fin: "cs_config s' = cs_config s4" using d4 by (auto simp: client_general_done_def)
  from with_client_log [OF log] obtain p l where
    1: "cs_config s1 = (cs_config s)\<lparr>cf_logPath := p, cf_logLevel := l\<rparr>" by blast
  from with_client_server [OF srv sv] obtain vi vp where
    2: "member js doc SERVER_SECTION FIELD_IP = Some vi" "IsString js vi"
      "member js doc SERVER_SECTION FIELD_PORT = Some vp" "IsUint js vp"
      "cs_config s2 = (cs_config s1)\<lparr>cf_serverIp := GetString js vi,
         cf_serverPort := ucast (GetUint js vp)\<rparr>" unfolding t1 by blast
  have "8 \<le> unat (cf_packetAmount (cs_config t2))" using assms(2) by (simp add: t2 2(5) 1)
  note 3 = with_client_packet [OF pk this, unfolded t2]
  from with_client_general [OF gen g] obtain vs where
    4: "member js doc GENERAL_SECTION STREAM_SOURCE = Some vs" "IsString js vs"
      "cs_config s4 = (cs_config s3)\<lparr>
        cf_ownPort := field_or (\<lambda>v. ucast (GetUint js v)) (cf_ownPort (cs_config s3))
          (member js doc GENERAL_SECTION FIELD_PORT),
        cf_streamSource := GetString js vs\<rparr>" by blast
  from 3 [THEN conjunct1] 4(3) fin have amount: "8 \<le> unat (cf_packetAmount (cs_config s'))"
    by simp
  show ?thesis
    by (rule exI [of _ vi], rule exI [of _ vp], rule exI [of _ vs], rule exI [of _ p],
        rule exI [of _ l], intro conjI 2(1-4) 4(1,2) amount)
      (simp add: fin 4(3) 3 [THEN conjunct2] 2(5) 1)
qed

lemma client_config_read_aux:
  assumes "client_Config js fe can_open garbage lg st = Cont s"
  shows "\<exists>doc vi vp vs. fe_parse fe = Inr doc \<and>
    member js doc SERVER_SECTION FIELD_IP = Some vi \<and> IsString js vi \<and>
    member js doc SERVER_SECTION FIELD_PORT = Some vp \<and> IsUint js vp \<and>
    member js doc GENERAL_SECTION STREAM_SOURCE = Some vs \<and> IsString js vs \<and>
    cf_serverIp (cs_config s) = GetString js vi \<and> cf_serverPort (cs_config s) = ucast (GetUint js vp) \<and>
    cf_streamSource (cs_config s) = GetString js vs \<and>
    8 \<le> unat (cf_packetAmount (cs_config s)) \<and>
    cf_packetAmount (cs_config s) =
      field_or (\<lambda>v. ucast (GetUint js v)) 255 (member js doc PACKET_SECTION PACKETS_AMOUNT) \<and>
    cf_encodingMode (cs_config s) =
      field_or (GetBool js) False (member js doc PACKET_SECTION ENCODING_MODE) \<and>
    cf_ownPort (cs_config s) =
      field_or (\<lambda>v. ucast (GetUint js v)) 8000 (member js doc GENERAL_SECTION FIELD_PORT) \<and>
    cf_interPacketGap (cs_config s) =
      field_or (GetUint js) 0 (member js doc PACKET_SECTION FIELD_LEVEL)"
proof -
  from assms obtain doc logs where doc: "fe_parse fe = Inr doc"
    and run: "client_sections js can_open doc \<lparr>cs_config = client_config_init garbage, cs_logger = lg,
      cs_stats = st, cs_log = logs\<rparr> = Cont s"
    by (auto simp: client_Config_def Read_def fail_def Let_def split: sum.splits if_splits)
  have "8 \<le> unat (cf_packetAmount (cs_config \<lparr>cs_config = client_config_init garbage, cs_logger = lg,
      cs_stats = st, cs_log = logs\<rparr>))"
    by (simp add: client_config_init_def)
  from client_sections_Cont [OF run this] doc show ?thesis
    by (auto simp: client_config_init_def)
qed

text \<open>
  C38: When the client's configuration is read successfully, its mandatory fields are those
  of the document (the port modulo \<open>2^16\<close>), the others are there or have their defaults, the
  amount is at least 8 (and modulo 256 that of the document), and the pause between packets
  is what the document calls the \<open>level\<close> of the section \<open>packet\<close>.
\<close>

theorem client_config_read:
  assumes "client_Config js fe can_open garbage lg st = Cont s"
  shows "\<exists>doc vi vp vs. fe_parse fe = Inr doc \<and>
    member js doc SERVER_SECTION FIELD_IP = Some vi \<and> IsString js vi \<and>
    member js doc SERVER_SECTION FIELD_PORT = Some vp \<and> IsUint js vp \<and>
    member js doc GENERAL_SECTION STREAM_SOURCE = Some vs \<and> IsString js vs \<and>
    cf_serverIp (cs_config s) = GetString js vi \<and> cf_serverPort (cs_config s) = ucast (GetUint js vp) \<and>
    cf_streamSource (cs_config s) = GetString js vs \<and>
    8 \<le> unat (cf_packetAmount (cs_config s)) \<and>
    cf_packetAmount (cs_config s) =
      field_or (\<lambda>v. ucast (GetUint js v)) 255 (member js doc PACKET_SECTION PACKETS_AMOUNT) \<and>
    cf_encodingMode (cs_config s) =
      field_or (GetBool js) False (member js doc PACKET_SECTION ENCODING_MODE) \<and>
    cf_ownPort (cs_config s) =
      field_or (\<lambda>v. ucast (GetUint js v)) 8000 (member js doc GENERAL_SECTION FIELD_PORT) \<and>
    cf_interPacketGap (cs_config s) =
      field_or (GetUint js) 0 (member js doc PACKET_SECTION FIELD_LEVEL)"
  using assms by (rule client_config_read_aux)

section \<open>A small JSON library for the witnesses\<close>

datatype json = JObj "(string \<times> json) list" | JStr string | JUint u32 | JBool bool | JArr "json list"

definition json_api :: "json rapidjson" where
  "json_api =
     \<lparr>IsObject = (\<lambda>v. case v of JObj _ \<Rightarrow> True | _ \<Rightarrow> False),
      ObjectEmpty = (\<lambda>v. case v of JObj m \<Rightarrow> m = [] | _ \<Rightarrow> False),
      FindMember = (\<lambda>v k. case v of JObj m \<Rightarrow> map_of m k | _ \<Rightarrow> None),
      IsString = (\<lambda>v. case v of JStr _ \<Rightarrow> True | _ \<Rightarrow> False),
      GetString = (\<lambda>v. case v of JStr s \<Rightarrow> s | _ \<Rightarrow> ''''),
      IsUint = (\<lambda>v. case v of JUint _ \<Rightarrow> True | _ \<Rightarrow> False),
      GetUint = (\<lambda>v. case v of JUint n \<Rightarrow> n | _ \<Rightarrow> 0),
      IsInt = (\<lambda>v. case v of JUint n \<Rightarrow> unat n < 2 ^ 31 | _ \<Rightarrow> False),
      GetInt = (\<lambda>v. case v of JUint n \<Rightarrow> uint n | _ \<Rightarrow> 0),
      IsBool = (\<lambda>v. case v of JBool _ \<Rightarrow> True | _ \<Rightarrow> False),
      GetBool = (\<lambda>v. case v of JBool b \<Rightarrow> b | _ \<Rightarrow> False),
      IsArray = (\<lambda>v. case v of JArr _ \<Rightarrow> True | _ \<Rightarrow> False),
      GetArray = (\<lambda>v. case v of JArr vs \<Rightarrow> vs | _ \<Rightarrow> [])\<rparr>"

definition json_file :: "json \<Rightarrow> json file_env" where
  "json_file doc = \<lparr>fe_open = 3, fe_fstat = 0, fe_size = 100, fe_mapped = True, fe_parse = Inr doc\<rparr>"

definition demo_doc :: json where
  "demo_doc = JObj [(''server'', JObj [(''ip'', JStr ''10.0.0.1''), (''port'', JUint 65537)]),
     (''packet'', JObj [(''amount'', JUint 264), (''gap'', JUint 500)]),
     (''general'', JObj [(''source'', JStr ''a.h264'')])]"

lemmas config_eval = Read_def Let_def read_field_def with_section_def require_member_def
  require_object_def find_member_def fail_def json_file_def json_api_def
  FIELD_IP_def FIELD_PORT_def FIELD_PATH_def FIELD_LEVEL_def STREAM_SOURCE_def PACKETS_AMOUNT_def
  ENCODING_MODE_def GENERAL_SECTION_def SERVER_SECTION_def PACKET_SECTION_def LOG_SECTION_def

theorem client_config_read_witness:
  "\<exists>s. client_Config json_api (json_file demo_doc) (\<lambda>_. True) 0 (logger_init Map.empty)
      (statistics_init Map.empty) = Cont s \<and> cf_serverPort (cs_config s) = 1 \<and>
    cf_packetAmount (cs_config s) = 8 \<and> cf_interPacketGap (cs_config s) = 0"
proof -
  let ?r = "client_Config json_api (json_file demo_doc) (\<lambda>_. True) 0 (logger_init Map.empty)
      (statistics_init Map.empty)"
  have "\<exists>s. ?r = Cont s"
    by (simp add: client_Config_def client_sections_def client_server_section_def
        client_packet_section_def client_general_section_def client_log_done_def
        client_server_done_def client_general_done_def config_eval demo_doc_def)
  then obtain s where s: "?r = Cont s" ..
  from client_config_read [OF s] show ?thesis
    by (intro exI [of _ s] conjI s)
      (auto simp: demo_doc_def member_def field_or_def config_eval)
qed

section \<open>Sections that are no objects\<close>

text \<open>
  The optional section \<open>log\<close> is searched for its fields without a test that it is an
  object: a document with another value there violates the library's assertion, although
  everything mandatory is present.
\<close>

theorem log_section_must_be_object:
  assumes "Read fe = (Inr doc, logs, evs)" and "IsObject js doc" and "\<not> ObjectEmpty js doc"
    and "FindMember js doc GENERAL_SECTION \<noteq> None" and "FindMember js doc SERVER_SECTION \<noteq> None"
    and "FindMember js doc LOG_SECTION = Some v" and "\<not> IsObject js v"
  shows "client_Config js fe can_open garbage lg st = Abort"
  using assms
  by (auto simp: client_Config_def Let_def client_sections_def require_object_def
      require_member_def find_member_def with_section_def client_log_section_def read_field_def)

theorem log_section_must_be_object_witness:
  "client_Config json_api (json_file (JObj [(''log'', JStr ''trace''), (''server'', JObj []),
      (''general'', JObj [])])) (\<lambda>_. True) 0 (logger_init Map.empty) (statistics_init Map.empty) = Abort"
proof (rule log_section_must_be_object)
  let ?doc = "JObj [(''log'', JStr ''trace''), (''server'', JObj []), (''general'', JObj [])]"
  show "Read (json_file ?doc) = (Inr ?doc, [], [FdOpened, Mapped, FdClosed, Unmapped])"
    by (simp add: Read_def json_file_def)
  show "\<not> IsObject json_api (JStr ''trace'')" by (simp add: json_api_def)
qed (simp_all add: json_api_def GENERAL_SECTION_def SERVER_SECTION_def LOG_SECTION_def)

end
