(* ===== verification/Config_Server.thy ===== *)
theory Config_Server
  imports Config_Client
begin

text \<open>
  \<open>server::Config\<close>: its members with their defaults, the constructor section by section in
  the order of the code, with the registration of the counters, and the getters.
\<close>

section \<open>State and getters\<close>

record server_config =
  sf_ownPort :: u16
  sf_rxBufferSize :: int
  sf_logPath :: string
  sf_logLevel :: u8
  sf_bufferInterval :: u32
  sf_frameTimeout :: u32
  sf_statPath :: string
  sf_counters :: "string list"

definition default_counters :: "string list" where
  "default_counters =
     [ACCEPTED_PACKETS, ACCEPTED_BLOCKS, EXPECTED_BLOCKS, ASSEMBLED_NALU, SKIPPED_NALU]"

definition server_config_init :: server_config where
  "server_config_init =
     \<lparr>sf_ownPort = 8000, sf_rxBufferSize = 65536, sf_logPath = DEFAULT_LOG_PATH, sf_logLevel = 0,
      sf_bufferInterval = 33, sf_frameTimeout = 100, sf_statPath = DEFAULT_STAT_PATH,
      sf_counters = default_counters\<rparr>"

definition server_getters :: "server_config \<Rightarrow> string \<times> u8 \<times> u16 \<times> int \<times> u32 \<times> u32" where
  "server_getters c = (sf_logPath c, sf_logLevel c, sf_ownPort c, sf_rxBufferSize c,
     sf_bufferInterval c, sf_frameTimeout c)"

section \<open>The constructor\<close>

definition server_log_section :: "'v rapidjson \<Rightarrow> (string \<Rightarrow> bool) \<Rightarrow> 'v \<Rightarrow>
    server_config cfg_state \<Rightarrow> server_config cfg_state cfg_result" where
  "server_log_section js can_open sec s =
     and_then
       (read_field js sec FIELD_PATH (IsString js)
          ''Config file server.json optional section <log> optional field <path> has wrong type''
          (\<lambda>v s. set_log_path can_open (GetString js v)
             (s\<lparr>cs_config := (cs_config s)\<lparr>sf_logPath := GetString js v\<rparr>\<rparr>)) s)
       (read_field js sec FIELD_LEVEL (IsUint js)
          ''Config file server.json optional section <log> optional field <level> has wrong type''
          (\<lambda>v s. let level = (ucast (GetUint js v) :: u8)
             in Cont (s\<lparr>cs_config := (cs_config s)\<lparr>sf_logLevel := level\<rparr>,
                      cs_logger := SetLevel (unat level) (cs_logger s)\<rparr>)))"

definition server_log_done :: "server_config cfg_state \<Rightarrow> server_config cfg_state cfg_result" where
  "server_log_done s = Cont
     (cfg_log Info (tab_line ''_logLevel: {}'') [ArgNat (unat (sf_logLevel (cs_config s)))]
       (cfg_log Info (tab_line ''_logPath: {}'') [ArgStr (sf_logPath (cs_config s))]
         (cfg_log Info ''Finished reading config file server.json optional section <log>'' [] s)))"

text \<open>The configured names are appended to the default ones, one by one.\<close>

fun read_counters :: "'v rapidjson \<Rightarrow> 'v list \<Rightarrow> server_config cfg_state \<Rightarrow>
    server_config cfg_state cfg_result" where
  "read_counters js [] s = Cont s"
| "read_counters js (counter # rest) s =
     (if \<not> IsString js counter
      then fail ''Config file server.json optional section <statistics> optional field <counters> has element with wrong type'' s
      else read_counters js rest
             (s\<lparr>cs_config := (cs_config s)\<lparr>sf_counters :=
                sf_counters (cs_config s) @ [GetString js counter]\<rparr>\<rparr>))"

definition server_stat_section :: "'v rapidjson \<Rightarrow> (string \<Rightarrow> bool) \<Rightarrow> 'v \<Rightarrow>
    server_config cfg_state \<Rightarrow> server_config cfg_state cfg_result" where
  "server_stat_section js can_open sec s =
     and_then
       (read_field js sec FIELD_PATH (IsString js)
          ''Config file server.json optional section <statistics> optional field <path> has wrong type''
          (\<lambda>v s. set_stat_path can_open (GetString js v)
             (s\<lparr>cs_config := (cs_config s)\<lparr>sf_statPath := GetString js v\<rparr>\<rparr>)) s)
       (read_field js sec COUNTERS (IsArray js)
          ''Config file server.json optional section <statistics> optional field <counters> has wrong type''
          (\<lambda>v s. read_counters js (GetArray js v) s))"

definition server_stat_done :: "server_config cfg_state \<Rightarrow> server_config cfg_state cfg_result" where
  "server_stat_done s =
     (let s1 = cfg_log Info (tab_line ''_counters: {}'') [ArgStrs (sf_counters (cs_config s))]
           (cfg_log Info (tab_line ''_statPath: {}'') [ArgStr (sf_statPath (cs_config s))]
             (cfg_log Info ''Finished reading config file server.json optional section <statistics>'' [] s))
      in Cont (s1\<lparr>cs_stats := RegisterCounters (sf_counters (cs_config s1)) (cs_stats s1)\<rparr>))"

definition server_player_section :: "'v rapidjson \<Rightarrow> 'v \<Rightarrow>
    server_config cfg_state \<Rightarrow> server_config cfg_state cfg_result" where
  "server_player_section js sec s =
     and_then
       (read_field js sec BUFFER_INTERVAL (IsUint js)
          ''Config file server.json optional section <player> optional field <bufferInterval> has wrong type''
          (\<lambda>v s. Cont (s\<lparr>cs_config := (cs_config s)\<lparr>sf_bufferInterval := GetUint js v\<rparr>\<rparr>)) s)
       (read_field js sec FRAME_ASSEMBLY_TIMEOUT (IsUint js)
          ''Config file server.json optional section <player> optional field <frameTimeout> has wrong type''
          (\<lambda>v s. Cont (s\<lparr>cs_config := (cs_config s)\<lparr>sf_frameTimeout := GetUint js v\<rparr>\<rparr>)))"

definition server_player_done :: "server_config cfg_state \<Rightarrow> server_config cfg_state cfg_result" where
  "server_player_done s = Cont
     (cfg_log Info (tab_line ''_frameTimeout: {}'') [ArgNat (unat (sf_frameTimeout (cs_config s)))]
       (cfg_log Info (tab_line ''_bufferInterval: {}'') [ArgNat (unat (sf_bufferInterval (cs_config s)))]
         (cfg_log Info ''Finished reading config file server.json optional section <player>'' [] s)))"

definition server_general_section :: "'v rapidjson \<Rightarrow> 'v \<Rightarrow>
    server_config cfg_state \<Rightarrow> server_config cfg_state cfg_result" where
  "server_general_section js sec s =
     and_then (and_then (and_then
       (require_object js sec ''Config file server.json mandatory section <general> is empty'' s)
       (require_member js sec FIELD_PORT
          ''Config file server.json mandatory section <general> missing mandatory field <port>''))
       (read_field js sec FIELD_PORT (IsUint js)
          ''Config file server.json mandatory section <general> mandatory field <port> has wrong type''
          (\<lambda>v s. Cont (s\<lparr>cs_config := (cs_config s)\<lparr>sf_ownPort := ucast (GetUint js v)\<rparr>\<rparr>))))
       (read_field js sec SOCKET_SIZE (IsInt js)
          ''Config file server.json mandatory section <general> optional field <port> has wrong type''
          (\<lambda>v s. Cont (s\<lparr>cs_config := (cs_config s)\<lparr>sf_rxBufferSize := GetInt js v\<rparr>\<rparr>)))"

definition server_general_done :: "server_config cfg_state \<Rightarrow> server_config cfg_state cfg_result" where
  "server_general_done s = Cont
     (cfg_log Info (tab_line ''_ownPort: {}'') [ArgNat (unat (sf_ownPort (cs_config s)))]
       (cfg_log Info ''Finished reading config file server.json mandatory section <general>'' [] s))"

definition server_sections :: "'v rapidjson \<Rightarrow> (string \<Rightarrow> bool) \<Rightarrow> 'v \<Rightarrow>
    server_config cfg_state \<Rightarrow> server_config cfg_state cfg_result" where
  "server_sections js can_open doc s =
     and_then (and_then (and_then (and_then (and_then (and_then (and_then (and_then (and_then
       (require_object js doc ''Config file server.json is not an object'' s)
       (require_member js doc GENERAL_SECTION
          ''Config file server.json missing mandatory section <general>''))
       (with_section js doc LOG_SECTION (server_log_section js can_open)))
       server_log_done)
       (with_section js doc STAT_SECTION (server_stat_section js can_open)))
       server_stat_done)
       (with_section js doc PLAYER_SECTION (server_player_section js)))
       server_player_done)
       (with_section js doc GENERAL_SECTION (server_general_section js)))
       server_general_done"

definition server_Config :: "'v rapidjson \<Rightarrow> 'v file_env \<Rightarrow> (string \<Rightarrow> bool) \<Rightarrow> logger \<Rightarrow>
    statistics \<Rightarrow> server_config cfg_state cfg_result" where
  "server_Config js fe can_open lg st =
     (case Read fe of (res, logs, _) \<Rightarrow>
        let s = \<lparr>cs_config = server_config_init, cs_logger = lg, cs_stats = st, cs_log = logs\<rparr>
        in case res of
             Inl _ \<Rightarrow> fail ''Empty or missing config file server.json'' s
           | Inr doc \<Rightarrow> server_sections js can_open doc s)"

section \<open>What each section leaves\<close>

lemma server_log_section_Cont:
  assumes "server_log_section js can_open sec s = Cont s'"
  shows "\<exists>p l. cs_config s' = (cs_config s)\<lparr>sf_logPath := p, sf_logLevel := l\<rparr>"
    and "cs_stats s' = cs_stats s"
proof -
  let ?c = "cs_config s"
  have "cs_config s' = ?c\<lparr>
      sf_logPath := field_or (GetString js) (sf_logPath ?c) (FindMember js sec FIELD_PATH),
      sf_logLevel := field_or (\<lambda>v. ucast (GetUint js v)) (sf_logLevel ?c) (FindMember js sec FIELD_LEVEL)\<rparr> \<and>
    cs_stats s' = cs_stats s"
    using assms
    by (cases "FindMember js sec FIELD_PATH"; cases "FindMember js sec FIELD_LEVEL")
      (auto simp: server_log_section_def cont_simps Let_def field_or_def dest!: set_log_path_Cont)
  then show "\<exists>p l. cs_config s' = (cs_config s)\<lparr>sf_logPath := p, sf_logLevel := l\<rparr>"
    and "cs_stats s' = cs_stats s"
    by blast+
qed

lemma read_counters_Cont:
  "read_counters js vs s = Cont s' \<Longrightarrow> (\<forall>v \<in> set vs. IsString js v) \<and>
     s' = s\<lparr>cs_config := (cs_config s)\<lparr>sf_counters := sf_counters (cs_config s) @ map (GetString js) vs\<rparr>\<rparr>"
  by (induction js vs s rule: read_counters.induct) (auto simp: fail_def split: if_splits)

lemma set_stat_path_Cont:
  "set_stat_path can_open path s = Cont s' \<Longrightarrow> cs_config s' = cs_config s \<and>
     st_counters (cs_stats s') = st_counters (cs_stats s) \<and> st_index (cs_stats s') = st_index (cs_stats s) \<and>
     st_started (cs_stats s') = st_started (cs_stats s)"
  by (auto simp: set_stat_path_def stat_SetFilePath_def split: if_splits)

definition same_registry :: "statistics \<Rightarrow> statistics \<Rightarrow> bool" where
  "same_registry a b \<longleftrightarrow> st_counters a = st_counters b \<and> st_index a = st_index b \<and>
     st_started a = st_started b"

lemma stat_section_Cont:
  assumes "server_stat_section js can_open sec s = Cont s'"
  shows "same_registry (cs_stats s') (cs_stats s) \<and>
    (\<exists>p. cs_config s' = (cs_config s)\<lparr>sf_statPath := p, sf_counters := sf_counters (cs_config s) @
       field_or (\<lambda>v. map (GetString js) (GetArray js v)) [] (FindMember js sec COUNTERS)\<rparr>)"
proof -
  let ?c = "cs_config s"
  have "same_registry (cs_stats s') (cs_stats s) \<and> cs_config s' = ?c\<lparr>
      sf_statPath := field_or (GetString js) (sf_statPath ?c) (FindMember js sec FIELD_PATH),
      sf_counters := sf_counters ?c @
        field_or (\<lambda>v. map (GetString js) (GetArray js v)) [] (FindMember js sec COUNTERS)\<rparr>"
    using assms
    by (cases "FindMember js sec FIELD_PATH"; cases "FindMember js sec COUNTERS")
      (auto simp: server_stat_section_def cont_simps field_or_def same_registry_def
        dest!: set_stat_path_Cont read_counters_Cont)
  then show ?thesis by blast
qed

lemma player_section_Cont:
  assumes "server_player_section js sec s = Cont s'"
  shows "cs_stats s' = cs_stats s \<and> cs_config s' = (cs_config s)\<lparr>
    sf_bufferInterval := field_or (GetUint js) (sf_bufferInterval (cs_config s)) (FindMember js sec BUFFER_INTERVAL),
    sf_frameTimeout := field_or (GetUint js) (sf_frameTimeout (cs_config s)) (FindMember js sec FRAME_ASSEMBLY_TIMEOUT)\<rparr>"
  using assms
  by (cases "FindMember js sec BUFFER_INTERVAL"; cases "FindMember js sec FRAME_ASSEMBLY_TIMEOUT")
    (auto simp: server_player_section_def cont_simps field_or_def)

lemma server_general_section_Cont:
  assumes "server_general_section js sec s = Cont s'"
  shows "\<exists>vp. FindMember js sec FIELD_PORT = Some vp \<and> IsUint js vp \<and> cs_stats s' = cs_stats s \<and>
    cs_config s' = (cs_config s)\<lparr>
      sf_ownPort := ucast (GetUint js vp),
      sf_rxBufferSize := field_or (GetInt js) (sf_rxBufferSize (cs_config s)) (FindMember js sec SOCKET_SIZE)\<rparr>"
  using assms
  by (cases "FindMember js sec FIELD_PORT"; cases "FindMember js sec SOCKET_SIZE")
    (auto simp: server_general_section_def cont_simps field_or_def)

text \<open>The sections of the document, absent or present.\<close>

lemma with_server_log:
  assumes "with_section js doc LOG_SECTION (server_log_section js can_open) s = Cont s'"
  shows "\<exists>p l. cs_config s' = (cs_config s)\<lparr>sf_logPath := p, sf_logLevel := l\<rparr>"
    and "cs_stats s' = cs_stats s"
proof -
  have same: "cs_config s = (cs_config s)\<lparr>sf_logPath := sf_logPath (cs_config s),
      sf_logLevel := sf_logLevel (cs_config s)\<rparr>" by simp
  from with_section_cases [OF assms] server_log_section_Cont same
  show "\<exists>p l. cs_config s' = (cs_config s)\<lparr>sf_logPath := p, sf_logLevel := l\<rparr>"
    and "cs_stats s' = cs_stats s" by metis+
qed

lemma with_server_stat:
  assumes "with_section js doc STAT_SECTION (server_stat_section js can_open) s = Cont s'"
  shows "same_registry (cs_stats s') (cs_stats s) \<and>
    (\<exists>q. cs_config s' = (cs_config s)\<lparr>sf_statPath := q, sf_counters := sf_counters (cs_config s) @
       field_or (\<lambda>v. map (GetString js) (GetArray js v)) [] (member js doc STAT_SECTION COUNTERS)\<rparr>)"
proof (cases rule: with_section_cases [OF assms])
  case 1
  then show ?thesis
    by (intro conjI exI [of _ "sf_statPath (cs_config s)"])
      (simp_all add: member_simps field_or_def same_registry_def)
next
  case (2 v)
  from stat_section_Cont [OF 2(2)] show ?thesis by (simp add: member_simps(2) [OF 2(1)])
qed

lemma with_server_player:
  assumes "with_section js doc PLAYER_SECTION (server_player_section js) s = Cont s'"
  shows "cs_stats s' = cs_stats s \<and> cs_config s' = (cs_config s)\<lparr>
    sf_bufferInterval := field_or (GetUint js) (sf_bufferInterval (cs_config s))
      (member js doc PLAYER_SECTION BUFFER_INTERVAL),
    sf_frameTimeout := field_or (GetUint js) (sf_frameTimeout (cs_config s))
      (member js doc PLAYER_SECTION FRAME_ASSEMBLY_TIMEOUT)\<rparr>"
proof (cases rule: with_section_cases [OF assms])
  case 1
  then show ?thesis by (simp add: member_simps field_or_def)
next
  case (2 v)
  from player_section_Cont [OF 2(2)] show ?thesis by (simp add: member_simps(2) [OF 2(1)])
qed

lemma with_server_general:
  assumes "with_section js doc GENERAL_SECTION (server_general_section js) s = Cont s'"
    and "FindMember js doc GENERAL_SECTION \<noteq> None"
  shows "\<exists>vp. member js doc GENERAL_SECTION FIELD_PORT = Some vp \<and> IsUint js vp \<and>
    cs_stats s' = cs_stats s \<and> cs_config s' = (cs_config s)\<lparr>
      sf_ownPort := ucast (GetUint js vp),
      sf_rxBufferSize := field_or (GetInt js) (sf_rxBufferSize (cs_config s))
        (member js doc GENERAL_SECTION SOCKET_SIZE)\<rparr>"
proof (cases rule: with_section_cases [OF assms(1)])
  case 1
  with assms(2) show ?thesis by simp
next
  case (2 v)
  from server_general_section_Cont [OF 2(2)] show ?thesis by (simp add: member_simps(2) [OF 2(1)])
qed

lemma server_sections_Cont:
  assumes "server_sections js can_open doc s = Cont s'"
  shows "\<exists>vp p l q st1. member js doc GENERAL_SECTION FIELD_PORT = Some vp \<and> IsUint js vp \<and>
    same_registry st1 (cs_stats s) \<and> cs_stats s' = RegisterCounters (sf_counters (cs_config s')) st1 \<and>
    cs_config s' = (cs_config s)\<lparr>
      sf_logPath := p, sf_logLevel := l, sf_statPath := q,
      sf_counters := sf_counters (cs_config s) @
        field_or (\<lambda>v. map (GetString js) (GetArray js v)) [] (member js doc STAT_SECTION COUNTERS),
      sf_bufferInterval := field_or (GetUint js) (sf_bufferInterval (cs_config s))
        (member js doc PLAYER_SECTION BUFFER_INTERVAL),
      sf_frameTimeout := field_or (GetUint js) (sf_frameTimeout (cs_config s))
        (member js doc PLAYER_SECTION FRAME_ASSEMBLY_TIMEOUT),
      sf_ownPort := ucast (GetUint js vp),
      sf_rxBufferSize := field_or (GetInt js) (sf_rxBufferSize (cs_config s))
        (member js doc GENERAL_SECTION SOCKET_SIZE)\<rparr>"
proof -
  from assms obtain s1 t1 s2 t2 s3 t3 s4 where
    g: "FindMember js doc GENERAL_SECTION \<noteq> None"
    and log: "with_section js doc LOG_SECTION (server_log_section js can_open) s = Cont s1"
    and d1: "server_log_done s1 = Cont t1"
    and stat: "with_section js doc STAT_SECTION (server_stat_section js can_open) t1 = Cont s2"
    and d2: "server_stat_done s2 = Cont t2"
    and player: "with_section js doc PLAYER_SECTION (server_player_section js) t2 = Cont s3"
    and d3: "server_player_done s3 = Cont t3"
    and gen: "with_section js doc GENERAL_SECTION (server_general_section js) t3 = Cont s4"
    and d4: "server_general_done s4 = Cont s'"
    by (auto simp: server_sections_def and_then_Cont require_Cont)
  have t1: "cs_config t1 = cs_config s1" "cs_stats t1 = cs_stats s1"
    using d1 by (auto simp: server_log_done_def)
  have t2: "cs_config t2 = cs_config s2"
      "cs_stats t2 = RegisterCounters (sf_counters (cs_config s2)) (cs_stats s2)"
    using d2 by (auto simp: server_stat_done_def Let_def)
  have t3: "cs_config t3 = cs_config s3" "cs_stats t3 = cs_stats s3"
    using d3 by (auto simp: server_player_done_def)
  have fin: "cs_config s' = cs_config s4" "cs_stats s' = cs_stats s4"
    using d4 by (auto simp: server_general_done_def)
  obtain p l where 1: "cs_config s1 = (cs_config s)\<lparr>sf_logPath := p, sf_logLevel := l\<rparr>"
    and keep1: "cs_stats s1 = cs_stats s"
    using with_server_log [OF log] by blast
  obtain q where 2: "cs_config s2 = (cs_config s1)\<lparr>sf_statPath := q,
      sf_counters := sf_counters (cs_config s1) @
        field_or (\<lambda>v. map (GetString js) (GetArray js v)) [] (member js doc STAT_SECTION COUNTERS)\<rparr>"
    and keep2: "same_registry (cs_stats s2) (cs_stats s)"
    using with_server_stat [OF stat] unfolding t1 keep1 by blast
  note 3 = with_server_player [OF player, unfolded t2(1)]
  from with_server_general [OF gen g] obtain vp where 4:
      "member js doc GENERAL_SECTION FIELD_PORT = Some vp" "IsUint js vp" "cs_stats s4 = cs_stats s3"
      "cs_config s4 = (cs_config s3)\<lparr>sf_ownPort := ucast (GetUint js vp),
        sf_rxBufferSize := field_or (GetInt js) (sf_rxBufferSize (cs_config s3))
          (member js doc GENERAL_SECTION SOCKET_SIZE)\<rparr>"
    unfolding t3 by blast
  show ?thesis
    by (rule exI [of _ vp], rule exI [of _ p], rule exI [of _ l], rule exI [of _ q],
        rule exI [of _ "cs_stats s2"], intro conjI 4(1,2) keep2)
      (simp_all add: fin 4(3,4) 3 2 1 t2)
qed

lemma server_config_read_aux:
  assumes "server_Config js fe can_open lg (statistics_init files) = Cont s"
  shows "\<exists>doc vp. fe_parse fe = Inr doc \<and>
    member js doc GENERAL_SECTION FIELD_PORT = Some vp \<and> IsUint js vp \<and>
    sf_ownPort (cs_config s) = ucast (GetUint js vp) \<and>
    sf_rxBufferSize (cs_config s) = field_or (GetInt js) 65536 (member js doc GENERAL_SECTION SOCKET_SIZE) \<and>
    sf_bufferInterval (cs_config s) = field_or (GetUint js) 33 (member js doc PLAYER_SECTION BUFFER_INTERVAL) \<and>
    sf_frameTimeout (cs_config s) =
      field_or (GetUint js) 100 (member js doc PLAYER_SECTION FRAME_ASSEMBLY_TIMEOUT) \<and>
    st_counters (cs_stats s) = map (\<lambda>n. (n, 0)) (default_counters @
      new_names (set default_counters)
        (field_or (\<lambda>v. map (GetString js) (GetArray js v)) [] (member js doc STAT_SECTION COUNTERS)))"
proof -
  from assms obtain doc logs where doc: "fe_parse fe = Inr doc"
    and run: "server_sections js can_open doc \<lparr>cs_config = server_config_init, cs_logger = lg,
      cs_stats = statistics_init files, cs_log = logs\<rparr> = Cont s"
    by (auto simp: server_Config_def Read_def fail_def Let_def split: sum.splits if_splits)
  let ?names = "field_or (\<lambda>v. map (GetString js) (GetArray js v)) [] (member js doc STAT_SECTION COUNTERS)"
  from server_sections_Cont [OF run] obtain vp p l q st1 where
    vp: "member js doc GENERAL_SECTION FIELD_PORT = Some vp" "IsUint js vp"
    and reg: "same_registry st1 (statistics_init files)"
    and st: "cs_stats s = RegisterCounters (sf_counters (cs_config s)) st1"
    and cfg: "cs_config s = server_config_init\<lparr>sf_logPath := p, sf_logLevel := l, sf_statPath := q,
      sf_counters := default_counters @ ?names,
      sf_bufferInterval := field_or (GetUint js) 33 (member js doc PLAYER_SECTION BUFFER_INTERVAL),
      sf_frameTimeout := field_or (GetUint js) 100 (member js doc PLAYER_SECTION FRAME_ASSEMBLY_TIMEOUT),
      sf_ownPort := ucast (GetUint js vp),
      sf_rxBufferSize := field_or (GetInt js) 65536 (member js doc GENERAL_SECTION SOCKET_SIZE)\<rparr>"
    by (auto simp: server_config_init_def)
  have ok: "stat_ok st1" and ns: "\<not> st_started st1" and empty: "st_counters st1 = []"
    using reg by (simp_all add: same_registry_def stat_ok_def statistics_init_def)
  have "new_names {} (default_counters @ ns) = default_counters @ new_names (set default_counters) ns"
    for ns
    using counter_names_distinct
    by (simp only: new_names_append new_names_distinct default_counters_def [symmetric]
        Int_empty_right Un_empty_left)
  with register_each_counters [OF ok ns, of "default_counters @ ?names"] st cfg ns empty
  have "st_counters (cs_stats s) = map (\<lambda>n. (n, 0)) (default_counters @ new_names (set default_counters) ?names)"
    by (simp add: RegisterCounters_def)
  with doc vp cfg show ?thesis by (simp add: server_config_init_def)
qed

text \<open>
  C39: When the server's configuration is read successfully, its port is that of the
  document modulo \<open>2^16\<close>, the buffer size and the two times are there or have their defaults,
  and the counters registered are the five default ones followed by the new names of the
  document: naming counters adds columns and never removes a default one.
\<close>

theorem server_config_read:
  assumes "server_Config js fe can_open lg (statistics_init files) = Cont s"
  shows "\<exists>doc vp. fe_parse fe = Inr doc \<and>
    member js doc GENERAL_SECTION FIELD_PORT = Some vp \<and> IsUint js vp \<and>
    sf_ownPort (cs_config s) = ucast (GetUint js vp) \<and>
    sf_rxBufferSize (cs_config s) = field_or (GetInt js) 65536 (member js doc GENERAL_SECTION SOCKET_SIZE) \<and>
    sf_bufferInterval (cs_config s) = field_or (GetUint js) 33 (member js doc PLAYER_SECTION BUFFER_INTERVAL) \<and>
    sf_frameTimeout (cs_config s) =
      field_or (GetUint js) 100 (member js doc PLAYER_SECTION FRAME_ASSEMBLY_TIMEOUT) \<and>
    st_counters (cs_stats s) = map (\<lambda>n. (n, 0)) (default_counters @
      new_names (set default_counters)
        (field_or (\<lambda>v. map (GetString js) (GetArray js v)) [] (member js doc STAT_SECTION COUNTERS)))"
  using assms by (rule server_config_read_aux)

lemma server_config_stat_ok:
  assumes "server_Config js fe can_open lg (statistics_init files) = Cont s"
  shows "stat_ok (cs_stats s)"
proof -
  from assms obtain doc logs where
    "server_sections js can_open doc \<lparr>cs_config = server_config_init, cs_logger = lg,
      cs_stats = statistics_init files, cs_log = logs\<rparr> = Cont s"
    by (auto simp: server_Config_def Read_def fail_def Let_def split: sum.splits if_splits)
  from server_sections_Cont [OF this] obtain st1 where "same_registry st1 (statistics_init files)"
    and st: "cs_stats s = RegisterCounters (sf_counters (cs_config s)) st1" by auto
  then have "stat_ok st1" by (simp add: same_registry_def stat_ok_def statistics_init_def)
  then show ?thesis by (simp add: st stat_ok_RegisterCounters)
qed

definition server_doc :: json where
  "server_doc = JObj [(''statistics'', JObj [(''counters'', JArr [JStr ''mine'', JStr ''skippedNalu''])]),
     (''general'', JObj [(''port'', JUint 9000)])]"

lemmas server_eval = config_eval STAT_SECTION_def PLAYER_SECTION_def COUNTERS_def SOCKET_SIZE_def
  BUFFER_INTERVAL_def FRAME_ASSEMBLY_TIMEOUT_def server_doc_def

lemma server_config_demo:
  "\<exists>s. server_Config json_api (json_file server_doc) (\<lambda>_. True) (logger_init Map.empty)
      (statistics_init Map.empty) = Cont s"
  by (simp add: server_Config_def server_sections_def server_log_section_def
      server_stat_section_def server_general_section_def server_log_done_def
      server_stat_done_def server_player_done_def server_general_done_def server_eval)

theorem server_config_read_witness:
  "\<exists>s. server_Config json_api (json_file server_doc) (\<lambda>_. True) (logger_init Map.empty)
      (statistics_init Map.empty) = Cont s \<and>
    sf_ownPort (cs_config s) = 9000 \<and> length (st_counters (cs_stats s)) = 6"
proof -
  from server_config_demo obtain s where
    s: "server_Config json_api (json_file server_doc) (\<lambda>_. True) (logger_init Map.empty)
      (statistics_init Map.empty) = Cont s" ..
  from server_config_read [OF s] show ?thesis
    by (intro exI [of _ s] conjI s)
      (auto simp: member_def field_or_def server_eval default_counters_def counter_names)
qed

end
