(* ===== verification/Server.thy ===== *)
theory Server
  imports Socket Player_Integrity Player_Display
begin

text \<open>
  The server program \<open>server/server.cpp\<close>: the receiver thread puts packets into a deque, the
  processor thread takes them out and gives their blocks to the player, the player thread
  plays. A step is one critical section of one thread; any interleaving is a list of steps.
  The Reed-Solomon decoder is third-party code and a parameter: \<open>Decode\<close> on a state \<open>'d\<close>.
  The counters are the player's (the statistics are one object).
\<close>

section \<open>The deque\<close>

text \<open>What the threads rely on: a first-in first-out queue.\<close>

locale fifo =
  fixes push :: "'a \<Rightarrow> 'q \<Rightarrow> 'q"
    and front :: "'q \<Rightarrow> 'a"
    and pop :: "'q \<Rightarrow> 'q"
    and is_empty :: "'q \<Rightarrow> bool"
    and contents :: "'q \<Rightarrow> 'a list"
  assumes push_contents: "contents (push x q) = contents q @ [x]"
    and empty_contents: "is_empty q \<longleftrightarrow> contents q = []"
    and pop_contents: "\<not> is_empty q \<Longrightarrow> contents q = front q # contents (pop q)"
begin

lemma push_not_empty: "\<not> is_empty (push x q)"
  by (simp add: empty_contents push_contents)

text \<open>What has been taken out, followed by what is inside, is what has been put in.\<close>

lemma pop_keeps_order: "\<not> is_empty q \<Longrightarrow> taken @ contents q = all \<Longrightarrow>
    (taken @ [front q]) @ contents (pop q) = all"
  by (simp add: pop_contents)

lemma push_keeps_order: "taken @ contents q = all \<Longrightarrow> taken @ contents (push x q) = all @ [x]"
  by (simp add: push_contents)

end

definition push_back :: "'a \<Rightarrow> 'a list \<Rightarrow> 'a list" where
  "push_back x q = q @ [x]"

definition deque_front :: "'a list \<Rightarrow> 'a" where
  "deque_front q = hd q"

definition pop_front :: "'a list \<Rightarrow> 'a list" where
  "pop_front q = tl q"

definition deque_empty :: "'a list \<Rightarrow> bool" where
  "deque_empty q \<longleftrightarrow> q = []"

interpretation dq: fifo push_back deque_front pop_front deque_empty "\<lambda>q. q"
  by unfold_locales (simp_all add: push_back_def deque_front_def pop_front_def deque_empty_def)

section \<open>State\<close>

record 'd server =
  sv_running :: bool
  sv_packetQueue :: "received list"
  sv_decoder :: 'd
  sv_player :: player
  sv_log :: "log_call list"

definition slog :: "LogLevel \<Rightarrow> string \<Rightarrow> log_arg list \<Rightarrow> 'd server \<Rightarrow> 'd server" where
  "slog level msg args sv = sv\<lparr>sv_log := sv_log sv @ [LogCall level msg args]\<rparr>"

type_synonym 'd decode = "u32 \<Rightarrow> u8 \<Rightarrow> bytes \<Rightarrow> 'd \<Rightarrow> bytes option \<times> 'd"

section \<open>The receiver thread\<close>

text \<open>
  \<open>junk\<close> and \<open>r\<close> are the buffer and the outcome of \<open>recv\<close>, \<open>errno\<close> the error number the
  thread sees afterwards; when the datagram was rejected it is a left-over.
\<close>

definition receiver_step :: "endian \<Rightarrow> bytes \<Rightarrow> recv_result \<Rightarrow> int \<Rightarrow> 'd server \<Rightarrow> 'd server access" where
  "receiver_step e junk r errno sv =
     (if \<not> sv_running sv then Ok sv
      else (case ReceiveNonBlocking e junk r of (res, logs) \<Rightarrow>
        let sv1 = sv\<lparr>sv_log := sv_log sv @ logs\<rparr>
        in case res of
             OutOfBounds \<Rightarrow> OutOfBounds
           | Ok None \<Rightarrow>
               Ok (if errno \<noteq> EAGAIN then slog Error ''Socket receive failed or timeout'' [] sv1
                   else sv1)
           | Ok (Some packet) \<Rightarrow>
               Ok (sv1\<lparr>sv_player := player_apply CountPacket (sv_player sv1),
                      sv_packetQueue := push_back packet (sv_packetQueue sv1)\<rparr>)))"

section \<open>The processor thread\<close>

text \<open>\<open>std::vector(p, p + n)\<close> over an array.\<close>

definition vector_of :: "bytes \<Rightarrow> nat \<Rightarrow> bytes access" where
  "vector_of arr n = (if n \<le> length arr then Ok (take n arr) else OutOfBounds)"

definition resize :: "nat \<Rightarrow> bytes \<Rightarrow> bytes" where
  "resize n xs = take n xs @ replicate (n - length xs) 0"

definition block_id :: "u32 \<Rightarrow> u32 \<Rightarrow> u32" where
  "block_id naluIndex blockIndex = or (push_bit 16 naluIndex) blockIndex"

fun process_packet :: "'d decode \<Rightarrow> received \<Rightarrow> 'd server \<Rightarrow> 'd server access" where
  "process_packet Decode (RawPacket arg) sv =
     (let h = p_header arg
      in case vector_of (p_payload arg) (unat (h_payloadSize h)) of
           OutOfBounds \<Rightarrow> OutOfBounds
         | Ok data \<Rightarrow>
             let sv1 = slog Debug (''Received <raw packet> with blockIndex: {}, naluIndex: {}, '' @
                   ''naluBlockSize: {}, payloadLength: {}. Added block to assemble in player'')
                   [ArgNat (unat (h_blockIndex h)), ArgNat (unat (h_naluIndex h)),
                    ArgNat (unat (h_naluSize h)), ArgNat (unat (h_payloadSize h))] sv
             in Ok (sv1\<lparr>sv_player :=
                  AddBlock (h_blockIndex h) (h_naluIndex h) (h_naluSize h) data (sv_player sv1)\<rparr>))"
| "process_packet Decode (RsPacket arg) sv =
     (let h = rs_header arg
      in case vector_of (rs_payload arg) fieldSize of
           OutOfBounds \<Rightarrow> OutOfBounds
         | Ok payload \<Rightarrow>
             let sv1 = slog Debug (''Received <rs packet> with blockIndex: {}, packetIndex: {}, '' @
                   ''naluIndex: {}, naluBlockSize: {}, payloadLength: {}'')
                   [ArgNat (unat (h_blockIndex h)), ArgNat (unat (h_packetIndex h)),
                    ArgNat (unat (h_naluIndex h)), ArgNat (unat (h_naluSize h)),
                    ArgNat (unat (h_payloadSize h))] sv
             in (case Decode (block_id (h_naluIndex h) (h_blockIndex h)) (h_packetIndex h) payload
                        (sv_decoder sv1) of
                   (decodedBlock, dec) \<Rightarrow>
                     let sv2 = sv1\<lparr>sv_decoder := dec\<rparr>
                     in case decodedBlock of
                          None \<Rightarrow> Ok sv2
                        | Some block \<Rightarrow>
                            let sv3 = slog Info (''Recovered block {} out of {} for nalu {}. '' @
                                  ''Added block to assemble in player'')
                                  [ArgNat (unat (h_blockIndex h)), ArgNat (unat (h_naluSize h - 1)),
                                   ArgNat (unat (h_naluIndex h))] sv2
                            in Ok (sv3\<lparr>sv_player :=
                                 AddBlock (h_blockIndex h) (h_naluIndex h) (h_naluSize h)
                                   (resize (unat (h_payloadSize h)) block) (sv_player sv3)\<rparr>)))"

text \<open>
  One pass of the processor: it waits while the deque is empty and the server runs, which is
  a step that changes nothing.
\<close>

definition processor_step :: "'d decode \<Rightarrow> 'd server \<Rightarrow> 'd server access" where
  "processor_step Decode sv =
     (if \<not> sv_running sv \<or> deque_empty (sv_packetQueue sv) then Ok sv
      else process_packet Decode (deque_front (sv_packetQueue sv))
             (sv\<lparr>sv_packetQueue := pop_front (sv_packetQueue sv)\<rparr>))"

section \<open>Runs\<close>

text \<open>\<open>PlayerTick\<close> is a pass of the player's loop with the window events it sees.\<close>

datatype server_op = RecvOp bytes recv_result int | ProcessOp | PlayerTick "sdl_event list"

fun server_apply :: "endian \<Rightarrow> 'd decode \<Rightarrow> server_op \<Rightarrow> 'd server \<Rightarrow> 'd server access" where
  "server_apply e Decode (RecvOp junk r errno) sv = receiver_step e junk r errno sv"
| "server_apply e Decode ProcessOp sv = processor_step Decode sv"
| "server_apply e Decode (PlayerTick evs) sv =
     Ok (sv\<lparr>sv_player := run_iteration evs (sv_player sv)\<rparr>)"

fun server_run :: "endian \<Rightarrow> 'd decode \<Rightarrow> server_op list \<Rightarrow> 'd server \<Rightarrow> 'd server access" where
  "server_run e Decode [] sv = Ok sv"
| "server_run e Decode (x # xs) sv =
     (case server_apply e Decode x sv of
        OutOfBounds \<Rightarrow> OutOfBounds
      | Ok sv1 \<Rightarrow> server_run e Decode xs sv1)"

text \<open>
  The start of \<open>main\<close>: the socket, the player's construction and start, the statistics.
  \<open>running\<close> is true from then on: no thread assigns it.
\<close>

definition server_boot :: "'d \<Rightarrow> player \<Rightarrow> log_call list \<Rightarrow> 'd server" where
  "server_boot decoder p logs = \<lparr>sv_running = True, sv_packetQueue = [], sv_decoder = decoder,
     sv_player = p, sv_log = logs\<rparr>"

definition server_main :: "socket_if outcome \<times> log_call list \<Rightarrow> 'c display outcome \<Rightarrow> bool \<Rightarrow>
    (string \<Rightarrow> bool) \<Rightarrow> (string list \<Rightarrow> string) \<Rightarrow> stream_write \<Rightarrow> 'd \<Rightarrow> statistics \<Rightarrow>
    'd server outcome" where
  "server_main sock disp window_ok can_open join_names header decoder st =
     (case sock of
        (Done sk, logs) \<Rightarrow>
          let logs1 = logs @ [LogCall Info ''SocketInterface created'' []];
              p = Start_player window_ok (player_init st)
          in (case disp of
                Done d \<Rightarrow>
                  (case Start can_open join_names header (pl_stats p) of
                     Stuck \<Rightarrow> Stuck
                   | Exited st1 \<Rightarrow> Exited (server_boot decoder (p\<lparr>pl_stats := st1\<rparr>) logs1)
                   | Done st1 \<Rightarrow> Done (server_boot decoder (p\<lparr>pl_stats := st1\<rparr>) logs1))
              | _ \<Rightarrow> Exited (server_boot decoder (player_init st) logs1))
      | (_, logs) \<Rightarrow> Exited (server_boot decoder (player_init st) logs))"

end
