(* ===== verification/Server_Facts.thy ===== *)
theory Server_Facts
  imports Server Player_Progress
begin

text \<open>
  What the server's threads do to the player, in any interleaving: nothing is read outside a
  packet, packets are processed in the order in which they were accepted and none is lost,
  and the player sees exactly the blocks of the processed packets.
\<close>

section \<open>Well-formed runs\<close>

text \<open>The receive buffer has its size, whatever it holds.\<close>

fun op_wf :: "server_op \<Rightarrow> bool" where
  "op_wf (RecvOp junk _ _) \<longleftrightarrow> length junk = bufferSize"
| "op_wf _ = True"

definition server_ok :: "'d server \<Rightarrow> bool" where
  "server_ok sv \<longleftrightarrow> sv_running sv \<and> list_all received_ok (sv_packetQueue sv)"

text \<open>The packet a receive accepts, as a specification.\<close>

fun accepts :: "endian \<Rightarrow> recv_result \<Rightarrow> received option" where
  "accepts e (RecvFail errno) = None"
| "accepts e (RecvDatagram d) = decode_datagram e (take bufferSize d)"

text \<open>What a processed packet does to the player and the decoder.\<close>

fun packet_ops :: "'d decode \<Rightarrow> received \<Rightarrow> 'd \<Rightarrow> player_op list \<times> 'd" where
  "packet_ops Decode (RawPacket arg) dec =
     (let h = p_header arg
      in ([Arrive (h_blockIndex h) (h_naluIndex h) (h_naluSize h)
             (take (unat (h_payloadSize h)) (p_payload arg))], dec))"
| "packet_ops Decode (RsPacket arg) dec =
     (let h = rs_header arg
      in case Decode (block_id (h_naluIndex h) (h_blockIndex h)) (h_packetIndex h) (rs_payload arg) dec of
           (None, dec1) \<Rightarrow> ([], dec1)
         | (Some b, dec1) \<Rightarrow>
             ([Arrive (h_blockIndex h) (h_naluIndex h) (h_naluSize h)
                 (resize (unat (h_payloadSize h)) b)], dec1))"

text \<open>The operations of the player that a run of the server amounts to.\<close>

fun player_ops :: "endian \<Rightarrow> 'd decode \<Rightarrow> server_op list \<Rightarrow> received list \<Rightarrow> 'd \<Rightarrow> player_op list" where
  "player_ops e Decode [] q dec = []"
| "player_ops e Decode (RecvOp junk r errno # xs) q dec =
     (case accepts e r of
        None \<Rightarrow> player_ops e Decode xs q dec
      | Some pkt \<Rightarrow> CountPacket # player_ops e Decode xs (q @ [pkt]) dec)"
| "player_ops e Decode (ProcessOp # xs) q dec =
     (case q of
        [] \<Rightarrow> player_ops e Decode xs [] dec
      | pkt # q' \<Rightarrow> (case packet_ops Decode pkt dec of
            (ops, dec1) \<Rightarrow> ops @ player_ops e Decode xs q' dec1))"
| "player_ops e Decode (PlayerTick evs # xs) q dec = Tick evs # player_ops e Decode xs q dec"

text \<open>
  The packets that are accepted; those that are processed, when the deque is a plain list; and
  what a list of packets, processed one after the other, does to the player and the decoder.
\<close>

fun accepted :: "endian \<Rightarrow> server_op list \<Rightarrow> received list" where
  "accepted e [] = []"
| "accepted e (RecvOp junk r errno # xs) =
     (case accepts e r of None \<Rightarrow> accepted e xs | Some pkt \<Rightarrow> pkt # accepted e xs)"
| "accepted e (_ # xs) = accepted e xs"

fun processed :: "endian \<Rightarrow> server_op list \<Rightarrow> received list \<Rightarrow> received list" where
  "processed e [] q = []"
| "processed e (RecvOp junk r errno # xs) q =
     (case accepts e r of None \<Rightarrow> processed e xs q | Some pkt \<Rightarrow> processed e xs (q @ [pkt]))"
| "processed e (ProcessOp # xs) q = (case q of [] \<Rightarrow> processed e xs [] | pkt # q' \<Rightarrow> pkt # processed e xs q')"
| "processed e (PlayerTick evs # xs) q = processed e xs q"

fun feed :: "'d decode \<Rightarrow> received list \<Rightarrow> 'd \<Rightarrow> player_op list \<times> 'd" where
  "feed Decode [] dec = ([], dec)"
| "feed Decode (pkt # pkts) dec =
     (case packet_ops Decode pkt dec of (ops, dec1) \<Rightarrow>
        case feed Decode pkts dec1 of (ops', dec2) \<Rightarrow> (ops @ ops', dec2))"

lemma feed_append:
  "feed Decode (ps @ qs) dec =
     (fst (feed Decode ps dec) @ fst (feed Decode qs (snd (feed Decode ps dec))),
      snd (feed Decode qs (snd (feed Decode ps dec))))"
  by (induction ps arbitrary: dec) (simp_all split: prod.split)

text \<open>The cases of a run, for the operations, the deque and the decoder's state together.\<close>

lemma player_ops_induct [case_names Nil Reject Accept Idle Process Tick]:
  assumes "\<And>q dec. P [] q dec"
    and "\<And>junk r errno xs q dec. accepts e r = None \<Longrightarrow> P xs q dec \<Longrightarrow> P (RecvOp junk r errno # xs) q dec"
    and "\<And>junk r errno xs q dec pkt. accepts e r = Some pkt \<Longrightarrow> P xs (q @ [pkt]) dec \<Longrightarrow>
      P (RecvOp junk r errno # xs) q dec"
    and "\<And>xs dec. P xs [] dec \<Longrightarrow> P (ProcessOp # xs) [] dec"
    and "\<And>xs pkt q dec ps dec1. packet_ops Decode pkt dec = (ps, dec1) \<Longrightarrow> P xs q dec1 \<Longrightarrow>
      P (ProcessOp # xs) (pkt # q) dec"
    and "\<And>evs xs q dec. P xs q dec \<Longrightarrow> P (PlayerTick evs # xs) q dec"
  shows "P ops q dec"
proof (induction ops arbitrary: q dec)
  case Nil
  show ?case by (rule assms(1))
next
  case (Cons x xs q dec)
  show ?case
  proof (cases x)
    case (RecvOp junk r errno)
    with Cons assms(2,3) show ?thesis by (cases "accepts e r") simp_all
  next
    case ProcessOp
    show ?thesis
    proof (cases q)
      case Nil
      with Cons assms(4) ProcessOp show ?thesis by simp
    next
      case q: (Cons pkt q')
      obtain ps dec1 where "packet_ops Decode pkt dec = (ps, dec1)" by fastforce
      with Cons assms(5) ProcessOp q show ?thesis by simp
    qed
  next
    case (PlayerTick evs)
    with Cons assms(6) show ?thesis by simp
  qed
qed

text \<open>A property of all operations of the player.\<close>

lemma packet_ops_all: "(\<And>bi ni t d. P (Arrive bi ni t d)) \<Longrightarrow> list_all P (fst (packet_ops Decode pkt dec))"
  by (cases pkt) (auto simp: Let_def split: prod.splits option.splits)

lemma player_ops_all:
  assumes "\<And>bi ni t d. P (Arrive bi ni t d)" and "P CountPacket"
    and "\<And>evs. PlayerTick evs \<in> set ops \<Longrightarrow> P (Tick evs)"
  shows "list_all P (player_ops e Decode ops q dec)"
  using assms(3)
proof (induction ops q dec rule: player_ops_induct [where e = e and Decode = Decode])
  case (Process xs pkt q dec ps dec1)
  with packet_ops_all [of P Decode pkt dec] assms(1) show ?case by simp
qed (use assms(2) in auto)

lemma player_ops_no_control:
  "StartOp w \<notin> set (player_ops e Decode ops q dec)" "StopOp \<notin> set (player_ops e Decode ops q dec)"
  using player_ops_all [of "\<lambda>x. x \<noteq> StartOp w \<and> x \<noteq> StopOp" ops e Decode q dec] by (auto simp: list_all_iff)

text \<open>The blocks that the player is given are those of the processed packets, in order.\<close>

lemma packet_ops_arrivals: "filter is_arrival (fst (packet_ops Decode pkt dec)) = fst (packet_ops Decode pkt dec)"
  using packet_ops_all [of is_arrival Decode pkt dec] by (simp add: filter_id_conv list_all_iff)

lemma player_ops_feed:
  "filter is_arrival (player_ops e Decode ops q dec) = fst (feed Decode (processed e ops q) dec)"
proof (induction ops q dec rule: player_ops_induct [where e = e and Decode = Decode])
  case (Process xs pkt q dec ps dec1)
  with packet_ops_arrivals [of Decode pkt dec] show ?case by (simp split: prod.split)
qed simp_all

section \<open>One step\<close>

lemma accepts_ok: "accepts e r = Some pkt \<Longrightarrow> received_ok pkt"
  by (cases r) (auto simp: decode_datagram_def split: access.splits dest: decompose_ok)

lemma receiver_step_eq:
  assumes "server_ok sv" and "length junk = bufferSize"
  shows "\<exists>sv'. receiver_step e junk r errno sv = Ok sv' \<and> server_ok sv' \<and>
    sv_decoder sv' = sv_decoder sv \<and>
    (case accepts e r of
       None \<Rightarrow> sv_packetQueue sv' = sv_packetQueue sv \<and> sv_player sv' = sv_player sv
     | Some pkt \<Rightarrow> sv_packetQueue sv' = push_back pkt (sv_packetQueue sv) \<and>
         sv_player sv' = player_apply CountPacket (sv_player sv))"
proof (cases r)
  case (RecvFail n)
  with assms show ?thesis by (auto simp: receiver_step_def server_ok_def slog_def Let_def)
next
  case (RecvDatagram d)
  with assms ReceiveNonBlocking_datagram [OF assms(2), of e d] accepts_ok [of e r] show ?thesis
    by (auto simp: receiver_step_def server_ok_def slog_def Let_def push_back_def
        simp del: ReceiveNonBlocking.simps split: option.split)
qed

lemma process_packet_eq:
  assumes "received_ok pkt"
  shows "\<exists>sv'. process_packet Decode pkt sv = Ok sv' \<and> sv_running sv' = sv_running sv \<and>
    sv_packetQueue sv' = sv_packetQueue sv \<and>
    (case packet_ops Decode pkt (sv_decoder sv) of (ops, dec) \<Rightarrow>
       sv_decoder sv' = dec \<and> sv_player sv' = player_run ops (sv_player sv))"
proof (cases pkt)
  case (RawPacket arg)
  with assms show ?thesis by (simp add: vector_of_def Let_def slog_def)
next
  case (RsPacket arg)
  obtain res dec where "Decode (block_id (h_naluIndex (rs_header arg)) (h_blockIndex (rs_header arg)))
      (h_packetIndex (rs_header arg)) (rs_payload arg) (sv_decoder sv) = (res, dec)"
    by fastforce
  with RsPacket assms show ?thesis
    by (cases res) (simp_all add: vector_of_def Let_def slog_def)
qed

section \<open>Runs\<close>

lemma processor_step_eq:
  assumes "server_ok sv"
  shows "\<exists>sv'. processor_step Decode sv = Ok sv' \<and> server_ok sv' \<and>
    (case sv_packetQueue sv of
       [] \<Rightarrow> sv' = sv
     | pkt # q \<Rightarrow> sv_packetQueue sv' = q \<and>
         (case packet_ops Decode pkt (sv_decoder sv) of (ops, dec) \<Rightarrow>
            sv_decoder sv' = dec \<and> sv_player sv' = player_run ops (sv_player sv)))"
proof (cases "sv_packetQueue sv")
  case Nil
  with assms show ?thesis by (simp add: processor_step_def deque_empty_def)
next
  case (Cons pkt q)
  let ?sv = "sv\<lparr>sv_packetQueue := q\<rparr>"
  from assms Cons have "received_ok pkt" by (simp add: server_ok_def)
  from process_packet_eq [OF this, of Decode ?sv] assms Cons show ?thesis
    by (auto simp: processor_step_def deque_empty_def deque_front_def pop_front_def server_ok_def)
qed

text \<open>One step does the operations it stands for and leaves the rest to the rest of the run.\<close>

lemma server_apply_eq:
  assumes "server_ok sv" and "op_wf x"
  shows "\<exists>sv1. server_apply e Decode x sv = Ok sv1 \<and> server_ok sv1 \<and>
    sv_player sv1 = player_run (player_ops e Decode [x] (sv_packetQueue sv) (sv_decoder sv)) (sv_player sv) \<and>
    (\<forall>xs. player_ops e Decode (x # xs) (sv_packetQueue sv) (sv_decoder sv) =
       player_ops e Decode [x] (sv_packetQueue sv) (sv_decoder sv) @
       player_ops e Decode xs (sv_packetQueue sv1) (sv_decoder sv1)) \<and>
    (\<forall>xs. processed e (x # xs) (sv_packetQueue sv) =
       processed e [x] (sv_packetQueue sv) @ processed e xs (sv_packetQueue sv1)) \<and>
    processed e [x] (sv_packetQueue sv) @ sv_packetQueue sv1 = sv_packetQueue sv @ accepted e [x] \<and>
    sv_decoder sv1 = snd (feed Decode (processed e [x] (sv_packetQueue sv)) (sv_decoder sv))"
proof (cases x)
  case (RecvOp junk r errno)
  with assms receiver_step_eq [OF assms(1), of junk e r errno] show ?thesis
    by (cases "accepts e r") (auto simp: dq.push_contents)
next
  case ProcessOp
  with processor_step_eq [OF assms(1), of Decode] show ?thesis
    by (auto simp: player_run_append deque_empty_def deque_front_def pop_front_def
        split: list.splits prod.splits)
qed (use assms in \<open>simp add: server_ok_def\<close>)

lemma server_applyD:
  assumes "server_ok sv" and "op_wf x" and "server_apply e Decode x sv = Ok sv1"
  shows "server_ok sv1"
    and "sv_player sv1 = player_run (player_ops e Decode [x] (sv_packetQueue sv) (sv_decoder sv)) (sv_player sv)"
    and "player_ops e Decode (x # xs) (sv_packetQueue sv) (sv_decoder sv) =
       player_ops e Decode [x] (sv_packetQueue sv) (sv_decoder sv) @
       player_ops e Decode xs (sv_packetQueue sv1) (sv_decoder sv1)"
proof -
  from server_apply_eq [OF assms(1,2), of e Decode] obtain sv2 where run: "server_apply e Decode x sv = Ok sv2"
    and res: "server_ok sv2"
    "sv_player sv2 = player_run (player_ops e Decode [x] (sv_packetQueue sv) (sv_decoder sv)) (sv_player sv)"
    "\<forall>xs. player_ops e Decode (x # xs) (sv_packetQueue sv) (sv_decoder sv) =
       player_ops e Decode [x] (sv_packetQueue sv) (sv_decoder sv) @
       player_ops e Decode xs (sv_packetQueue sv2) (sv_decoder sv2)"
    by blast
  from run assms(3) have eq: "sv2 = sv1" by simp
  note res = res [unfolded eq]
  show "server_ok sv1"
    and "sv_player sv1 = player_run (player_ops e Decode [x] (sv_packetQueue sv) (sv_decoder sv)) (sv_player sv)"
    by (rule res(1), rule res(2))
  show "player_ops e Decode (x # xs) (sv_packetQueue sv) (sv_decoder sv) =
       player_ops e Decode [x] (sv_packetQueue sv) (sv_decoder sv) @
       player_ops e Decode xs (sv_packetQueue sv1) (sv_decoder sv1)"
    by (rule spec [OF res(3)])
qed

lemma accepted_Cons: "accepted e (x # xs) = accepted e [x] @ accepted e xs"
  by (cases x) (simp_all split: option.split)

lemma server_run_eq:
  assumes "server_ok sv" and "list_all op_wf ops"
  shows "\<exists>sv'. server_run e Decode ops sv = Ok sv' \<and> server_ok sv' \<and>
    sv_player sv' =
      player_run (player_ops e Decode ops (sv_packetQueue sv) (sv_decoder sv)) (sv_player sv) \<and>
    processed e ops (sv_packetQueue sv) @ sv_packetQueue sv' = sv_packetQueue sv @ accepted e ops \<and>
    sv_decoder sv' = snd (feed Decode (processed e ops (sv_packetQueue sv)) (sv_decoder sv))"
  using assms
proof (induction ops arbitrary: sv)
  case Nil
  then show ?case by simp
next
  case (Cons x xs)
  then have wf: "op_wf x" "list_all op_wf xs" by simp_all
  from server_apply_eq [OF Cons.prems(1) wf(1), of e Decode] obtain sv1 where
    step: "server_apply e Decode x sv = Ok sv1" and ok: "server_ok sv1"
    and player: "sv_player sv1 =
      player_run (player_ops e Decode [x] (sv_packetQueue sv) (sv_decoder sv)) (sv_player sv)"
    and ops: "\<forall>xs. player_ops e Decode (x # xs) (sv_packetQueue sv) (sv_decoder sv) =
       player_ops e Decode [x] (sv_packetQueue sv) (sv_decoder sv) @
       player_ops e Decode xs (sv_packetQueue sv1) (sv_decoder sv1)"
    and proc: "\<forall>xs. processed e (x # xs) (sv_packetQueue sv) =
       processed e [x] (sv_packetQueue sv) @ processed e xs (sv_packetQueue sv1)"
    and fifo: "processed e [x] (sv_packetQueue sv) @ sv_packetQueue sv1 = sv_packetQueue sv @ accepted e [x]"
    and dec: "sv_decoder sv1 = snd (feed Decode (processed e [x] (sv_packetQueue sv)) (sv_decoder sv))"
    by blast
  from Cons.IH [OF ok wf(2)] obtain sv' where run: "server_run e Decode xs sv1 = Ok sv'" "server_ok sv'"
    and player': "sv_player sv' =
      player_run (player_ops e Decode xs (sv_packetQueue sv1) (sv_decoder sv1)) (sv_player sv1)"
    and fifo': "processed e xs (sv_packetQueue sv1) @ sv_packetQueue sv' = sv_packetQueue sv1 @ accepted e xs"
    and dec': "sv_decoder sv' = snd (feed Decode (processed e xs (sv_packetQueue sv1)) (sv_decoder sv1))"
    by blast
  have "processed e (x # xs) (sv_packetQueue sv) @ sv_packetQueue sv' = sv_packetQueue sv @ accepted e (x # xs)"
    unfolding spec [OF proc, of xs] accepted_Cons [of e x xs] append_assoc fifo'
    using fifo by (simp only: append_assoc [symmetric])
  moreover have "sv_decoder sv' = snd (feed Decode (processed e (x # xs) (sv_packetQueue sv)) (sv_decoder sv))"
    unfolding spec [OF proc, of xs] feed_append using dec dec' by simp
  ultimately show ?case using step run player player' spec [OF ops, of xs] by (simp add: player_run_append)
qed

lemma server_runE:
  assumes "server_ok sv" and "list_all op_wf ops"
  obtains sv' where "server_run e Decode ops sv = Ok sv'"
    and "processed e ops (sv_packetQueue sv) @ sv_packetQueue sv' = sv_packetQueue sv @ accepted e ops"
  using server_run_eq [OF assms] by blast

text \<open>
  Whatever datagrams arrive, whatever the stack held before, and however the receiver,
  the processor and the player interleave, the server never reads outside a packet, and its
  player has done exactly the operations \<open>player_ops\<close>: the server refines the player alone.
\<close>

theorem server_refines_player:
  assumes "server_ok sv" and "list_all op_wf ops"
  shows "\<exists>sv'. server_run e Decode ops sv = Ok sv' \<and>
    sv_player sv' =
      player_run (player_ops e Decode ops (sv_packetQueue sv) (sv_decoder sv)) (sv_player sv)"
  using server_run_eq [OF assms] by blast

definition boot_server :: "unit server" where
  "boot_server = server_boot () (player_init (statistics_init Map.empty)) []"

lemma boot_ok: "server_ok (server_boot dec p logs)"
  by (simp add: server_ok_def server_boot_def)

theorem server_refines_player_witness:
  "\<exists>sv'. server_run BigEndian (\<lambda>id i pl d. (None, d))
     [RecvOp (replicate 1040 7) (RecvDatagram (raw_encode LittleEndian (0, 0, 1, [42]))) 0, ProcessOp]
     boot_server = Ok sv'"
proof -
  let ?ops = "[RecvOp (replicate 1040 7) (RecvDatagram (raw_encode LittleEndian (0, 0, 1, [42]))) 0,
    ProcessOp]"
  have "list_all op_wf ?ops" by (simp add: bufferSize_def wire_simps)
  moreover have "server_ok boot_server" by (simp add: boot_server_def boot_ok)
  ultimately show ?thesis
    using server_refines_player [of boot_server ?ops BigEndian "\<lambda>id i pl d. (None, d)"] by blast
qed

text \<open>
  C10: The server's queue, from the packets on to the player. After any interleaving the accepted
  packets, behind those that were in the deque, are the packets processed so far followed by
  the ones still waiting, in the order of arrival: none is lost, repeated or overtaken. The
  blocks the player has been given, and the state of the decoder, are what processing exactly
  those packets one after the other makes of them, and the player is in the state that these
  blocks, the counting of accepted packets and its own passes give, in the order in which they
  happened.
\<close>

theorem server_queue_fifo:
  assumes "server_ok sv" and "list_all op_wf ops" and "server_run e Decode ops sv = Ok sv'"
  shows "\<exists>ps. sv_packetQueue sv @ accepted e ops = ps @ sv_packetQueue sv' \<and>
    (let pops = player_ops e Decode ops (sv_packetQueue sv) (sv_decoder sv)
     in feed Decode ps (sv_decoder sv) = (filter is_arrival pops, sv_decoder sv') \<and>
        sv_player sv' = player_run pops (sv_player sv))"
proof -
  let ?ps = "processed e ops (sv_packetQueue sv)"
  have "feed Decode ?ps (sv_decoder sv) =
      (filter is_arrival (player_ops e Decode ops (sv_packetQueue sv) (sv_decoder sv)), sv_decoder sv')"
    using server_run_eq [OF assms(1,2), of e Decode] assms(3)
    by (simp add: prod_eq_iff player_ops_feed)
  with server_run_eq [OF assms(1,2), of e Decode] assms(3) show ?thesis by (intro exI [of _ ?ps]) (simp add: Let_def)
qed

text \<open>Two packets arrive, one of them is processed.\<close>

lemma accepts_raw:
  assumes "raw_valid m"
  shows "accepts e (RecvDatagram (raw_encode e' m)) = Some (raw_view m)"
proof -
  have "length (raw_encode e' m) = bufferSize"
    using raw.length_enc [OF assms] by (simp add: bufferSize_def)
  then show ?thesis using raw.dec_enc [OF assms, of e e'] by simp
qed

definition demo_queue_ops :: "server_op list" where
  "demo_queue_ops =
     [RecvOp (replicate 1040 7) (RecvDatagram (raw_encode LittleEndian (0, 0, 1, [42]))) 0,
      RecvOp (replicate 1040 7) (RecvFail 11) 11,
      RecvOp (replicate 1040 7) (RecvDatagram (raw_encode LittleEndian (0, 1, 1, [43]))) 0, ProcessOp]"

theorem server_queue_fifo_witness:
  "\<exists>sv' ps. server_run BigEndian (\<lambda>id i pl d. (None, d)) demo_queue_ops boot_server = Ok sv' \<and>
     ps @ sv_packetQueue sv' = [raw_view (0, 0, 1, [42]), raw_view (0, 1, 1, [43])] \<and>
     feed (\<lambda>id i pl d. (None, d)) ps () = ([Arrive 0 0 1 [42]], ()) \<and>
     sv_player sv' = player_run [CountPacket, CountPacket, Arrive 0 0 1 [42]] (sv_player boot_server)"
proof -
  let ?D = "\<lambda>(id :: u32) (i :: u8) (pl :: bytes) (d :: unit). (None :: bytes option, d)"
  have ok: "server_ok boot_server" by (simp add: boot_server_def boot_ok)
  have wf: "list_all op_wf demo_queue_ops" by (simp add: demo_queue_ops_def bufferSize_def wire_simps)
  obtain sv' where run: "server_run BigEndian ?D demo_queue_ops boot_server = Ok sv'"
    using server_run_eq [OF ok wf, of BigEndian ?D] by blast
  have acc: "accepts BigEndian (RecvDatagram (raw_encode LittleEndian (0, 0, 1, [42]))) = Some (raw_view (0, 0, 1, [42]))"
    "accepts BigEndian (RecvDatagram (raw_encode LittleEndian (0, 1, 1, [43]))) = Some (raw_view (0, 1, 1, [43]))"
    by (rule accepts_raw, simp add: wire_simps)+
  note no_eval = accepts.simps(2) raw_view.simps raw_encode.simps
  have q: "sv_packetQueue boot_server = []" "sv_decoder boot_server = ()"
    by (simp_all add: boot_server_def server_boot_def)
  have "packet_ops ?D (raw_view (0, 0, 1, [42])) () = ([Arrive 0 0 1 [42]], ())"
    by (simp add: wire_simps)
  then have ops: "player_ops BigEndian ?D demo_queue_ops [] () = [CountPacket, CountPacket, Arrive 0 0 1 [42]]"
    using acc by (simp add: demo_queue_ops_def del: no_eval packet_ops.simps)
  have accepted: "accepted BigEndian demo_queue_ops = [raw_view (0, 0, 1, [42]), raw_view (0, 1, 1, [43])]"
    using acc by (simp add: demo_queue_ops_def del: no_eval)
  from server_queue_fifo [OF ok wf run, unfolded q ops accepted Let_def] run show ?thesis
    by (simp del: raw_view.simps) metis
qed

end
