(* ===== verification/End_To_End.thy ===== *)
theory End_To_End
  imports Server_Facts Client_Facts Player_Progress
begin

text \<open>
  Client and server together: the datagrams of the client, delivered in any order, lost or
  repeated by the network and received by a host of either byte order, against what the
  server's player shows.
\<close>

section \<open>The blocks of a list of units\<close>

lemma mem_number_blocks:
  "(d, bi, ni, t) \<in> set (number_blocks i idx tot cs) \<longleftrightarrow>
     (\<exists>k < length cs. d = cs ! k \<and> bi = of_nat (i + k) \<and> ni = idx \<and> t = tot)"
  by (auto simp: in_set_conv_nth nth_number_blocks cong: conj_cong)

lemma mem_units_blocks:
  "(d, bi, ni, t) \<in> set (units_blocks idx ns) \<Longrightarrow>
     \<exists>j < length ns. ni = idx + of_nat j \<and>
       (\<exists>k < length (chunks blockSize (ns ! j)). d = chunks blockSize (ns ! j) ! k \<and>
          bi = of_nat k \<and> t = of_nat (length (chunks blockSize (ns ! j))))"
proof (induction idx ns rule: units_blocks.induct)
  case (1 idx)
  then show ?case by simp
next
  case (2 idx n ns)
  show ?case
  proof (cases "(d, bi, ni, t) \<in> set (blocks_of idx n)")
    case True
    then show ?thesis by (intro exI [of _ 0]) (auto simp: blocks_of_def Let_def mem_number_blocks)
  next
    case False
    with 2 obtain j where "j < length ns" and "ni = idx + 1 + of_nat j"
      and "\<exists>k < length (chunks blockSize (ns ! j)). d = chunks blockSize (ns ! j) ! k \<and>
          bi = of_nat k \<and> t = of_nat (length (chunks blockSize (ns ! j)))"
      by auto
    then show ?thesis by (intro exI [of _ "Suc j"]) (auto simp: add.assoc)
  qed
qed

text \<open>The units are numbered by 32 bits, and so are the blocks of each.\<close>

definition numberable :: "bytes list \<Rightarrow> bool" where
  "numberable ns \<longleftrightarrow> length ns \<le> 2 ^ 32 \<and> (\<forall>n \<in> set ns. length (chunks blockSize n) < 2 ^ 32)"

lemma mem_unit:
  assumes "numberable ns" and "(d, bi, ni, t) \<in> set (units_blocks 0 ns)"
  shows "unat ni < length ns" and "unat bi < length (chunks blockSize (ns ! unat ni))"
    and "d = chunks blockSize (ns ! unat ni) ! unat bi"
    and "t = of_nat (length (chunks blockSize (ns ! unat ni)))"
proof -
  from mem_units_blocks [OF assms(2)] obtain j k where j: "j < length ns" "ni = of_nat j"
    and k: "k < length (chunks blockSize (ns ! j))" "d = chunks blockSize (ns ! j) ! k"
      "bi = of_nat k" "t = of_nat (length (chunks blockSize (ns ! j)))"
    by auto
  from assms(1) j(1) have "length (chunks blockSize (ns ! j)) < 2 ^ 32" and "j < 2 ^ 32"
    by (auto simp: numberable_def)
  with j k(1) have "unat ni = j" and "unat (of_nat k :: u32) = k" by (simp_all add: unat_of_nat)
  with j k show "unat ni < length ns" and "unat bi < length (chunks blockSize (ns ! unat ni))"
    and "d = chunks blockSize (ns ! unat ni) ! unat bi"
    and "t = of_nat (length (chunks blockSize (ns ! unat ni)))"
    by simp_all
qed

section \<open>Raw datagrams at the server\<close>

definition datagrams :: "endian \<Rightarrow> block list \<Rightarrow> bytes list" where
  "datagrams e bs = map (raw_encode e \<circ> raw_of) bs"

text \<open>Whatever is received is one of the datagrams \<open>ds\<close>; receives may also fail.\<close>

fun delivers :: "bytes list \<Rightarrow> server_op \<Rightarrow> bool" where
  "delivers ds (RecvOp junk (RecvDatagram d) errno) \<longleftrightarrow> d \<in> set ds"
| "delivers ds _ = True"

fun received_datagrams :: "server_op list \<Rightarrow> bytes list" where
  "received_datagrams [] = []"
| "received_datagrams (RecvOp junk (RecvDatagram d) errno # xs) = d # received_datagrams xs"
| "received_datagrams (_ # xs) = received_datagrams xs"

definition raw_packet_of :: "block list \<Rightarrow> received \<Rightarrow> bool" where
  "raw_packet_of bs pkt \<longleftrightarrow> (\<exists>b \<in> set bs. block_ok b \<and> pkt = raw_view (raw_of b))"

fun arrives_from :: "block list \<Rightarrow> player_op \<Rightarrow> bool" where
  "arrives_from bs (Arrive bi ni ns d) \<longleftrightarrow> (d, bi, ni, ns) \<in> set bs"
| "arrives_from bs _ = True"

lemma accepts_datagram:
  assumes "block_ok b"
  shows "accepts e (RecvDatagram (raw_encode e' (raw_of b))) = Some (raw_view (raw_of b))"
  using assms by (intro accepts_raw) (cases b, simp)

lemma packet_ops_raw:
  assumes "block_ok b"
  shows "packet_ops Decode (raw_view (raw_of b)) dec =
    (case b of (d, bi, ni, ns) \<Rightarrow> ([Arrive bi ni ns d], dec))"
  using assms by (cases b) (simp add: wire_simps)

lemma accepted_raw_packet:
  assumes "accepts e r = Some pkt" and "delivers (datagrams e' bs) (RecvOp junk r errno)"
    and "\<forall>b \<in> set bs. block_ok b"
  shows "raw_packet_of bs pkt"
proof -
  from assms(1,2) obtain d b where "r = RecvDatagram d" and b: "b \<in> set bs" "d = raw_encode e' (raw_of b)"
    by (cases r) (auto simp: datagrams_def)
  with assms(1,3) accepts_datagram [of b e e'] show ?thesis by (auto simp: raw_packet_of_def)
qed

lemma player_ops_from:
  assumes "list_all (delivers (datagrams e' bs)) ops" and "\<forall>b \<in> set bs. block_ok b"
    and "list_all (raw_packet_of bs) q"
  shows "list_all (arrives_from bs) (player_ops e Decode ops q dec)"
  using assms(1,3)
proof (induction ops q dec rule: player_ops_induct [where e = e and Decode = Decode])
  case (Accept junk r errno xs q dec pkt)
  have "raw_packet_of bs pkt"
    using accepted_raw_packet [OF Accept(1) _ assms(2), of e' junk errno] Accept(3) by simp
  with Accept show ?case by simp
next
  case (Process xs pkt q dec ps dec1)
  from Process(4) obtain b where b: "b \<in> set bs" "block_ok b" "pkt = raw_view (raw_of b)"
    by (auto simp: raw_packet_of_def)
  obtain d bi ni t where bt: "b = (d, bi, ni, t)" by (cases b)
  with packet_ops_raw [OF b(2), of Decode dec] b(3) Process(1) have "ps = [Arrive bi ni t d]" by simp
  moreover have "list_all (arrives_from bs) (player_ops e Decode xs q dec1)"
    using Process(2,3,4) by simp
  ultimately show ?case using Process(1) b(1) bt by simp
qed simp_all

section \<open>Integrity\<close>

lemma blocks_from_arrives:
  assumes "numberable ns" and "list_all (arrives_from (units_blocks 0 ns)) xs"
    and "unat ni < length ns"
  shows "blocks_from ni (chunks blockSize (ns ! unat ni)) xs"
  using assms(2)
proof (induction xs)
  case (Cons x xs)
  then show ?case by (cases x) (auto dest: mem_unit [OF assms(1)])
qed simp

lemma no_blocks_from_arrives:
  assumes "numberable ns" and "list_all (arrives_from (units_blocks 0 ns)) xs"
    and "\<not> unat ni < length ns"
  shows "blocks_from ni bs xs"
  using assms(2)
proof (induction xs)
  case (Cons x xs)
  then show ?case using assms(3) by (cases x) (auto dest: mem_unit(1) [OF assms(1)])
qed simp

lemma concat_unit_blocks: "concat (chunks blockSize n) = n"
  by (rule concat_chunks) simp

text \<open>A player fed from the blocks of \<open>ns\<close> only shows units of \<open>ns\<close>.\<close>

lemma shown_units:
  assumes "numberable ns" and "list_all (arrives_from (units_blocks 0 ns)) xs"
    and "(i, d) \<in> set (shown (player_run xs (player_init st)))"
  shows "unat i < length ns \<and> d = ns ! unat i"
proof (cases "unat i < length ns")
  case True
  let ?bs = "chunks blockSize (ns ! unat i)"
  from assms(1) True have "length ?bs < 2 ^ 32" by (simp add: numberable_def)
  from content_okD(3) [OF content_run [OF content_init this
        blocks_from_arrives [OF assms(1,2) True]] assms(3)] True
  show ?thesis by (simp add: concat_unit_blocks)
next
  case False
  have "d = concat bs" if "length bs < 2 ^ 32" for bs
    using content_okD(3) [OF content_run [OF content_init that
        no_blocks_from_arrives [OF assms(1,2) False]] assms(3)] .
  from this [of "[]"] this [of "[[0]]"] show ?thesis by simp
qed

lemma units_blocks_ok: "b \<in> set (units_blocks idx ns) \<Longrightarrow> block_ok b"
proof -
  assume b: "b \<in> set (units_blocks idx ns)"
  obtain d bi ni t where blk: "b = (d, bi, ni, t)" by (cases b)
  from mem_units_blocks b blk obtain j k where k: "k < length (chunks blockSize (ns ! j))"
    and d: "d = chunks blockSize (ns ! j) ! k" by blast
  from k have "k * blockSize < length (ns ! j)"
    by (simp add: length_chunks wire_simps)
  with nth_chunks [OF blockSize_pos k] show ?thesis by (simp add: blk d)
qed

lemma server_player_from_boot:
  assumes "list_all op_wf ops"
    and "server_run e Decode ops (server_boot dec (Start_player w (player_init st)) logs) = Ok sv'"
  shows "sv_player sv' =
    player_run (StartOp w # player_ops e Decode ops [] dec) (player_init st)"
  using server_run_eq [OF boot_ok assms(1), of e Decode dec "Start_player w (player_init st)" logs]
    assms(2)
  by (simp add: server_boot_def)

section \<open>What carries the blocks\<close>

text \<open>
  The interface between the client's datagrams and the player: from the datagrams \<open>wire\<close> the
  server's processor gives the player only blocks of the units \<open>ns\<close>, and all of them once what
  has been received is \<open>sufficient\<close> and processed.
\<close>

locale transport =
  fixes e :: endian and Decode :: "'d decode" and dec :: 'd and ns :: "bytes list"
    and wire :: "bytes list" and sufficient :: "server_op list \<Rightarrow> bool"
  assumes only_blocks: "list_all (delivers wire) ops \<Longrightarrow>
      list_all (arrives_from (units_blocks 0 ns)) (player_ops e Decode ops [] dec)"
    and all_blocks: "list_all (delivers wire) ops \<Longrightarrow> processed e ops [] = accepted e ops \<Longrightarrow>
      sufficient ops \<Longrightarrow> (d, bi, ni, t) \<in> set (units_blocks 0 ns) \<Longrightarrow>
      Arrive bi ni t d \<in> set (player_ops e Decode ops [] dec)"
begin

lemma shown_are_units:
  assumes "numberable ns" and "list_all op_wf ops" and "list_all (delivers wire) ops"
    and "server_run e Decode ops (server_boot dec (Start_player w (player_init st)) logs) = Ok sv'"
  shows "\<forall>(i, d) \<in> set (shown (sv_player sv')). unat i < length ns \<and> d = ns ! unat i"
proof -
  have "list_all (arrives_from (units_blocks 0 ns)) (StartOp w # player_ops e Decode ops [] dec)"
    using only_blocks [OF assms(3)] by simp
  from shown_units [OF assms(1) this] server_player_from_boot [OF assms(2,4)]
  show ?thesis by (auto simp del: player_run.simps)
qed

end

lemma received_accepted:
  "d \<in> set (received_datagrams ops) \<Longrightarrow> accepts e (RecvDatagram d) = Some pkt \<Longrightarrow>
     pkt \<in> set (accepted e ops)"
  by (induction ops rule: received_datagrams.induct) (auto split: option.split)

lemma processed_arrives:
  assumes "block_ok (d, bi, ni, t)"
    and "raw_view (raw_of (d, bi, ni, t)) \<in> set (processed e ops q)"
  shows "Arrive bi ni t d \<in> set (player_ops e Decode ops q dec)"
  using assms(2)
proof (induction ops q dec rule: player_ops_induct [where e = e and Decode = Decode])
  case (Process xs pkt q dec ps dec1)
  with packet_ops_raw [OF assms(1), of Decode dec] show ?case
    by (auto simp del: raw_view.simps raw_of.simps packet_ops.simps)
qed simp_all

lemma raw_block_arrives:
  assumes "set (datagrams e' (units_blocks 0 ns)) \<subseteq> set (received_datagrams ops)"
    and "(d, bi, ni, t) \<in> set (units_blocks 0 ns)" and "processed e ops [] = accepted e ops"
  shows "Arrive bi ni t d \<in> set (player_ops e Decode ops [] dec)"
proof -
  let ?b = "(d, bi, ni, t)"
  from units_blocks_ok assms(2) have ok: "block_ok ?b" .
  from assms(1,2) have "raw_encode e' (raw_of ?b) \<in> set (received_datagrams ops)"
    by (auto simp: datagrams_def simp del: raw_of.simps raw_encode.simps)
  from received_accepted [OF this accepts_datagram [OF ok]]
  have "raw_view (raw_of ?b) \<in> set (processed e ops [])" unfolding assms(3) .
  then show ?thesis by (rule processed_arrives [OF ok])
qed

text \<open>Raw mode: every datagram has to be received.\<close>

interpretation raw_wire: transport e Decode dec ns "datagrams e' (units_blocks 0 ns)"
    "\<lambda>ops. set (datagrams e' (units_blocks 0 ns)) \<subseteq> set (received_datagrams ops)"
  for e Decode dec ns e'
  by unfold_locales (auto intro: player_ops_from units_blocks_ok raw_block_arrives)

text \<open>
  End to end, raw mode. Whatever the network does with the datagrams of the client
  (loss, repetition, reordering), whatever the byte orders of the two hosts, and however the
  server's threads interleave: everything the server shows is a unit the client cut out of
  its file, under its own number and with exactly its bytes, never a mixture or a fragment.
\<close>

theorem shown_are_sent_units:
  assumes "numberable ns" and "list_all op_wf ops"
    and "list_all (delivers (datagrams e' (units_blocks 0 ns))) ops"
    and "server_run e Decode ops (server_boot dec (Start_player w (player_init st)) logs) = Ok sv'"
  shows "\<forall>(i, d) \<in> set (shown (sv_player sv')). unat i < length ns \<and> d = ns ! unat i"
  using assms by (rule raw_wire.shown_are_units)

section \<open>Completeness\<close>

fun is_tick :: "server_op \<Rightarrow> bool" where
  "is_tick (PlayerTick _) = True"
| "is_tick _ = False"

lemma unit_blocks_member:
  "j < length ns \<Longrightarrow> k < length (chunks blockSize (ns ! j)) \<Longrightarrow>
     (chunks blockSize (ns ! j) ! k, of_nat k, idx + of_nat j,
      of_nat (length (chunks blockSize (ns ! j)))) \<in> set (units_blocks idx ns)"
proof (induction idx ns arbitrary: j rule: units_blocks.induct)
  case (1 idx)
  then show ?case by simp
next
  case (2 idx n ns)
  show ?case
  proof (cases j)
    case 0
    with 2 show ?thesis by (auto simp: blocks_of_def Let_def mem_number_blocks)
  next
    case (Suc i)
    with 2 show ?thesis by (simp add: add.assoc)
  qed
qed

lemma arrived_member: "Arrive bi ni t d \<in> set xs \<Longrightarrow> unat bi \<in> arrived ni xs"
  by (induction ni xs rule: arrived.induct) auto

lemma ticks_absent:
  "list_all (\<lambda>x. \<not> is_tick x) ops \<Longrightarrow> Tick evs \<notin> set (player_ops e Decode ops q dec)"
  using player_ops_all [of "\<lambda>x. x \<noteq> Tick evs" ops e Decode q dec]
  by (auto simp: list_all_iff) force+

text \<open>Without playback a completed unit stays ready.\<close>

lemma ready_stays:
  assumes "rdy p ni \<noteq> None" and "\<forall>evs. Tick evs \<notin> set xs" and "player_ok p"
  shows "rdy (player_run xs p) ni \<noteq> None"
  using assms
proof (induction xs arbitrary: p)
  case (Cons x xs)
  have "rdy (player_apply x p) ni \<noteq> None"
  proof (cases x)
    case (Arrive bi nj ns d)
    have "map_ok (pl_readyNalus p)" using Cons.prems(3) by (simp add: player_ok_def)
    with Cons.prems(1) ready_AddBlock [of bi nj ns d p] Arrive show ?thesis
      by (auto simp: om.find_assign)
  qed (use Cons.prems in \<open>auto simp: player_simps\<close>)
  with Cons.IH [of "player_apply x p"] player_ok_apply [OF Cons.prems(3)] Cons.prems(2)
  show ?case by auto
qed simp

definition numbered :: "bytes list \<Rightarrow> (u32, bytes) smap" where
  "numbered ns = map (\<lambda>j. (of_nat j, ns ! j)) [0..<length ns]"

lemma of_nat32_less: "i < j \<Longrightarrow> j < 2 ^ 32 \<Longrightarrow> (of_nat i :: u32) < of_nat j"
  by (simp add: word_less_nat_alt unat_of_nat)

lemma numbered_ok: "length ns \<le> 2 ^ 32 \<Longrightarrow> map_ok (numbered ns)"
  by (simp add: map_ok_def numbered_def sorted_wrt_iff_nth_less of_nat32_less)

lemma find_numbered:
  assumes "length ns \<le> 2 ^ 32"
  shows "map_find (numbered ns) i = (if unat i < length ns then Some (ns ! unat i) else None)"
proof -
  have "map_find (map (\<lambda>j. (of_nat j, f j)) xs) i =
      (if unat i \<in> set xs then Some (f (unat i)) else None)"
    if "\<forall>j \<in> set xs. j < 2 ^ 32" for f :: "nat \<Rightarrow> bytes" and xs
    using that
  proof (induction xs)
    case (Cons x xs)
    have "i = of_nat x \<longleftrightarrow> unat i = x"
      using Cons.prems by (auto simp: unat_of_nat)
    with Cons show ?case by auto
  qed simp
  from this [of "[0..<length ns]" "\<lambda>j. ns ! j"] assms show ?thesis
    by (auto simp: numbered_def)
qed

text \<open>After all blocks have arrived, without playback, exactly the units are ready.\<close>

lemma unit_ready:
  assumes "numberable ns" and "[] \<notin> set ns" and "list_all (arrives_from (units_blocks 0 ns)) xs"
    and "\<forall>evs. Tick evs \<notin> set xs"
    and "\<forall>(d, bi, ni, t) \<in> set (units_blocks 0 ns). Arrive bi ni t d \<in> set xs"
    and "unat i < length ns"
  shows "rdy (player_run xs (player_init st)) i = Some (ns ! unat i)"
proof -
  let ?bs = "chunks blockSize (ns ! unat i)"
  have "ns ! unat i \<noteq> []" using assms(2,6) by (metis nth_mem)
  then have ne: "?bs \<noteq> []" by (simp add: chunks_step)
  have lb: "length ?bs < 2 ^ 32" using assms(1,6) by (simp add: numberable_def)
  note bf = blocks_from_arrives [OF assms(1,3,6)]
  have arr: "{..<length ?bs} \<subseteq> {} \<union> arrived i xs"
  proof
    fix k
    assume "k \<in> {..<length ?bs}"
    then have k: "k < length ?bs" by simp
    from unit_blocks_member [OF assms(6) k, of 0] assms(5)
    have "Arrive (of_nat k) i (of_nat (length ?bs)) (?bs ! k) \<in> set xs" by auto
    from arrived_member [OF this] k lb show "k \<in> {} \<union> arrived i xs" by (simp add: unat_index)
  qed
  have "received_blocks (player_init st) i ?bs {}" by (simp add: received_blocks_def player_init_def)
  from run_completes [OF player_ok_init this lb bf _ arr] ne obtain ys zs
    where "xs = ys @ zs" and "rdy (player_run ys (player_init st)) i = Some (concat ?bs)"
    by auto
  with ready_stays [of "player_run ys (player_init st)" i zs] assms(4)
    player_ok_run [OF player_ok_init, of ys st]
  have "rdy (player_run xs (player_init st)) i \<noteq> None" by (auto simp: player_run_append)
  with content_okD(2) [OF content_run [OF content_init lb bf]] show ?thesis
    by (auto simp: concat_unit_blocks)
qed

text \<open>A unit no block belongs to cannot have been put together from two different lists of blocks.\<close>

lemma no_unit_ready:
  assumes "numberable ns" and "list_all (arrives_from (units_blocks 0 ns)) xs" and "\<not> unat i < length ns"
  shows "rdy (player_run xs (player_init st)) i = None"
proof -
  have "rdy (player_run xs (player_init st)) i = Some d \<Longrightarrow> d = concat bs" if "length bs < 2 ^ 32" for d bs
    using content_okD(2) [OF content_run [OF content_init that no_blocks_from_arrives [OF assms]]] .
  from this [of "[]"] this [of "[[0]]"] show ?thesis
    by (cases "rdy (player_run xs (player_init st)) i") auto
qed

lemma all_units_ready:
  assumes "numberable ns" and "[] \<notin> set ns"
    and "list_all (arrives_from (units_blocks 0 ns)) xs"
    and "\<forall>evs. Tick evs \<notin> set xs"
    and "\<forall>(d, bi, ni, t) \<in> set (units_blocks 0 ns). Arrive bi ni t d \<in> set xs"
  shows "pl_readyNalus (player_run xs (player_init st)) = numbered ns"
proof -
  have len: "length ns \<le> 2 ^ 32" using assms(1) by (simp add: numberable_def)
  have "rdy (player_run xs (player_init st)) i = map_find (numbered ns) i" for i
    using unit_ready [OF assms, of i] no_unit_ready [OF assms(1,3), of i] by (simp add: find_numbered [OF len])
  then have "rdy (player_run xs (player_init st)) = map_find (numbered ns)" ..
  with player_ok_run [OF player_ok_init, of xs st] show ?thesis
    by (intro map_ext numbered_ok len) (simp_all add: player_ok_def)
qed

lemma no_ticks_control:
  "\<forall>evs. Tick evs \<notin> set xs \<Longrightarrow> StopOp \<notin> set xs \<Longrightarrow> pl_running p \<Longrightarrow> \<not> pl_stop p \<Longrightarrow> pl_thread p \<Longrightarrow>
     let q = player_run xs p in pl_running q \<and> \<not> pl_stop q \<and> shown q = shown p \<and>
       pl_nextNaluIndex q = pl_nextNaluIndex p"
proof (induction xs arbitrary: p)
  case (Cons x xs)
  let ?q = "player_apply x p"
  have "pl_running ?q \<and> \<not> pl_stop ?q \<and> pl_thread ?q \<and> shown ?q = shown p \<and>
      pl_nextNaluIndex ?q = pl_nextNaluIndex p"
    using Cons.prems
    by (cases x) (auto simp: AddBlock_cases Let_def complete_nalu_def Start_player_def shown_def
        player_simps displayed_append)
  with Cons.IH [of ?q] Cons.prems show ?case by auto
qed simp

lemma ticks_run:
  "server_run e Decode (map PlayerTick evss) sv =
     Ok (sv\<lparr>sv_player := player_run (map Tick evss) (sv_player sv)\<rparr>)"
  by (induction evss arbitrary: sv) simp_all

text \<open>When every block of every unit has arrived before playback, playback shows the whole file.\<close>

lemma playback_of_all_units:
  assumes "numberable ns" and "[] \<notin> set ns" and "list_all op_wf ops"
    and "list_all (arrives_from (units_blocks 0 ns)) (player_ops e Decode ops [] dec)"
    and "\<forall>(d, bi, ni, t) \<in> set (units_blocks 0 ns). Arrive bi ni t d \<in> set (player_ops e Decode ops [] dec)"
    and "list_all (\<lambda>x. \<not> is_tick x) ops"
    and "server_run e Decode ops (server_boot dec (Start_player True (player_init st)) logs) = Ok sv'"
    and "\<forall>evs \<in> set evss. SDL_QUIT \<notin> set evs" and "2 * length ns \<le> length evss"
  shows "\<exists>sv''. server_run e Decode (map PlayerTick evss) sv' = Ok sv'' \<and>
    shown (sv_player sv'') = map (\<lambda>j. (of_nat j, ns ! j)) [0..<length ns]"
proof -
  let ?xs = "player_ops e Decode ops [] dec"
  let ?p = "player_run ?xs (Start_player True (player_init st))"
  have p: "?p = player_run (StartOp True # ?xs) (player_init st)" by simp
  have player: "sv_player sv' = ?p"
    using server_player_from_boot [OF assms(3,7)] by simp
  have ticks: "\<forall>evs. Tick evs \<notin> set ?xs" by (intro allI ticks_absent assms(6))
  have "list_all (arrives_from (units_blocks 0 ns)) (StartOp True # ?xs)" using assms(4) by simp
  from all_units_ready [OF assms(1,2) this, of st] ticks assms(5)
  have ready: "pl_readyNalus ?p = numbered ns" by (auto simp: p simp del: player_run.simps)
  have ctl: "pl_running ?p" "\<not> pl_stop ?p" "shown ?p = []" "pl_nextNaluIndex ?p = 0"
    using no_ticks_control [OF ticks player_ops_no_control(2), of "Start_player True (player_init st)"]
    by (simp_all add: Start_player_def player_init_def shown_def Let_def)
  have ok: "player_ok ?p" unfolding p by (rule player_ok_run [OF player_ok_init])
  have "shown (player_run (map Tick evss) ?p) = numbered ns"
    using ticks_show_ready [OF ctl(1,2) _ _ assms(8)] ctl(3,4) ok ready assms(9)
    by (simp add: player_ok_def no_late_def passes_needed_def numbered_def)
  with player show ?thesis by (simp add: ticks_run numbered_def)
qed

context transport
begin

lemma whole_file:
  assumes "numberable ns" and "[] \<notin> set ns" and "list_all op_wf ops"
    and "list_all (delivers wire) ops" and "list_all (\<lambda>x. \<not> is_tick x) ops"
    and "server_run e Decode ops (server_boot dec (Start_player True (player_init st)) logs) = Ok sv'"
    and "sv_packetQueue sv' = []" and "sufficient ops"
    and "\<forall>evs \<in> set evss. SDL_QUIT \<notin> set evs" and "2 * length ns \<le> length evss"
  shows "\<exists>sv''. server_run e Decode (map PlayerTick evss) sv' = Ok sv'' \<and>
    shown (sv_player sv'') = map (\<lambda>j. (of_nat j, ns ! j)) [0..<length ns]"
proof -
  have "processed e ops [] = accepted e ops"
    using server_run_eq [OF boot_ok assms(3), of e Decode dec "Start_player True (player_init st)" logs]
      assms(6,7) by (simp add: server_boot_def)
  from all_blocks [OF assms(4) this assms(8)]
  have "\<forall>(d, bi, ni, t) \<in> set (units_blocks 0 ns). Arrive bi ni t d \<in> set (player_ops e Decode ops [] dec)"
    by blast
  from playback_of_all_units [OF assms(1-3) only_blocks [OF assms(4)] this assms(5,6,9,10)] show ?thesis .
qed

end

text \<open>
  End to end, raw mode, without loss. When every datagram of the client has been
  received and processed (in any order, repeated or not) before playback, and no window
  event asks to quit, two passes of the player's loop for every unit show the whole file:
  all units, in order, under their numbers, with their bytes, and nothing else.
\<close>

theorem lossless_playback:
  assumes "numberable ns" and "[] \<notin> set ns" and "list_all op_wf ops"
    and "list_all (delivers (datagrams e' (units_blocks 0 ns))) ops"
    and "set (datagrams e' (units_blocks 0 ns)) \<subseteq> set (received_datagrams ops)"
    and "list_all (\<lambda>x. \<not> is_tick x) ops"
    and "server_run e Decode ops (server_boot dec (Start_player True (player_init st)) logs) = Ok sv'"
    and "sv_packetQueue sv' = []"
    and "\<forall>evs \<in> set evss. SDL_QUIT \<notin> set evs" and "2 * length ns \<le> length evss"
  shows "\<exists>sv''. server_run e Decode (map PlayerTick evss) sv' = Ok sv'' \<and>
    shown (sv_player sv'') = map (\<lambda>j. (of_nat j, ns ! j)) [0..<length ns]"
  using raw_wire.whole_file [OF assms(1-4,6-8,5,9,10)] .

section \<open>From the file to the screen\<close>

text \<open>The units of a demuxed file: each packet is cut at its start codes.\<close>

definition file_units :: "bytes list \<Rightarrow> bytes list" where
  "file_units ds = concat (map (\<lambda>d. split_nalus d 0) ds)"

lemma client_sends_file:
  assumes "ready_for_packet ff (cl_reader cl)"
    and "packets_of ff (r_bitStreamFilter (cl_reader cl)) (r_videoStreamId (cl_reader cl)) (r_env (cl_reader cl)) ds"
    and "\<forall>d \<in> set ds. start_code_at d 0" and "r_currentNaluIndex (cl_reader cl) = 0"
    and "cl_running cl" and "\<not> cc_encodingMode cc" and "has_address cc"
    and "client_loop ff cc os Encode cl = Some (Ok cl')"
  shows "cl_sent cl' = cl_sent cl @ datagrams (cc_endian cc) (units_blocks 0 (file_units ds))"
proof -
  from drain_file_aux [OF assms(1-3)] assms(4) obtain r' where
    "drain ff (cl_reader cl) = Some (units_blocks 0 (file_units ds), r')"
    by (auto simp: file_units_def)
  from client_loop_raw [OF this assms(5-7), of os Encode] assms(8) show ?thesis
    by (auto simp: datagrams_def)
qed

text \<open>
  From the file to the screen, raw mode. The client reads a file whose packets
  begin with a start code and sends it; the server receives nothing but datagrams of that
  client. Then everything the server shows is one of the units of the file, under its number.
\<close>

theorem file_to_screen:
  assumes "ready_for_packet ff (cl_reader cl)"
    and "packets_of ff (r_bitStreamFilter (cl_reader cl)) (r_videoStreamId (cl_reader cl)) (r_env (cl_reader cl)) ds"
    and "\<forall>d \<in> set ds. start_code_at d 0" and "r_currentNaluIndex (cl_reader cl) = 0"
    and "cl_running cl" and "\<not> cc_encodingMode cc" and "has_address cc" and "cl_sent cl = []"
    and "client_loop ff cc os Encode cl = Some (Ok cl')"
    and "numberable (file_units ds)" and "list_all op_wf ops"
    and "list_all (delivers (cl_sent cl')) ops"
    and "server_run e Decode ops (server_boot dec (Start_player w (player_init st)) logs) = Ok sv'"
  shows "\<forall>(i, d) \<in> set (shown (sv_player sv')). unat i < length (file_units ds) \<and> d = file_units ds ! unat i"
proof -
  have "cl_sent cl' = datagrams (cc_endian cc) (units_blocks 0 (file_units ds))"
    using client_sends_file [OF assms(1-7,9)] assms(8) by simp
  with assms(12) raw_wire.shown_are_units [OF assms(10,11) _ assms(13)] show ?thesis by simp
qed

section \<open>A concrete run\<close>

definition demo_junk :: bytes where
  "demo_junk = replicate 1040 7"

lemma demo_junk_length: "length demo_junk = bufferSize"
  by (simp add: demo_junk_def bufferSize_def wire_simps)

definition demo_ops_server :: "server_op list" where
  "demo_ops_server =
     [RecvOp demo_junk (RecvDatagram (raw_encode LittleEndian (0, 0, 1, [0, 0, 1, 5]))) 0,
      RecvOp demo_junk (RecvFail 11) 11, ProcessOp]"

definition no_decoder :: "unit decode" where
  "no_decoder key i pl d = (None, d)"

definition demo_boot :: "unit server" where
  "demo_boot = server_boot () (Start_player True (player_init (statistics_init Map.empty))) []"

lemma demo_units: "numberable [[0, 0, 1, 5]]"
  "units_blocks 0 [[0, 0, 1, 5]] = [([0, 0, 1, 5], 0, 0, 1)]"
  by (simp_all add: numberable_def chunks_step wire_simps blocks_of_def Let_def)

lemma demo_file_units: "file_units [[0, 0, 1, 5]] = [[0, 0, 1, 5]]"
proof -
  have "FindStartCode [0, 0, 1, 5] 0 = Some 0" and "FindStartCode [0, 0, 1, 5] 3 = None"
    by (simp_all add: FindStartCode.simps)
  moreover from this(2) have "nalu_end [0, 0, 1, 5] 0 = 4" by (simp add: nalu_end_def)
  moreover have "split_nalus [0, 0, 1, 5] 4 = []"
    using split_nalus_at_end [of "[0, 0, 1, 5]"] by (simp add: eval_nat_numeral)
  ultimately show ?thesis by (simp add: file_units_def split_nalus_Some)
qed

lemma demo_datagrams:
  "datagrams LittleEndian (units_blocks 0 [[0, 0, 1, 5]]) =
     [raw_encode LittleEndian (0, 0, 1, [0, 0, 1, 5])]"
  unfolding demo_units(2) by (simp add: datagrams_def del: raw_encode.simps)

lemma demo_ops_facts:
  "list_all op_wf demo_ops_server"
  "list_all (delivers (datagrams LittleEndian (units_blocks 0 [[0, 0, 1, 5]]))) demo_ops_server"
  "set (datagrams LittleEndian (units_blocks 0 [[0, 0, 1, 5]])) \<subseteq> set (received_datagrams demo_ops_server)"
  "list_all (\<lambda>x. \<not> is_tick x) demo_ops_server"
  unfolding demo_datagrams
  by (simp_all add: demo_ops_server_def demo_junk_length del: raw_encode.simps)

lemma demo_run:
  obtains sv' where "server_run BigEndian no_decoder demo_ops_server demo_boot = Ok sv'"
    and "sv_packetQueue sv' = []"
proof -
  have b: "block_ok ([0, 0, 1, 5], 0, 0, 1)" by (simp add: wire_simps)
  have q: "sv_packetQueue demo_boot = []" by (simp add: demo_boot_def server_boot_def)
  have ok: "server_ok demo_boot" by (simp add: demo_boot_def boot_ok)
  obtain sv' where run: "server_run BigEndian no_decoder demo_ops_server demo_boot = Ok sv'"
    and fifo: "processed BigEndian demo_ops_server (sv_packetQueue demo_boot) @ sv_packetQueue sv' =
      sv_packetQueue demo_boot @ accepted BigEndian demo_ops_server"
    using server_runE [OF ok demo_ops_facts(1), where e = BigEndian and Decode = no_decoder] .
  have "sv_packetQueue sv' = []"
    using fifo accepts_datagram [OF b, of BigEndian LittleEndian]
    by (simp add: q demo_ops_server_def
        del: accepts.simps(2) raw_view.simps raw_encode.simps)
  with run that show thesis by blast
qed

theorem shown_are_sent_units_witness:
  "\<exists>sv'. server_run BigEndian no_decoder demo_ops_server demo_boot = Ok sv' \<and>
     (\<forall>(i, d) \<in> set (shown (sv_player sv')). unat i < 1 \<and> d = [[0, 0, 1, 5]] ! unat i)"
proof -
  obtain sv' where run: "server_run BigEndian no_decoder demo_ops_server demo_boot = Ok sv'"
    by (rule demo_run)
  from shown_are_sent_units [OF demo_units(1) demo_ops_facts(1,2) run [unfolded demo_boot_def]]
  show ?thesis by (intro exI conjI) (rule run, simp)
qed

theorem lossless_playback_witness:
  "\<exists>sv' sv''. server_run BigEndian no_decoder demo_ops_server demo_boot = Ok sv' \<and>
     server_run BigEndian no_decoder (map PlayerTick [[], []]) sv' = Ok sv'' \<and>
     shown (sv_player sv'') = [(0, [0, 0, 1, 5])]"
proof -
  obtain sv' where run: "server_run BigEndian no_decoder demo_ops_server demo_boot = Ok sv'"
    and q: "sv_packetQueue sv' = []"
    by (rule demo_run)
  have "[] \<notin> set [[0, 0, 1, 5 :: byte]]" by simp
  from lossless_playback [OF demo_units(1) this demo_ops_facts run [unfolded demo_boot_def] q,
      of "[[], []]"] run
  show ?thesis by simp
qed

theorem file_to_screen_witness:
  "\<exists>cl' sv'. client_loop list_ffmpeg (demo_conf False 8) (\<lambda>_. 0) demo_encode
       (fresh_client (list_reader [[0, 0, 1, 5]]) () []) = Some (Ok cl') \<and>
     server_run BigEndian no_decoder [RecvOp demo_junk (RecvFail 11) 11, ProcessOp, PlayerTick []]
       demo_boot = Ok sv' \<and>
     (\<forall>(i, d) \<in> set (shown (sv_player sv')). unat i < 1)"
proof -
  let ?cl = "fresh_client (list_reader [[0, 0, 1, 5]]) () []"
  let ?ops = "[RecvOp demo_junk (RecvFail 11) 11, ProcessOp, PlayerTick []]"
  have rd: "ready_for_packet list_ffmpeg (cl_reader ?cl)"
    by (simp add: ready_for_packet_def list_reader_def reader_zero_def list_ffmpeg_def fresh_client_def)
  have dm: "packets_of list_ffmpeg (r_bitStreamFilter (cl_reader ?cl)) (r_videoStreamId (cl_reader ?cl))
      (r_env (cl_reader ?cl)) [[0, 0, 1, 5]]"
    using demuxes_list [of "[[0, 0, 1, 5]]"]
    by (simp add: list_reader_def reader_zero_def fresh_client_def packets_of_def)
  have sc: "\<forall>d \<in> set [[0, 0, 1, 5]]. start_code_at d 0" by (simp add: start_code_at_def)
  have cl: "r_currentNaluIndex (cl_reader ?cl) = 0" "cl_running ?cl" "cl_sent ?cl = []"
    by (simp_all add: fresh_client_def list_reader_def reader_zero_def)
  have mode: "\<not> cc_encodingMode (demo_conf False 8)" by (simp add: demo_conf_def)
  from drain_file_aux [OF rd dm sc] obtain bs r' where "drain list_ffmpeg (cl_reader ?cl) = Some (bs, r')"
    by blast
  from client_loop_raw [OF this cl(2) mode demo_conf_address, of "\<lambda>_. 0" demo_encode] obtain cl'
    where loop: "client_loop list_ffmpeg (demo_conf False 8) (\<lambda>_. 0) demo_encode ?cl = Some (Ok cl')"
    by blast
  have wf: "list_all op_wf ?ops" by (simp add: demo_junk_length)
  have ok: "server_ok demo_boot" by (simp add: demo_boot_def boot_ok)
  obtain sv' where run: "server_run BigEndian no_decoder ?ops demo_boot = Ok sv'"
    by (rule server_runE [OF ok wf])
  have num: "numberable (file_units [[0, 0, 1, 5]])" by (simp only: demo_file_units demo_units)
  have del: "list_all (delivers (cl_sent cl')) ?ops" by simp
  from file_to_screen [OF rd dm sc cl(1,2) mode demo_conf_address cl(3) loop num wf del
      run [unfolded demo_boot_def]] loop run
  show ?thesis
    unfolding demo_file_units by auto
qed

end
