(* ===== verification/Programs.thy ===== *)
theory Programs
  imports Config_Server End_To_End
begin

text \<open>
  The two programs as a whole: the configuration is read, its values make the socket, and the
  rest of \<open>main\<close> runs with them. What the system, FFmpeg, SDL and the Reed-Solomon code do are
  the parameters of the parts.
\<close>

section \<open>The client\<close>

text \<open>\<open>Misconfigured s\<close>: the constructor of the configuration ended the process; \<open>None\<close>: by an assertion.\<close>

datatype ('s, 'a) process = Misconfigured "'s option" | Main 'a

definition client_process :: "'v rapidjson \<Rightarrow> 'v file_env \<Rightarrow> (string \<Rightarrow> bool) \<Rightarrow> u16 \<Rightarrow> logger \<Rightarrow>
    statistics \<Rightarrow> 'e ffmpeg \<Rightarrow> int \<Rightarrow> 'e \<Rightarrow> (string \<Rightarrow> 'e open_env) \<Rightarrow> endian \<Rightarrow> sys_env \<Rightarrow> (bytes \<Rightarrow> u64) \<Rightarrow>
    'x encode \<Rightarrow> 'x \<Rightarrow>
    (client_config cfg_state, ('e, 'x) client access outcome option) process" where
  "client_process js fe can_open garbage lg st ff network_init env files e sys os Encode x =
     (case client_Config js fe can_open garbage lg st of
        Abort \<Rightarrow> Misconfigured None
      | Exit s \<Rightarrow> Misconfigured (Some s)
      | Cont s \<Rightarrow>
          let cm = client_settings_of (cs_config s);
              sock = ClientSocket e sys (cm_serverIp cm) (cm_serverPort cm) (cm_ownPort cm)
          in Main (client_main ff network_init env (files (cm_streamSource cm)) sock e
               (cm_encodingMode cm) (cm_packetAmount cm) (cm_streamSource cm) os Encode x))"

text \<open>The system calls of the client's socket succeed.\<close>

definition socket_works :: "sys_env \<Rightarrow> string \<Rightarrow> bool" where
  "socket_works sys ip \<longleftrightarrow> 0 < fst (sys_inet_pton sys ip) \<and> 0 \<le> sys_bind sys \<and> 0 \<le> sys_connect sys"

lemma htons_zero: "htons e w = 0 \<longleftrightarrow> w = 0"
proof -
  have "w = 0" if "htons e w = 0"
  proof -
    have "store16 e (htons e w) = be16 w" by (rule store_htons)
    with that have "be16 w = store16 e 0" by simp
    also have "store16 e 0 = be16 0" by (cases e) (simp_all add: be16_def le_bytes16_def)
    finally have "le_bytes16 w = le_bytes16 0" by (simp add: be16_def)
    then show ?thesis by (metis of_le16_bytes)
  qed
  moreover have "htons e 0 = 0" by (cases e) (simp_all add: le_bytes16_def of_le16_def)
  ultimately show ?thesis by blast
qed

lemma ClientSocket_works:
  assumes "socket_works sys ip"
  shows "\<exists>sk logs. ClientSocket e sys ip port own = (Done sk, logs) \<and>
    (sin_port (sk_sendAddress sk) = 0 \<longleftrightarrow> port = 0)"
  using assms
  by (auto simp: ClientSocket_def fresh_socket_def socket_works_def Let_def htons_zero split: prod.split)

text \<open>The opening of a file with an H.264 stream succeeds; only raw files are read without the filter.\<close>

definition opens :: "'e open_env \<Rightarrow> bool \<Rightarrow> int \<Rightarrow> bool" where
  "opens oe filtered vid \<longleftrightarrow> 0 \<le> oe_open_input oe \<and> 0 \<le> oe_find_stream_info oe \<and>
     find_video_stream (oe_streams oe) 0 = Some vid \<and> (filtered \<longleftrightarrow> oe_format_name oe \<noteq> ''h264'') \<and>
     (filtered \<longrightarrow> oe_bsf_found oe \<and> 0 \<le> oe_bsf_alloc oe \<and> 0 \<le> oe_parameters_copy oe \<and> 0 \<le> oe_bsf_init oe)"

lemma find_video_stream_ge: "find_video_stream ss i = Some vid \<Longrightarrow> i \<le> vid"
  by (induction ss i rule: find_video_stream.induct) (auto split: if_splits)

lemma Open_opens:
  assumes "opens oe filtered vid"
  shows "\<exists>r1. Open oe url r = Done r1 \<and> r_videoStreamId r1 = vid \<and> r_env r1 = oe_env oe \<and>
    r_bitStreamFilter r1 = filtered \<and> r_currentNALU r1 = [] \<and> r_streamBuffer r1 = [] \<and>
    r_streamBufferOffset r1 = 0 \<and> r_currentNaluIndex r1 = 0"
proof -
  have "vid \<noteq> -1" using assms find_video_stream_ge [of "oe_streams oe" 0 vid] by (auto simp: opens_def)
  with assms show ?thesis by (auto simp: Open_def opens_def Let_def reader_log_def Close_def)
qed

text \<open>A file that FFmpeg opens and gives in packets \<open>ds\<close>, each beginning with a start code.\<close>

definition readable :: "'e ffmpeg \<Rightarrow> 'e open_env \<Rightarrow> bytes list \<Rightarrow> bool" where
  "readable ff oe ds \<longleftrightarrow> (\<forall>env. av_packet_alloc ff env = (True, env)) \<and>
     (\<exists>filtered vid. opens oe filtered vid \<and> packets_of ff filtered vid (oe_env oe) ds) \<and>
     (\<forall>d \<in> set ds. start_code_at d 0)"

text \<open>What the client gives the system for some blocks, in either mode.\<close>

definition wire_of :: "endian \<Rightarrow> bool \<Rightarrow> nat \<Rightarrow> (bytes \<Rightarrow> u8 \<Rightarrow> bytes) \<Rightarrow> nat \<Rightarrow> block list \<Rightarrow> bytes list" where
  "wire_of e encodingMode amount field k bs =
     (if encodingMode then concat (map (field_datagrams e field (min k (Suc amount))) bs)
      else datagrams e bs)"

lemma client_thread_sends:
  assumes "readable ff oe ds" and "cc_encodingMode cc \<longrightarrow> encoder_gives Encode field k"
    and "cl_running cl"
  shows "\<exists>cl'. client_thread ff oe url cc os Encode cl = Some (Done (Ok cl')) \<and>
    cl_sent cl' = cl_sent cl @ reaching cc (wire_of (cc_endian cc) (cc_encodingMode cc)
      (unat (cc_packetAmount cc)) field k (units_blocks 0 (file_units ds)))"
proof -
  from assms(1) obtain filtered vid where h264: "\<forall>env. av_packet_alloc ff env = (True, env)"
    "opens oe filtered vid" "packets_of ff filtered vid (oe_env oe) ds" "\<forall>d \<in> set ds. start_code_at d 0"
    unfolding readable_def by blast
  from Open_opens [OF h264(2), of url "cl_reader cl"] obtain r1 where op: "Open oe url (cl_reader cl) = Done r1"
    and r1: "r_videoStreamId r1 = vid" "r_env r1 = oe_env oe" "r_bitStreamFilter r1 = filtered"
      "r_currentNALU r1 = []" "r_streamBuffer r1 = []" "r_streamBufferOffset r1 = 0"
      "r_currentNaluIndex r1 = 0"
    by blast
  have "ready_for_packet ff r1" using r1 h264(1) by (simp add: ready_for_packet_def)
  from drain_file_aux [OF this _ h264(4)] r1 h264(3) obtain r' where
    dr: "drain ff r1 = Some (units_blocks 0 (file_units ds), r')"
    by (auto simp: file_units_def)
  let ?cl = "clog Info ''StreamReader opened: {}'' [ArgStr url] (cl\<lparr>cl_reader := r1\<rparr>)"
  have cl: "drain ff (cl_reader ?cl) = Some (units_blocks 0 (file_units ds), r')" "cl_running ?cl"
    using dr assms(3) by simp_all
  have "\<exists>cl'. client_loop ff cc os Encode ?cl = Some (Ok cl') \<and>
      cl_sent cl' = cl_sent cl @ reaching cc (wire_of (cc_endian cc) (cc_encodingMode cc)
        (unat (cc_packetAmount cc)) field k (units_blocks 0 (file_units ds)))"
  proof (cases "cc_encodingMode cc")
    case True
    from client_loop_encoded [OF cl True, of Encode field k os] assms(2) True show ?thesis
      by (auto simp: wire_of_def)
  next
    case False
    from client_loop_sends [OF cl False, of os Encode] False show ?thesis
      by (auto simp: wire_of_def datagrams_def)
  qed
  with op show ?thesis by (auto simp: client_thread_def)
qed

lemma unat_less_8: "unat (w :: u8) < 256"
  using unsigned_less [where w = w] by simp

lemma client_process_sends_file_aux:
  assumes "client_Config js fe can_open garbage lg st = Cont s"
    and "cf_encodingMode (cs_config s) \<longrightarrow> encoder_gives Encode field k"
    and "socket_works sys (cf_serverIp (cs_config s))" and "0 \<le> network_init"
    and "readable ff (files (cf_streamSource (cs_config s))) ds" and "fe_parse fe = Inr doc"
    and "member js doc SERVER_SECTION FIELD_PORT = Some port"
  shows "\<exists>cl. client_process js fe can_open garbage lg st ff network_init env files e sys os Encode x =
      Main (Some (Done (Ok cl))) \<and>
    cl_sent cl = (if unat (GetUint js port) mod 2 ^ 16 = 0 then []
                  else wire_of e (cf_encodingMode (cs_config s)) (unat (cf_packetAmount (cs_config s)))
                         field k (units_blocks 0 (file_units ds)))"
proof -
  let ?c = "cs_config s" and ?url = "cf_streamSource (cs_config s)"
  from client_config_read_aux [OF assms(1)] assms(6,7) have port: "cf_serverPort ?c = ucast (GetUint js port)"
    by auto
  obtain sk logs where sk: "ClientSocket e sys (cf_serverIp ?c) (cf_serverPort ?c) (cf_ownPort ?c) = (Done sk, logs)"
    and addr: "sin_port (sk_sendAddress sk) = 0 \<longleftrightarrow> cf_serverPort ?c = 0"
    using ClientSocket_works [OF assms(3)] by blast
  define cc where "cc = \<lparr>cc_endian = e, cc_socket = sk, cc_encodingMode = cf_encodingMode ?c,
    cc_packetAmount = ucast (cf_packetAmount ?c)\<rparr>"
  let ?r = "acquire AvPacket (acquire Network (reader_zero env))"
  have sr: "StreamReader ff network_init env = Done ?r"
    using assms(4,5) by (simp add: StreamReader_def readable_def)
  let ?cl = "fresh_client ?r x (logs @ [LogCall Info ''Socket created'' [],
    LogCall Info ''Encoder created with 8 cells'' []])"
  have cl: "cl_running ?cl" by (simp add: fresh_client_def)
  have mode: "cc_encodingMode cc \<longrightarrow> encoder_gives Encode field k" using assms(2) by (simp add: cc_def)
  have amount: "unat (cc_packetAmount cc) = unat (cf_packetAmount ?c)"
    using unat_less_8 [of "cf_packetAmount ?c"]
    by (simp add: cc_def unsigned_ucast_eq take_bit_nat_eq_self)
  from client_thread_sends [OF assms(5) mode cl, of ?url os] amount obtain cl' where
    th: "client_thread ff (files ?url) ?url cc os Encode ?cl = Some (Done (Ok cl'))"
    and sent: "cl_sent cl' = reaching cc (wire_of e (cf_encodingMode ?c) (unat (cf_packetAmount ?c))
      field k (units_blocks 0 (file_units ds)))"
    by (auto simp: fresh_client_def cc_def)
  have "cf_serverPort ?c = 0 \<longleftrightarrow> unat (GetUint js port) mod 2 ^ 16 = 0"
    by (simp add: port word_unat_eq_iff unsigned_ucast_eq take_bit_eq_mod)
  with addr have "reaching cc ds' = (if unat (GetUint js port) mod 2 ^ 16 = 0 then [] else ds')" for ds'
    by (simp add: reaching_def has_address_def cc_def)
  with th sr sk sent show ?thesis
    by (simp add: client_process_def client_main_def client_settings_of_def client_getters_def assms(1)
        Let_def cc_def)
qed

text \<open>
  C5: The client program, from its configuration to the wire: it reads the configured file,
  gives the system, for each block of each unit in order, one datagram in raw mode and in
  encoded mode its fields with ascending indices, one more than the configured amount (but no
  more than the encoder gives), and ends. With a port that is a multiple of \<open>2^16\<close>, which the configuration accepts, it gives
  the system nothing at all and still ends as if all were well.
\<close>

theorem client_process_sends_file:
  assumes "client_Config js fe can_open garbage lg st = Cont s"
    and "cf_encodingMode (cs_config s) \<longrightarrow> encoder_gives Encode field k"
    and "socket_works sys (cf_serverIp (cs_config s))" and "0 \<le> network_init"
    and "readable ff (files (cf_streamSource (cs_config s))) ds" and "fe_parse fe = Inr doc"
    and "member js doc SERVER_SECTION FIELD_PORT = Some port"
  shows "\<exists>cl. client_process js fe can_open garbage lg st ff network_init env files e sys os Encode x =
      Main (Some (Done (Ok cl))) \<and>
    cl_sent cl = (if unat (GetUint js port) mod 2 ^ 16 = 0 then []
                  else wire_of e (cf_encodingMode (cs_config s)) (unat (cf_packetAmount (cs_config s)))
                         field k (units_blocks 0 (file_units ds)))"
  using assms by (rule client_process_sends_file_aux)

definition client_doc :: "u32 \<Rightarrow> json" where
  "client_doc port = JObj [(''server'', JObj [(''ip'', JStr ''10.0.0.1''), (''port'', JUint port)]),
     (''general'', JObj [(''source'', JStr ''a.h264'')])]"

definition demo_sys :: sys_env where
  "demo_sys = \<lparr>sys_socket = 3, sys_inet_pton = (\<lambda>ip. (1, 7)), sys_bind = 0, sys_connect = 0,
     sys_setsockopt = (\<lambda>n. 0)\<rparr>"

definition demo_file :: "av_packet list open_env" where
  "demo_file = \<lparr>oe_open_input = 0, oe_find_stream_info = 0, oe_format_name = ''h264'',
     oe_streams = [(True, False), (True, True)], oe_bsf_found = True, oe_bsf_alloc = 0,
     oe_parameters_copy = 0, oe_bsf_init = 0,
     oe_env = map (\<lambda>d. (data_packet d)\<lparr>pkt_stream_index := 1\<rparr>) [[0, 0, 1, 5]]\<rparr>"

abbreviation demo_client_config :: "u32 \<Rightarrow> client_config cfg_state cfg_result" where
  "demo_client_config port \<equiv> client_Config json_api (json_file (client_doc port)) (\<lambda>_. True) 0
     (logger_init Map.empty) (statistics_init Map.empty)"

lemma demo_client_config:
  "\<exists>s. demo_client_config port = Cont s \<and> cf_encodingMode (cs_config s) = False"
  by (simp add: client_Config_def client_sections_def client_server_section_def client_config_init_def
      client_packet_section_def client_general_section_def client_log_done_def cfg_log_def
      client_server_done_def client_general_done_def config_eval client_doc_def)

lemma demo_demuxes: "demuxes list_ffmpeg 1 (oe_env demo_file) [[0, 0, 1, 5]]"
  unfolding demo_file_def
  by (simp, rule demux_take [where rd = 0 and p = "(data_packet [0, 0, 1, 5])\<lparr>pkt_stream_index := 1\<rparr>"
        and env' = "[]"], simp_all add: list_ffmpeg_def data_packet_def)
    (rule demux_eof, simp_all add: list_ffmpeg_def)

lemma demo_readable: "readable list_ffmpeg demo_file [[0, 0, 1, 5]]"
proof -
  have "opens demo_file False 1" by (simp add: opens_def demo_file_def)
  moreover from demo_demuxes have "packets_of list_ffmpeg False 1 (oe_env demo_file) [[0, 0, 1, 5]]"
    by (simp add: packets_of_def)
  moreover have "\<forall>env. av_packet_alloc list_ffmpeg env = (True, env)" by (simp add: list_ffmpeg_def)
  ultimately show ?thesis by (auto simp: readable_def start_code_at_def)
qed

definition demo_client_process where
  "demo_client_process port = client_process json_api (json_file (client_doc port)) (\<lambda>_. True) 0
     (logger_init Map.empty) (statistics_init Map.empty) list_ffmpeg 0 [] (\<lambda>_. demo_file)
     LittleEndian demo_sys (\<lambda>_. 0) demo_encode ()"

theorem client_process_sends_file_witness:
  "(\<exists>cl. demo_client_process 65536 = Main (Some (Done (Ok cl))) \<and> cl_sent cl = []) \<and>
   (\<exists>cl. demo_client_process 8080 = Main (Some (Done (Ok cl))) \<and>
      cl_sent cl = [raw_encode LittleEndian (0, 0, 1, [0, 0, 1, 5])])"
proof -
  have run: "\<exists>cl. demo_client_process p = Main (Some (Done (Ok cl))) \<and>
      cl_sent cl = (if unat p mod 2 ^ 16 = 0 then [] else [raw_encode LittleEndian (0, 0, 1, [0, 0, 1, 5])])" for p
  proof -
    from demo_client_config obtain s where cfg: "demo_client_config p = Cont s"
      "\<not> cf_encodingMode (cs_config s)" by auto
    have works: "socket_works demo_sys ip" for ip by (simp add: socket_works_def demo_sys_def)
    from cfg(2) have mode: "cf_encodingMode (cs_config s) \<longrightarrow> encoder_gives demo_encode (\<lambda>d i. []) 0" by simp
    have doc: "fe_parse (json_file (client_doc p)) = Inr (client_doc p)" by (simp add: json_file_def)
    have port: "member json_api (client_doc p) SERVER_SECTION FIELD_PORT = Some (JUint p)"
      by (simp add: member_def client_doc_def config_eval)
    have wire: "wire_of LittleEndian (cf_encodingMode (cs_config s)) a f 0 bs = datagrams LittleEndian bs" for a f bs
      using cfg(2) by (simp add: wire_of_def)
    from client_process_sends_file [where files = "\<lambda>_. demo_file" and e = LittleEndian and env = "[]"
        and os = "\<lambda>_. 0" and Encode = demo_encode and x = "()",
        OF cfg(1) mode works order_refl demo_readable doc port]
    moreover have "GetUint json_api (JUint p) = p" by (simp add: json_api_def)
    ultimately show ?thesis by (simp only: demo_client_process_def demo_file_units demo_datagrams wire)
  qed
  from run [of 65536] run [of 8080] show ?thesis by simp
qed

section \<open>The server\<close>

definition server_process :: "'v rapidjson \<Rightarrow> 'v file_env \<Rightarrow> (string \<Rightarrow> bool) \<Rightarrow> logger \<Rightarrow> statistics \<Rightarrow>
    endian \<Rightarrow> sys_env \<Rightarrow> 'c display outcome \<Rightarrow> bool \<Rightarrow> (string list \<Rightarrow> string) \<Rightarrow> stream_write \<Rightarrow> 'd \<Rightarrow>
    (server_config cfg_state, 'd server outcome) process" where
  "server_process js fe can_open lg st e sys disp window_ok join_names header decoder =
     (case server_Config js fe can_open lg st of
        Abort \<Rightarrow> Misconfigured None
      | Exit s \<Rightarrow> Misconfigured (Some s)
      | Cont s \<Rightarrow>
          let sock = ServerSocket e sys (sf_ownPort (cs_config s)) (sf_rxBufferSize (cs_config s))
          in Main (server_main sock disp window_ok can_open join_names header decoder (cs_stats s)))"

text \<open>
  The end of \<open>main\<close>, after the two joins: the threads end only once \<open>running\<close> is cleared.
\<close>

definition server_end :: "'d server \<Rightarrow> 'd server option" where
  "server_end sv =
     (if sv_running sv then None
      else Some (slog Info ''Server shutting down'' []
             (sv\<lparr>sv_player := Stop_player (sv_player sv)\<rparr>)))"

text \<open>How often the receiver thread has counted a packet.\<close>

fun is_count :: "player_op \<Rightarrow> bool" where
  "is_count CountPacket = True"
| "is_count _ = False"

lemma counts_accepted:
  "length (filter is_count (player_ops e Decode ops q dec)) = length (accepted e ops)"
proof (induction ops q dec rule: player_ops_induct [where e = e and Decode = Decode])
  case (Process xs pkt q dec ps dec1)
  with packet_ops_all [of "\<lambda>x. \<not> is_count x" Decode pkt dec] show ?case
    by (simp add: list_all_iff filter_empty_conv)
qed simp_all

lemma other_counters:
  assumes "stat_ok (pl_stats p)"
  shows "stat_ok (pl_stats (player_apply x p)) \<and>
    registered (pl_stats (player_apply x p)) = registered (pl_stats p) \<and>
    stat_Get ACCEPTED_PACKETS (pl_stats (player_apply x p)) = stat_Get ACCEPTED_PACKETS (pl_stats p) +
      (if is_count x \<and> registered (pl_stats p) ACCEPTED_PACKETS then 1 else 0)"
proof (cases x)
  case (Arrive bi ni ns d)
  with assms counter_names_distinct show ?thesis
    by (simp add: AddBlock_cases Let_def complete_nalu_def open_assembly_def player_simps
        Get_Increment stat_ok_Increment split: option.split)
next
  case (Tick evs)
  with assms counter_names_distinct show ?thesis
    by (simp add: run_iteration_def show_next_def skip_missing_def Let_def player_simps
        Get_Increment stat_ok_Increment split: option.split)
qed (use assms in \<open>simp_all add: Start_player_def Stop_player_def player_simps Get_Increment stat_ok_Increment\<close>)

lemma packets_counted:
  assumes "stat_ok (pl_stats p)" and "registered (pl_stats p) ACCEPTED_PACKETS"
  shows "stat_Get ACCEPTED_PACKETS (pl_stats (player_run xs p)) =
    stat_Get ACCEPTED_PACKETS (pl_stats p) + of_nat (length (filter is_count xs))"
  using assms
proof (induction xs arbitrary: p)
  case Nil
  then show ?case by simp
next
  case (Cons x xs)
  note step = other_counters [OF Cons.prems(1), of x]
  from Cons.IH [of "player_apply x p"] step Cons.prems(2) show ?case by simp
qed

lemma zero_counters:
  assumes "stat_ok st" and "\<forall>c \<in> set (st_counters st). snd c = 0"
  shows "stat_Get n st = 0"
  using assms stat_ok_index [OF assms(1), of n] by (auto simp: stat_Get_def split: option.split)

lemma Start_counters:
  "Start can_open jn header st = Done st' \<Longrightarrow> st_counters st' = st_counters st"
  by (auto simp: Start_def Let_def split: if_splits option.splits stream_write.splits)

text \<open>The statistics a server process starts with.\<close>

lemma server_process_boot:
  assumes "server_process js fe can_open lg (statistics_init files) e sys disp w jn header decoder =
      Main (Done sv)"
  shows "\<exists>st logs. stat_ok st \<and> (\<forall>n \<in> set default_counters. registered st n) \<and> (\<forall>n. stat_Get n st = 0) \<and>
    (\<exists>st0. sv = server_boot decoder ((Start_player w (player_init st0))\<lparr>pl_stats := st\<rparr>) logs)"
proof -
  from assms obtain s where cfg: "server_Config js fe can_open lg (statistics_init files) = Cont s"
    and main: "server_main (ServerSocket e sys (sf_ownPort (cs_config s)) (sf_rxBufferSize (cs_config s)))
      disp w can_open jn header decoder (cs_stats s) = Done sv"
    by (auto simp: server_process_def Let_def split: cfg_result.splits)
  have same: "pl_stats (Start_player w (player_init (cs_stats s))) = cs_stats s"
    by (simp add: Start_player_def player_init_def emit_def)
  from main obtain st logs where start: "Start can_open jn header (cs_stats s) = Done st"
    and sv: "sv = server_boot decoder ((Start_player w (player_init (cs_stats s)))\<lparr>pl_stats := st\<rparr>) logs"
    by (auto simp: server_main_def Let_def same split: prod.splits outcome.splits)
  have ok: "stat_ok st" using stat_ok_Start [OF server_config_stat_ok [OF cfg] start] .
  from server_config_read_aux [OF cfg] obtain ns where
    cs: "st_counters st = map (\<lambda>n. (n, 0)) (default_counters @ ns)"
    using Start_counters [OF start] by auto
  then have "map fst (st_counters st) = default_counters @ ns" by (simp add: comp_def)
  then have "\<forall>n \<in> set default_counters. registered st n" by (simp add: registered_names del: set_map)
  moreover have "stat_Get n st = 0" for n using cs by (intro zero_counters [OF ok]) auto
  ultimately show ?thesis using ok sv by blast
qed

text \<open>
  C6: Whatever its configuration says, a server that has started counts right (modulo \<open>2^64\<close>),
  whatever is received and however its threads interleave: the accepted packets, the blocks
  given to the player, the units completed, and the skips of the playback.
\<close>

theorem server_process_counts:
  assumes "server_process js fe can_open lg (statistics_init files) e sys disp w jn header decoder =
      Main (Done sv)"
    and "list_all op_wf ops" and "server_run e Decode ops sv = Ok sv'"
  shows "let st = pl_stats (sv_player sv')
    in stat_Get ACCEPTED_PACKETS st = of_nat (length (accepted e ops)) \<and>
       stat_Get ACCEPTED_BLOCKS st = of_nat (arrivals (player_ops e Decode ops [] decoder)) \<and>
       stat_Get ASSEMBLED_NALU st = of_nat (notified (sv_player sv')) \<and>
       stat_Get SKIPPED_NALU st = of_nat (warned (sv_player sv'))"
proof -
  from server_process_boot [OF assms(1)] obtain st st0 logs where ok: "stat_ok st"
    and reg: "\<forall>n \<in> set default_counters. registered st n" and zero: "\<forall>n. stat_Get n st = 0"
    and sv: "sv = server_boot decoder ((Start_player w (player_init st0))\<lparr>pl_stats := st\<rparr>) logs"
    by blast
  let ?p = "(Start_player w (player_init st0))\<lparr>pl_stats := st\<rparr>"
  let ?xs = "player_ops e Decode ops [] decoder"
  have run: "sv_player sv' = player_run ?xs ?p"
    using server_run_eq [OF boot_ok assms(2), of e Decode decoder ?p logs] assms(3) sv
    by (simp add: server_boot_def)
  have pok: "player_ok ?p"
    using player_ok_apply [OF player_ok_init, of "StartOp w" st0] by (simp add: player_ok_def)
  have "counters_agree st 0 ?p"
    using ok by (simp add: counters_agree_def notified_def warned_def Start_player_def player_init_def
        player_simps plog_def)
  from agree_run [OF pok this, of ?xs] packets_counted [of ?p ?xs] counts_accepted [of e Decode ops "[]" decoder]
  show ?thesis
    using reg zero ok by (simp add: run Let_def counters_agree_def default_counters_def)
qed

definition demo_server_process where
  "demo_server_process = server_process json_api (json_file server_doc) (\<lambda>_. True) (logger_init Map.empty)
     (statistics_init Map.empty) BigEndian demo_sys (Done (display_init ())) True concat Written ()"

theorem server_process_counts_witness:
  "\<exists>sv sv'. demo_server_process = Main (Done sv) \<and> server_run BigEndian no_decoder demo_ops_server sv = Ok sv' \<and>
     stat_Get ACCEPTED_PACKETS (pl_stats (sv_player sv')) = 1"
proof -
  from server_config_demo obtain s where
    cfg: "server_Config json_api (json_file server_doc) (\<lambda>_. True) (logger_init Map.empty)
      (statistics_init Map.empty) = Cont s" ..
  have "st_counters (cs_stats s) \<noteq> []"
    using server_config_read_aux [OF cfg] by (auto simp: default_counters_def)
  then have "\<exists>st. Start (\<lambda>_. True) concat Written (cs_stats s) = Done st"
    by (auto simp: Start_def Let_def split: option.split)
  then obtain sv where sv: "demo_server_process = Main (Done sv)"
    by (auto simp: demo_server_process_def server_process_def cfg server_main_def ServerSocket_def
        fresh_socket_def demo_sys_def Let_def Start_player_def player_init_def)
  from server_process_boot [OF sv [unfolded demo_server_process_def]] have "server_ok sv"
    by (auto intro: boot_ok)
  from server_runE [OF this demo_ops_facts(1), where e = BigEndian and Decode = no_decoder] obtain sv' where
    run: "server_run BigEndian no_decoder demo_ops_server sv = Ok sv'" by blast
  have b: "block_ok ([0, 0, 1, 5], 0, 0, 1)" by (simp add: wire_simps)
  have "length (accepted BigEndian demo_ops_server) = 1"
    using accepts_datagram [OF b, of BigEndian LittleEndian]
    by (simp add: demo_ops_server_def del: accepts.simps(2) raw_view.simps raw_encode.simps)
  with server_process_counts [OF sv [unfolded demo_server_process_def] demo_ops_facts(1) run]
  have "stat_Get ACCEPTED_PACKETS (pl_stats (sv_player sv')) = 1" by (simp add: Let_def)
  with sv run show ?thesis by blast
qed

section \<open>The end of the server\<close>

text \<open>\<open>running\<close> is never cleared: no run of the threads reaches the shutdown of \<open>main\<close>.\<close>

lemma server_never_ends:
  assumes "server_process js fe can_open lg (statistics_init files) e sys disp w jn header decoder =
      Main (Done sv)"
    and "list_all op_wf ops" and "server_run e Decode ops sv = Ok sv'"
  shows "server_end sv' = None"
proof -
  from server_process_boot [OF assms(1)] have "server_ok sv" by (auto intro: boot_ok)
  from server_run_eq [OF this assms(2), of e Decode] assms(3) show ?thesis
    by (auto simp: server_end_def server_ok_def)
qed

end
