(* ===== verification/Server_Screen.thy ===== *)
theory Server_Screen
  imports Server_Facts Player_Screen
begin

text \<open>
  The server program with its real player: \<open>server/server.cpp\<close> where the player is the whole
  of \<open>common/video/Player.h\<close>, with decoder, window and clock. The receiver and the processor
  take none of the player thread's time. A pass that does not return is \<open>None\<close>.
\<close>

section \<open>State and steps\<close>

text \<open>\<open>nd_interval\<close> and \<open>nd_timeout\<close> are what the player asks the configuration for.\<close>

record ('d, 'c) node =
  nd_server :: "'d server"
  nd_display :: "'c display"
  nd_now :: nat
  nd_nextTick :: nat
  nd_interval :: nat
  nd_timeout :: nat

definition node_screen :: "('d, 'c) node \<Rightarrow> 'c screen" where
  "node_screen n = \<lparr>sc_player = sv_player (nd_server n), sc_display = nd_display n,
     sc_now = nd_now n, sc_nextTick = nd_nextTick n\<rparr>"

definition with_screen :: "'c screen \<Rightarrow> ('d, 'c) node \<Rightarrow> ('d, 'c) node" where
  "with_screen s n = n\<lparr>nd_server := (nd_server n)\<lparr>sv_player := sc_player s\<rparr>,
     nd_display := sc_display s, nd_now := sc_now s, nd_nextTick := sc_nextTick s\<rparr>"

definition with_server :: "'d server access \<Rightarrow> ('d, 'c) node \<Rightarrow> ('d, 'c) node access" where
  "with_server res n =
     (case res of OutOfBounds \<Rightarrow> OutOfBounds | Ok sv \<Rightarrow> Ok (n\<lparr>nd_server := sv\<rparr>))"

datatype node_op = NdReceive bytes recv_result int | NdProcess | NdPass "sdl_event list" nat nat

fun node_apply :: "endian \<Rightarrow> 'd decode \<Rightarrow> 'c codec_api \<Rightarrow> node_op \<Rightarrow> ('d, 'c) node \<Rightarrow>
    ('d, 'c) node access option" where
  "node_apply e Decode api (NdReceive junk r errno) n =
     Some (with_server (receiver_step e junk r errno (nd_server n)) n)"
| "node_apply e Decode api NdProcess n = Some (with_server (processor_step Decode (nd_server n)) n)"
| "node_apply e Decode api (NdPass evs spent over) n =
     Option.bind (screen_pass api (nd_interval n) (nd_timeout n) evs spent over (node_screen n))
       (\<lambda>s. Some (Ok (with_screen s n)))"

fun node_run :: "endian \<Rightarrow> 'd decode \<Rightarrow> 'c codec_api \<Rightarrow> node_op list \<Rightarrow> ('d, 'c) node \<Rightarrow>
    ('d, 'c) node access option" where
  "node_run e Decode api [] n = Some (Ok n)"
| "node_run e Decode api (x # xs) n =
     Option.bind (node_apply e Decode api x n)
       (\<lambda>res. case res of OutOfBounds \<Rightarrow> Some OutOfBounds | Ok n1 \<Rightarrow> node_run e Decode api xs n1)"

lemma node_run_Cons:
  "node_run e Decode api (x # xs) n = Some (Ok n') \<longleftrightarrow>
     (\<exists>n1. node_apply e Decode api x n = Some (Ok n1) \<and> node_run e Decode api xs n1 = Some (Ok n'))"
  by (auto split: Option.bind_splits access.splits)

lemma node_run_append:
  "node_run e Decode api (xs @ ys) n = Option.bind (node_run e Decode api xs n)
     (\<lambda>res. case res of OutOfBounds \<Rightarrow> Some OutOfBounds | Ok n1 \<Rightarrow> node_run e Decode api ys n1)"
  by (induction xs arbitrary: n) (auto split: Option.bind_splits access.splits)

section \<open>The server inside\<close>

fun server_part :: "node_op \<Rightarrow> server_op" where
  "server_part (NdReceive junk r errno) = RecvOp junk r errno"
| "server_part NdProcess = ProcessOp"
| "server_part (NdPass evs spent over) = PlayerTick evs"

lemma with_server_Ok: "with_server res n = Ok n1 \<longleftrightarrow> (\<exists>sv. res = Ok sv \<and> n1 = n\<lparr>nd_server := sv\<rparr>)"
  by (cases res) (auto simp: with_server_def)

lemma node_settings:
  "node_apply e Decode api x n = Some (Ok n1) \<Longrightarrow> nd_interval n1 = nd_interval n \<and> nd_timeout n1 = nd_timeout n"
  by (cases x) (auto simp: with_server_Ok with_screen_def split: Option.bind_splits)

lemma node_settings_run:
  "node_run e Decode api xs n = Some (Ok n1) \<Longrightarrow> nd_interval n1 = nd_interval n \<and> nd_timeout n1 = nd_timeout n"
proof (induction xs arbitrary: n)
  case (Cons x xs)
  then obtain n2 where "node_apply e Decode api x n = Some (Ok n2)" "node_run e Decode api xs n2 = Some (Ok n1)"
    by (auto simp only: node_run_Cons)
  with node_settings Cons.IH show ?case by metis
qed simp

lemma node_apply_server:
  "node_apply e Decode api x n = Some (Ok n1) \<Longrightarrow>
     server_apply e Decode (server_part x) (nd_server n) = Ok (nd_server n1)"
  by (cases x) (auto simp: with_server_Ok with_screen_def node_screen_def
      dest!: screen_pass_player split: Option.bind_splits)

lemma node_run_server:
  "node_run e Decode api xs n = Some (Ok n') \<Longrightarrow>
     server_run e Decode (map server_part xs) (nd_server n) = Ok (nd_server n')"
proof (induction xs arbitrary: n)
  case (Cons x xs)
  then show ?case
    by (auto simp: node_run_Cons simp del: node_run.simps(2) server_apply.simps dest!: node_apply_server)
qed simp

text \<open>A step returns when decoding does, and reads nothing outside a packet.\<close>

lemma node_apply_returns:
  assumes "\<And>ni nalu d. \<exists>d'. DecodeAndDisplayNalu api ni nalu d = Some d'"
    and "server_ok (nd_server n)" and "op_wf (server_part x)"
  shows "\<exists>n1. node_apply e Decode api x n = Some (Ok n1) \<and> server_ok (nd_server n1)"
proof -
  from server_apply_eq [OF assms(2,3), of e Decode] obtain sv1 where
    sv1: "server_apply e Decode (server_part x) (nd_server n) = Ok sv1" "server_ok sv1" by blast
  show ?thesis
  proof (cases x)
    case (NdPass evs spent over)
    obtain s where "screen_pass api (nd_interval n) (nd_timeout n) evs spent over (node_screen n) = Some s"
      using pass_returns [OF assms(1), of "nd_interval n" "nd_timeout n" "ScPass evs spent over" "node_screen n"]
      by auto
    then have "node_apply e Decode api x n = Some (Ok (with_screen s n))" by (simp add: NdPass)
    with node_apply_server [OF this] sv1 show ?thesis by auto
  qed (use sv1 in \<open>simp_all add: with_server_def\<close>)
qed

lemma node_run_returns:
  assumes "\<And>ni nalu d. \<exists>d'. DecodeAndDisplayNalu api ni nalu d = Some d'"
    and "server_ok (nd_server n)" and "list_all op_wf (map server_part xs)"
  shows "\<exists>n'. node_run e Decode api xs n = Some (Ok n') \<and> server_ok (nd_server n')"
  using assms(2,3)
proof (induction xs arbitrary: n)
  case (Cons x xs)
  then have "op_wf (server_part x)" "list_all op_wf (map server_part xs)" by simp_all
  from node_apply_returns [OF assms(1) Cons.prems(1) this(1), of e Decode] obtain n1 where
    "node_apply e Decode api x n = Some (Ok n1)" "server_ok (nd_server n1)" by blast
  with Cons.IH [of n1] \<open>list_all op_wf (map server_part xs)\<close> show ?case
    unfolding node_run_Cons by blast
qed simp

section \<open>The player inside\<close>

lemma run_without_pass:
  assumes "list_all (\<lambda>x. x = CountPacket \<or> (\<exists>bi ni t d. x = Arrive bi ni t d)) ops"
  shows "\<exists>xs. map player_part xs = ops \<and> list_all in_loop xs \<and>
    screen_run api i t xs s = Some (s\<lparr>sc_player := player_run ops (sc_player s)\<rparr>)"
  using assms
proof (induction ops arbitrary: s)
  case Nil
  show ?case by (intro exI [of _ "[]"]) simp
next
  case (Cons x ops)
  then have ops: "list_all (\<lambda>x. x = CountPacket \<or> (\<exists>bi ni t d. x = Arrive bi ni t d)) ops" by simp
  from Cons.prems obtain y where y: "player_part y = x" "in_loop y"
    "screen_apply api i t y s = Some (s\<lparr>sc_player := player_apply x (sc_player s)\<rparr>)"
  proof (simp, elim conjE disjE exE, goal_cases)
    case 1
    then show ?case by (intro 1(1) [of ScCount]) simp_all
  next
    case (2 bi ni t d)
    then show ?case by (intro 2(1) [of "ScBlock bi ni t d"]) simp_all
  qed
  from Cons.IH [OF ops, of "s\<lparr>sc_player := player_apply x (sc_player s)\<rparr>"] obtain ys where
    "map player_part ys = ops" "list_all in_loop ys"
    "screen_run api i t ys (s\<lparr>sc_player := player_apply x (sc_player s)\<rparr>) =
      Some (s\<lparr>sc_player := player_run ops (player_apply x (sc_player s))\<rparr>)"
    by auto
  with y show ?case by (intro exI [of _ "y # ys"]) simp
qed

lemma node_screen_server:
  "node_screen (n\<lparr>nd_server := sv\<rparr>) = (node_screen n)\<lparr>sc_player := sv_player sv\<rparr>"
  by (simp add: node_screen_def)

lemma node_screen_with: "node_screen (with_screen s n) = s"
  by (simp add: node_screen_def with_screen_def)

lemma node_apply_screen:
  assumes "server_ok (nd_server n)" and "op_wf (server_part x)"
    and "node_apply e Decode api x n = Some (Ok n1)"
  shows "\<exists>ss. map player_part ss =
      player_ops e Decode [server_part x] (sv_packetQueue (nd_server n)) (sv_decoder (nd_server n)) \<and>
    list_all in_loop ss \<and>
    screen_run api (nd_interval n) (nd_timeout n) ss (node_screen n) = Some (node_screen n1)"
proof (cases "\<exists>evs spent over. x = NdPass evs spent over")
  case True
  then obtain evs spent over where x: "x = NdPass evs spent over" by blast
  from assms(3) show ?thesis
    by (intro exI [of _ "[ScPass evs spent over]"]) (auto simp: x node_screen_with split: Option.bind_splits)
next
  case False
  let ?ops = "player_ops e Decode [server_part x] (sv_packetQueue (nd_server n)) (sv_decoder (nd_server n))"
  have "list_all (\<lambda>x. x = CountPacket \<or> (\<exists>bi ni t d. x = Arrive bi ni t d)) ?ops"
    using False by (intro player_ops_all) (auto, cases x, auto)
  from run_without_pass [OF this, of api "nd_interval n" "nd_timeout n" "node_screen n"] obtain ss where
    ss: "map player_part ss = ?ops" "list_all in_loop ss"
    "screen_run api (nd_interval n) (nd_timeout n) ss (node_screen n) =
      Some ((node_screen n)\<lparr>sc_player := player_run ?ops (sc_player (node_screen n))\<rparr>)"
    by blast
  from assms(3) False obtain sv where n1: "n1 = n\<lparr>nd_server := sv\<rparr>"
    by (cases x) (auto simp: with_server_Ok)
  have "sv_player sv = player_run ?ops (sv_player (nd_server n))"
    using server_applyD(2) [OF assms(1,2) node_apply_server [OF assms(3)]] n1 by simp
  then have "node_screen n1 = (node_screen n)\<lparr>sc_player := player_run ?ops (sc_player (node_screen n))\<rparr>"
    by (simp only: n1 node_screen_server) (simp add: node_screen_def)
  with ss show ?thesis by metis
qed

lemma screen_run_append:
  "screen_run api i t (xs @ ys) s = Option.bind (screen_run api i t xs s) (screen_run api i t ys)"
  by (induction xs arbitrary: s) (auto split: Option.bind_splits)

lemma node_run_screen:
  assumes "server_ok (nd_server n)" and "list_all op_wf (map server_part xs)"
    and "node_run e Decode api xs n = Some (Ok n')"
  shows "\<exists>ss. map player_part ss = player_ops e Decode (map server_part xs)
      (sv_packetQueue (nd_server n)) (sv_decoder (nd_server n)) \<and> list_all in_loop ss \<and>
    screen_run api (nd_interval n) (nd_timeout n) ss (node_screen n) = Some (node_screen n')"
  using assms
proof (induction xs arbitrary: n)
  case Nil
  then show ?case by (intro exI [of _ "[]"]) simp
next
  case (Cons x xs)
  from Cons.prems(2) have wf: "op_wf (server_part x)" "list_all op_wf (map server_part xs)" by simp_all
  from Cons.prems(3) obtain n1 where x: "node_apply e Decode api x n = Some (Ok n1)"
    and xs: "node_run e Decode api xs n1 = Some (Ok n')" by (auto simp only: node_run_Cons)
  note step = server_applyD [OF Cons.prems(1) wf(1) node_apply_server [OF x]]
  from node_apply_screen [OF Cons.prems(1) wf(1) x] obtain ss where
    ss: "map player_part ss =
      player_ops e Decode [server_part x] (sv_packetQueue (nd_server n)) (sv_decoder (nd_server n))"
    "list_all in_loop ss"
    "screen_run api (nd_interval n) (nd_timeout n) ss (node_screen n) = Some (node_screen n1)" by blast
  from Cons.IH [OF step(1) wf(2) xs] node_settings [OF x] obtain ts where
    ts: "map player_part ts = player_ops e Decode (map server_part xs)
      (sv_packetQueue (nd_server n1)) (sv_decoder (nd_server n1))" "list_all in_loop ts"
    "screen_run api (nd_interval n) (nd_timeout n) ts (node_screen n1) = Some (node_screen n')" by auto
  have "map player_part (ss @ ts) = player_ops e Decode (map server_part (x # xs))
      (sv_packetQueue (nd_server n)) (sv_decoder (nd_server n))"
    unfolding list.map map_append ss(1) ts(1) by (rule step(3) [symmetric])
  with ss ts show ?case by (intro exI [of _ "ss @ ts"]) (simp add: screen_run_append)
qed

text \<open>
  C9: The server with its real player. With a video decoder that makes progress every run
  returns, whatever is received and however the threads interleave, and reads nothing outside
  a packet; seen without decoder, window and clock it is a run of the server, and the whole
  player inside has done exactly the operations that the received packets amount to.
\<close>

theorem node_refines_server:
  assumes "decoder_progress api m" and "server_ok (nd_server n)" and "list_all op_wf (map server_part ops)"
  shows "\<exists>n' ss. node_run e Decode api ops n = Some (Ok n') \<and>
    server_run e Decode (map server_part ops) (nd_server n) = Ok (nd_server n') \<and>
    map player_part ss = player_ops e Decode (map server_part ops)
      (sv_packetQueue (nd_server n)) (sv_decoder (nd_server n)) \<and>
    screen_run api (nd_interval n) (nd_timeout n) ss (node_screen n) = Some (node_screen n')"
proof -
  from node_run_returns [OF decoding_returns_aux [OF assms(1)] assms(2,3)] obtain n' where
    run: "node_run e Decode api ops n = Some (Ok n')" by blast
  from node_run_server [OF run] node_run_screen [OF assms(2,3) run] run show ?thesis by blast
qed

definition demo_node :: "(unit, frame list) node" where
  "demo_node = \<lparr>nd_server = boot_server, nd_display = display_init [], nd_now = 0, nd_nextTick = 0,
     nd_interval = 33, nd_timeout = 100\<rparr>"

theorem node_refines_server_witness:
  "\<exists>n'. node_run BigEndian (\<lambda>id i pl d. (None, d)) list_codec
     [NdReceive (replicate 1040 7) (RecvFail 11) 11, NdProcess, NdPass [SDL_OTHER] 5 1] demo_node = Some (Ok n')"
proof -
  have "list_all op_wf (map server_part [NdReceive (replicate 1040 7) (RecvFail 11) 11, NdProcess, NdPass [SDL_OTHER] 5 1])"
    by (simp add: bufferSize_def wire_simps)
  moreover have "server_ok (nd_server demo_node)" by (simp add: demo_node_def boot_server_def boot_ok)
  ultimately show ?thesis using node_refines_server [OF list_codec_progress, where n = demo_node] by blast
qed

end
