(* ===== verification/Decoded_Playback.thy ===== *)
theory Decoded_Playback
  imports End_To_End Player_Screen
begin

text \<open>
  The end of the way: what reaches the video decoder of the server. The whole player (with
  decoder, window and clock) does the operations the server's threads give it.
\<close>

lemma player_ops_in_loop:
  assumes "map player_part xs = player_ops e Decode ops q dec"
  shows "list_all in_loop xs"
proof -
  have "in_loop x" if "x \<in> set xs" for x
  proof -
    from that have "player_part x \<in> set (player_ops e Decode ops q dec)" by (simp flip: assms)
    with player_ops_no_control [where e = e and Decode = Decode and ops = ops and q = q and dec = dec]
    show ?thesis by (cases x) auto
  qed
  then show ?thesis by (simp add: list_all_iff)
qed

context transport
begin

lemma decodes_units:
  assumes "numberable ns" and "length ns < 2 ^ 32" and "list_all (delivers wire) ops"
    and "sc_player s1 = Start_player w (player_init st)"
    and "map player_part xs = player_ops e Decode ops [] dec"
    and "screen_run api interval timeout xs s1 = Some s'" and "pl_running (sc_player s')"
  shows "decode_all api (shown (sc_player s')) (sc_display s1) = Some (sc_display s') \<and>
    sorted_wrt (<) (map fst (shown (sc_player s'))) \<and>
    (\<forall>(i, d) \<in> set (shown (sc_player s')). unat i < length ns \<and> d = ns ! unat i)"
proof -
  have p1: "sc_player s1 = player_run [StartOp w] (player_init st)" by (simp add: assms(4))
  have p': "sc_player s' = player_run (StartOp w # player_ops e Decode ops [] dec) (player_init st)"
    using screen_run_player [OF assms(6)] assms(4,5) by simp
  have ok: "player_ok (sc_player s1)" unfolding p1 by (rule player_ok_run [OF player_ok_init])
  from run_decodes [OF player_ops_in_loop [OF assms(5)] ok assms(6,7)] obtain us where
    us: "shown (sc_player s') = shown (sc_player s1) @ us"
    and decoded: "decode_all api us (sc_display s1) = Some (sc_display s')" by blast
  have "shown (sc_player s1) = []"
    unfolding p1 by (simp add: shown_control) (simp add: shown_def player_init_def)
  with us have sh: "us = shown (sc_player s')" by simp
  have "list_all (arrives_from (units_blocks 0 ns)) (StartOp w # player_ops e Decode ops [] dec)"
    using only_blocks [OF assms(3)] by simp
  from shown_units [OF assms(1) this] have mem:
    "\<forall>(i, d) \<in> set (shown (sc_player s')). unat i < length ns \<and> d = ns ! unat i"
    using p' by (auto simp del: player_run.simps)
  have "last_index \<notin> fst ` set (shown (sc_player s'))"
  proof
    assume "last_index \<in> fst ` set (shown (sc_player s'))"
    with mem have "unat last_index < length ns" by auto
    with assms(2) show False by (simp add: last_index_def unsigned_minus_1_eq_mask mask_eq_exp_minus_1)
  qed
  moreover have "in_order (sc_player s')" unfolding p' by (rule order_inv.inv_reachable [OF reachable_run])
  ultimately have "sorted_wrt (<) (map fst (shown (sc_player s')))" by (simp add: in_order_def)
  from conjI [OF decoded [unfolded sh] conjI [OF this mem]] show ?thesis .
qed

end

text \<open>
  From the client's file to the server's decoder. The client's datagrams are lost, repeated
  and reordered in any way, the threads interleave in any way, the decoder and the window do
  what they like and everything takes any time: while the player's loop runs, what its decoder
  has been through is the decoding of units of the file, each with its own bytes, under
  strictly ascending numbers.
\<close>

theorem decoder_gets_file_units:
  assumes "numberable ns" and "length ns < 2 ^ 32"
    and "list_all (delivers (datagrams e' (units_blocks 0 ns))) ops"
    and "screen_open sdl_init err ie c st = Done s0"
    and "map player_part xs = player_ops e Decode ops [] dec"
    and "screen_run api interval timeout xs (screen_start w r err' delay s0) = Some s'"
    and "pl_running (sc_player s')"
  shows "\<exists>us. decode_all api us (sc_display (screen_start w r err' delay s0)) = Some (sc_display s') \<and>
    sorted_wrt (<) (map fst us) \<and> (\<forall>(i, d) \<in> set us. unat i < length ns \<and> d = ns ! unat i)"
proof -
  let ?s1 = "screen_start w r err' delay s0"
  have p0: "sc_player s0 = player_init st"
    using assms(4) by (auto simp: screen_open_def Let_def split: outcome.splits)
  have "sc_player ?s1 = player_apply (player_part (ScStart w r err' delay)) (sc_player s0)"
    by (rule screen_apply_player [where api = api and i = interval and t = timeout]) simp
  then have "sc_player ?s1 = Start_player (w \<and> r) (player_init st)"
    by (simp only: p0 player_part.simps player_apply.simps)
  from raw_wire.decodes_units [OF assms(1-3) this assms(5-7)] show ?thesis by (rule exI)
qed

theorem decoder_gets_file_units_witness:
  "\<exists>s' us. screen_run list_codec 33 100 [ScCount, ScBlock 0 0 1 [0, 0, 1, 5], ScPass [] 5 1]
       (screen_start True True [] 7 demo_screen) = Some s' \<and>
     decode_all list_codec us (sc_display (screen_start True True [] 7 demo_screen)) = Some (sc_display s') \<and>
     (\<forall>(i, d) \<in> set us. unat i < 1)"
proof -
  let ?ops = "demo_ops_server @ [PlayerTick []]"
  let ?xs = "[ScCount, ScBlock 0 0 1 [0, 0, 1, 5], ScPass [] 5 1]"
  have b: "block_ok ([0, 0, 1, 5], 0, 0, 1)" by (simp add: wire_simps)
  have eq: "map player_part ?xs = player_ops BigEndian no_decoder ?ops [] ()"
    using accepts_datagram [OF b, of BigEndian LittleEndian] packet_ops_raw [OF b, of no_decoder "()"]
    by (simp add: demo_ops_server_def del: accepts.simps(2) raw_view.simps raw_encode.simps packet_ops.simps)
  have del: "list_all (delivers (datagrams LittleEndian (units_blocks 0 [[0, 0, 1, 5]]))) ?ops"
    using demo_ops_facts(2) by simp
  obtain s' where s': "screen_run list_codec 33 100 ?xs (screen_start True True [] 7 demo_screen) = Some s'"
    using demo_screen_returns by blast
  have p0: "sc_player (screen_start True True [] 7 demo_screen) = player_run [StartOp True] demo_init"
    using screen_apply_player [of list_codec 33 100 "ScStart True True [] 7" demo_screen]
    by (simp add: demo_screen_def)
  have "pl_running (sc_player s')" unfolding screen_run_player [OF s'] p0 by code_simp
  from decoder_gets_file_units [OF demo_units(1) _ del demo_screen_open eq s' this] s'
  show ?thesis by auto
qed

end
