(* ===== verification/End_To_End_RS.thy ===== *)
theory End_To_End_RS
  imports End_To_End
begin

text \<open>
  Client and server together in encoded mode. The encoder and the decoder are third-party
  code: \<open>field d i\<close> is the \<open>i\<close>-th field the encoder makes of the block \<open>d\<close>, and
  \<open>decoder_sound\<close> is what the decoder promises: given under each identifier only fields of
  one block, it gives back that block or nothing. The rest is the server's own: which
  identifier it computes for a block, and what length it gives the result.
\<close>

section \<open>Identifiers\<close>

lemma small_bits:
  assumes "unat (w :: u32) < 2 ^ 16" and "16 \<le> n"
  shows "\<not> bit w n"
proof -
  have "take_bit 16 w = w"
    using assms(1) by (simp add: word_unat_eq_iff unsigned_take_bit_eq take_bit_nat_eq_self)
  then have "bit w n = bit (take_bit 16 w) n" by simp
  with assms(2) show ?thesis by (simp add: bit_take_bit_iff)
qed

lemma block_id_inj:
  assumes "block_id ni bi = block_id ni' bi'"
    and "unat bi < 2 ^ 16" "unat bi' < 2 ^ 16" "unat ni < 2 ^ 16" "unat ni' < 2 ^ 16"
  shows "ni = ni' \<and> bi = bi'"
proof
  have bits: "bit (block_id ni bi) n = bit (block_id ni' bi') n" for n using assms(1) by simp
  show "bi = bi'"
  proof (rule bit_word_eqI)
    fix n
    assume n: "n < LENGTH(32)"
    show "bit bi n = bit bi' n"
    proof (cases "n < 16")
      case True
      with bits [of n] show ?thesis by (simp add: block_id_def bit_simps)
    next
      case False
      with assms(2,3) small_bits show ?thesis by auto
    qed
  qed
  show "ni = ni'"
  proof (rule bit_word_eqI)
    fix n
    assume "n < LENGTH(32)"
    show "bit ni n = bit ni' n"
    proof (cases "n < 16")
      case True
      with bits [of "n + 16"] small_bits [OF assms(2), of "n + 16"] small_bits [OF assms(3), of "n + 16"]
      show ?thesis by (simp add: block_id_def bit_simps)
    next
      case False
      with assms(4,5) small_bits show ?thesis by auto
    qed
  qed
qed

text \<open>
  C20: The server's identifier of a block keeps 16 bits of the unit's index and lays the
  block's index over them: below \<open>2^16\<close> of each the identifiers are different, but two units
  whose indices differ by a multiple of \<open>2^16\<close> share theirs, block by block.
\<close>

theorem block_id_collisions:
  shows "(unat bi < 2 ^ 16 \<and> unat bi' < 2 ^ 16 \<and> unat ni < 2 ^ 16 \<and> unat ni' < 2 ^ 16 \<longrightarrow>
      (block_id ni bi = block_id ni' bi' \<longleftrightarrow> ni = ni' \<and> bi = bi')) \<and>
    (unat ni mod 2 ^ 16 = unat ni' mod 2 ^ 16 \<longrightarrow> block_id ni bi = block_id ni' bi)"
proof (intro conjI impI)
  show "block_id ni bi = block_id ni' bi' \<longleftrightarrow> ni = ni' \<and> bi = bi'"
    if "unat bi < 2 ^ 16 \<and> unat bi' < 2 ^ 16 \<and> unat ni < 2 ^ 16 \<and> unat ni' < 2 ^ 16"
    using that block_id_inj [of ni bi ni' bi'] by auto
  show "block_id ni bi = block_id ni' bi" if "unat ni mod 2 ^ 16 = unat ni' mod 2 ^ 16"
  proof -
    have "take_bit 16 ni = take_bit 16 ni'"
      by (rule word_unat_eq_iff [THEN iffD2]) (simp only: that unsigned_take_bit_eq take_bit_nat_def)
    then have "push_bit 16 ni = push_bit 16 ni'"
    proof -
      assume eq: "take_bit 16 ni = take_bit 16 ni'"
      show ?thesis
      proof (rule bit_word_eqI)
        fix n
        assume "n < LENGTH(32)"
        then have "16 \<le> n \<Longrightarrow> n - 16 < 16" by simp
        then show "bit (push_bit 16 ni) n = bit (push_bit 16 ni') n"
          using arg_cong [OF eq, of "\<lambda>w. bit w (n - 16)"]
          by (cases "16 \<le> n") (simp_all add: bit_simps)
      qed
    qed
    then show ?thesis by (simp add: block_id_def)
  qed
qed

theorem block_id_collisions_witness:
  "block_id 0 5 = block_id 65536 5 \<and> block_id 1 5 \<noteq> block_id 2 5"
proof -
  have "unat (0 :: u32) mod 2 ^ 16 = unat (65536 :: u32) mod 2 ^ 16" by simp
  moreover have "unat (5 :: u32) < 2 ^ 16 \<and> unat (5 :: u32) < 2 ^ 16 \<and> unat (1 :: u32) < 2 ^ 16 \<and>
      unat (2 :: u32) < 2 ^ 16" by simp
  ultimately show ?thesis
    using block_id_collisions [of 5 5 0 65536] block_id_collisions [of 5 5 1 2] by simp
qed

section \<open>The decoder\<close>

definition decoder_sound :: "(bytes \<Rightarrow> u8 \<Rightarrow> bytes) \<Rightarrow> 'd decode \<Rightarrow>
    ((u32 \<Rightarrow> bytes option) \<Rightarrow> 'd \<Rightarrow> bool) \<Rightarrow> bool" where
  "decoder_sound field Decode I \<longleftrightarrow>
     (\<forall>c key i d dec res dec'. I c dec \<and> c key = Some d \<and>
        Decode key i (field d i) dec = (res, dec') \<longrightarrow>
        I c dec' \<and> (\<forall>b. res = Some b \<longrightarrow> length d \<le> length b \<and> take (length d) b = d))"

lemma decoder_soundD:
  assumes "decoder_sound field Decode I" and "I c dec" and "c key = Some d"
    and "Decode key i (field d i) dec = (res, dec')"
  shows "I c dec'" and "res = Some b \<Longrightarrow> resize (length d) b = d"
  using assms unfolding decoder_sound_def resize_def by (blast, fastforce)

text \<open>The block that the units have under an identifier, when it is unique.\<close>

definition few :: "bytes list \<Rightarrow> bool" where
  "few ns \<longleftrightarrow> length ns < 2 ^ 16 \<and> (\<forall>n \<in> set ns. length (chunks blockSize n) < 2 ^ 16)"

definition block_at :: "block list \<Rightarrow> u32 \<Rightarrow> bytes option" where
  "block_at bs key = map_of (map (\<lambda>(d, bi, ni, t). (block_id ni bi, d)) bs) key"

definition ids_unique :: "block list \<Rightarrow> bool" where
  "ids_unique bs \<longleftrightarrow> (\<forall>(d, bi, ni, t) \<in> set bs. \<forall>(d', bi', ni', t') \<in> set bs.
     block_id ni bi = block_id ni' bi' \<longrightarrow> d = d')"

lemma block_at_member:
  assumes "ids_unique bs" and "(d, bi, ni, t) \<in> set bs"
  shows "block_at bs (block_id ni bi) = Some d"
proof -
  have "(block_id ni bi, d) \<in> set (map (\<lambda>(d, bi, ni, t). (block_id ni bi, d)) bs)"
    using imageI [OF assms(2), of "\<lambda>(d, bi, ni, t). (block_id ni bi, d)"] by simp
  from weak_map_of_SomeI [OF this] have "block_at bs (block_id ni bi) \<noteq> None"
    by (auto simp: block_at_def)
  then obtain d' where d': "block_at bs (block_id ni bi) = Some d'" by blast
  then have "(block_id ni bi, d') \<in> set (map (\<lambda>(d, bi, ni, t). (block_id ni bi, d)) bs)"
    unfolding block_at_def by (rule map_of_SomeD)
  then obtain bi' ni' t' where "(d', bi', ni', t') \<in> set bs" and "block_id ni bi = block_id ni' bi'"
    by auto
  with assms have "d = d'" unfolding ids_unique_def by fast
  with d' show ?thesis by simp
qed

lemma few_block:
  assumes "few ns" and "(d, bi, ni, t) \<in> set (units_blocks 0 ns)"
  shows "unat bi < 2 ^ 16" and "unat ni < 2 ^ 16"
    and "d = chunks blockSize (ns ! unat ni) ! unat bi"
    and "t = of_nat (length (chunks blockSize (ns ! unat ni)))"
proof -
  have num: "numberable ns" using assms(1) by (auto simp: few_def numberable_def)
  note m = mem_unit [OF num assms(2)]
  from nth_mem [OF m(1)] assms(1) have "length (chunks blockSize (ns ! unat ni)) < 2 ^ 16"
    by (auto simp: few_def)
  with less_trans [OF m(2) this] less_trans [OF m(1), of "2 ^ 16"] m(3,4) assms(1)
  show "unat bi < 2 ^ 16" and "unat ni < 2 ^ 16"
    and "d = chunks blockSize (ns ! unat ni) ! unat bi"
    and "t = of_nat (length (chunks blockSize (ns ! unat ni)))"
    by (simp_all add: few_def)
qed

lemma few_ids_unique:
  assumes "few ns"
  shows "ids_unique (units_blocks 0 ns)"
  unfolding ids_unique_def
proof (clarify)
  fix d bi ni t d' bi' ni' t'
  assume a: "(d, bi, ni, t) \<in> set (units_blocks 0 ns)" and b: "(d', bi', ni', t') \<in> set (units_blocks 0 ns)"
    and eq: "block_id ni bi = block_id ni' bi'"
  from block_id_inj [OF eq] few_block [OF assms a] few_block [OF assms b] show "d = d'" by simp
qed

section \<open>Encoded datagrams at the server\<close>

definition rs_datagrams :: "endian \<Rightarrow> (bytes \<Rightarrow> u8 \<Rightarrow> bytes) \<Rightarrow> block list \<Rightarrow> bytes list" where
  "rs_datagrams e field bs =
     concat (map (\<lambda>b. map (\<lambda>i. rs_encode e (rs_of b (i, field (block_bytes b) (of_nat i)))) [0..<256]) bs)"

definition rs_packet_of :: "(bytes \<Rightarrow> u8 \<Rightarrow> bytes) \<Rightarrow> block list \<Rightarrow> received \<Rightarrow> bool" where
  "rs_packet_of field bs pkt \<longleftrightarrow> (\<exists>b \<in> set bs. \<exists>i. block_ok b \<and>
     pkt = rs_view (rs_of b (i, field (block_bytes b) (of_nat i))))"

lemma accepts_rs_datagram:
  assumes "length f = fieldSize"
  shows "accepts e (RecvDatagram (rs_encode e' (rs_of b (i, f)))) = Some (rs_view (rs_of b (i, f)))"
proof -
  have v: "rs_valid (rs_of b (i, f))" using assms by (cases b) simp
  have "length (rs_encode e' (rs_of b (i, f))) \<le> bufferSize"
    using rs.length_enc [OF v, of e'] by (simp add: bufferSize_def wire_simps)
  then show ?thesis using rs.dec_enc [OF v, of e e'] by simp
qed

lemma received_rs_packet:
  assumes "\<And>d i. length (field d i) = fieldSize" and "\<forall>b \<in> set bs. block_ok b"
    and "delivers (rs_datagrams e' field bs) (RecvOp junk r errno)" and "accepts e r = Some pkt"
  shows "rs_packet_of field bs pkt"
proof -
  from assms(4) obtain d where r: "r = RecvDatagram d" by (cases r) simp_all
  with assms(3) obtain b i where b: "b \<in> set bs"
    "d = rs_encode e' (rs_of b (i, field (block_bytes b) (of_nat i)))"
    by (auto simp: rs_datagrams_def)
  with assms(2,4) r accepts_rs_datagram [OF assms(1), of e e' b i "block_bytes b" "of_nat i"]
  show ?thesis by (auto simp: rs_packet_of_def)
qed

lemma packet_ops_rs:
  assumes "decoder_sound field Decode I" and "I (block_at bs) dec" and "ids_unique bs"
    and "rs_packet_of field bs pkt" and "packet_ops Decode pkt dec = (ops, dec')"
  shows "list_all (arrives_from bs) ops \<and> I (block_at bs) dec'"
proof -
  from assms(4) obtain b i where b: "b \<in> set bs" "block_ok b"
    and pkt: "pkt = rs_view (rs_of b (i, field (block_bytes b) (of_nat i)))"
    by (auto simp: rs_packet_of_def)
  obtain d bi ni t where blk: "b = (d, bi, ni, t)" by (cases b)
  obtain res dec1 where dc: "Decode (block_id ni bi) (of_nat i) (field d (of_nat i)) dec = (res, dec1)"
    by fastforce
  have at: "block_at bs (block_id ni bi) = Some d"
    using b(1) by (intro block_at_member [OF assms(3)]) (simp add: blk)
  note sound = decoder_soundD [OF assms(1,2) at dc]
  have len: "unat (of_nat (length d) :: u16) = length d" using b(2) by (simp add: blk wire_simps)
  from assms(5) have "dec' = dec1 \<and> ops = (case res of None \<Rightarrow> []
      | Some r \<Rightarrow> [Arrive bi ni t (resize (length d) r)])"
    by (cases res) (simp_all add: pkt blk dc len)
  with sound b(1) show ?thesis by (cases res) (auto simp: blk)
qed

lemma player_ops_from_rs:
  assumes "decoder_sound field Decode I" and "ids_unique bs"
    and "\<And>d i. length (field d i) = fieldSize" and "\<forall>b \<in> set bs. block_ok b"
    and "list_all (delivers (rs_datagrams e' field bs)) ops"
    and "list_all (rs_packet_of field bs) q" and "I (block_at bs) dec"
  shows "list_all (arrives_from bs) (player_ops e Decode ops q dec)"
  using assms(5-7)
proof (induction ops q dec rule: player_ops_induct [where e = e and Decode = Decode])
  case (Accept junk r errno xs q dec pkt)
  have "rs_packet_of field bs pkt"
    using received_rs_packet [where field = field, OF assms(3,4) _ Accept(1), of e' junk errno] Accept(3) by simp
  with Accept show ?case by simp
next
  case (Process xs pkt q dec ps dec1)
  then have "rs_packet_of field bs pkt" by simp
  from packet_ops_rs [OF assms(1) Process(5) assms(2) this Process(1)] Process show ?case by simp
qed simp_all

text \<open>Without a word about completeness nothing suffices, but only blocks of the units arrive.\<close>

lemma rs_wire_sound:
  assumes "decoder_sound field Decode I" and "I (block_at (units_blocks 0 ns)) dec" and "few ns"
    and "\<And>d i. length (field d i) = fieldSize"
  shows "transport e Decode dec ns (rs_datagrams e' field (units_blocks 0 ns)) (\<lambda>ops. False)"
proof unfold_locales
  fix ops
  assume "list_all (delivers (rs_datagrams e' field (units_blocks 0 ns))) ops"
  from player_ops_from_rs [OF assms(1) few_ids_unique [OF assms(3)] assms(4) _ this _ assms(2), of "[]"]
    units_blocks_ok
  show "list_all (arrives_from (units_blocks 0 ns)) (player_ops e Decode ops [] dec)" by simp
qed simp

text \<open>
  End to end, encoded mode. With at most \<open>2^16\<close> units of at most \<open>2^16\<close> blocks, whatever
  fields the network loses, repeats or reorders, and however the server's threads interleave:
  everything the server shows is a unit of the client, under its number, with its bytes.
\<close>

theorem encoded_shown_are_sent_units:
  assumes "decoder_sound field Decode I" and "I (block_at (units_blocks 0 ns)) dec" and "few ns"
    and "\<And>d i. length (field d i) = fieldSize" and "list_all op_wf ops"
    and "list_all (delivers (rs_datagrams e' field (units_blocks 0 ns))) ops"
    and "server_run e Decode ops (server_boot dec (Start_player w (player_init st)) logs) = Ok sv'"
  shows "\<forall>(i, d) \<in> set (shown (sv_player sv')). unat i < length ns \<and> d = ns ! unat i"
proof -
  have num: "numberable ns" using assms(3) by (auto simp: few_def numberable_def)
  show ?thesis
    using transport.shown_are_units [OF rs_wire_sound [where field = field, OF assms(1-4)] num assms(5-7)] .
qed

section \<open>A concrete code\<close>

text \<open>
  The hypotheses can hold: a code whose field \<open>i\<close> is the \<open>i mod 8\<close>-th eighth of the padded
  block, and a decoder that keeps what it was given and looks for the eight.
\<close>

definition eighth :: "bytes \<Rightarrow> nat \<Rightarrow> bytes" where
  "eighth d j = take 128 (drop (128 * j) d @ replicate 128 0)"

definition slice_field :: "bytes \<Rightarrow> u8 \<Rightarrow> bytes" where
  "slice_field d i = eighth d (unat (i mod 8))"

definition pick :: "(u8 \<times> bytes) list \<Rightarrow> nat \<Rightarrow> bytes option" where
  "pick m j = map_option snd (find (\<lambda>(i, f). unat (i mod 8) = j) m)"

definition gather :: "(u32 \<Rightarrow> (u8 \<times> bytes) list) decode" where
  "gather key i pl dec =
     (let m = (i, pl) # dec key
      in (if \<forall>j \<in> set [0..<8]. pick m j \<noteq> None then Some (concat (map (\<lambda>j. the (pick m j)) [0..<8])) else None,
          dec(key := m)))"

definition gathered :: "(u32 \<Rightarrow> bytes option) \<Rightarrow> (u32 \<Rightarrow> (u8 \<times> bytes) list) \<Rightarrow> bool" where
  "gathered c dec \<longleftrightarrow> (\<forall>key d. c key = Some d \<longrightarrow>
     length d \<le> blockSize \<and> (\<forall>(i, f) \<in> set (dec key). f = slice_field d i))"

lemma pick_slice:
  assumes "\<forall>(i, f) \<in> set m. f = slice_field d i" and "pick m j = Some f"
  shows "f = eighth d j"
  using assms by (auto simp: pick_def find_Some_iff slice_field_def in_set_conv_nth)

lemma concat_eighths:
  "concat (map (eighth d) [0..<n]) = take (128 * n) d @ replicate (128 * n - length d) 0"
proof (induction n)
  case 0
  then show ?case by simp
next
  case (Suc n)
  have "take (128 * n) d @ replicate (128 * n - length d) 0 @ eighth d n =
      take (128 * Suc n) d @ replicate (128 * Suc n - length d) 0"
  proof (cases "length d \<le> 128 * n")
    case True
    then have "128 * Suc n - length d = (128 * n - length d) + 128" by simp
    with True show ?thesis unfolding \<open>128 * Suc n - length d = _\<close> replicate_add
      by (simp add: eighth_def del: replicate.simps)
  next
    case False
    then have "take (128 * Suc n) d = take (128 * n) d @ take 128 (drop (128 * n) d)"
      by (simp add: take_add [symmetric] add.commute)
    with False show ?thesis
      by (simp add: eighth_def min_def del: replicate.simps)
  qed
  with Suc show ?case by simp
qed

lemma length_slice_field: "length (slice_field d i) = fieldSize"
  by (simp add: slice_field_def eighth_def wire_simps)

lemma gather_sound: "decoder_sound slice_field gather gathered"
  unfolding decoder_sound_def
proof (intro allI impI)
  fix c :: "u32 \<Rightarrow> bytes option" and key i d dec res dec'
  assume a: "gathered c dec \<and> c key = Some d \<and> gather key i (slice_field d i) dec = (res, dec')"
  define m where "m = (i, slice_field d i) # dec key"
  have "\<forall>(i, f) \<in> set (dec key). f = slice_field d i" using a unfolding gathered_def by blast
  then have m: "\<forall>(i, f) \<in> set m. f = slice_field d i" by (simp add: m_def)
  from a have g: "gather key i (slice_field d i) dec = (res, dec')" by simp
  have dec': "dec' = dec(key := m)"
    and res: "res = (if \<forall>j \<in> set [0..<8]. pick m j \<noteq> None then Some (concat (map (\<lambda>j. the (pick m j)) [0..<8])) else None)"
    using g unfolding gather_def Let_def m_def [symmetric] by (simp_all del: set_upt)
  have len: "length d \<le> blockSize" using a by (auto simp: gathered_def)
  have "gathered c dec'" using a m by (auto simp: dec' gathered_def)
  moreover have "length d \<le> length b \<and> take (length d) b = d" if b: "res = Some b" for b
  proof -
    from b res have all: "\<forall>j \<in> set [0..<8]. pick m j \<noteq> None" and "b = concat (map (\<lambda>j. the (pick m j)) [0..<8])"
      by (auto split: if_splits)
    moreover have "map (\<lambda>j. the (pick m j)) [0..<8] = map (eighth d) [0..<8]"
      using all pick_slice [OF m] by (intro map_cong) auto
    ultimately have "b = take (128 * 8) d @ replicate (128 * 8 - length d) 0"
      by (simp only: concat_eighths)
    with len show ?thesis by (simp add: wire_simps)
  qed
  ultimately show "gathered c dec' \<and> (\<forall>b. res = Some b \<longrightarrow> length d \<le> length b \<and> take (length d) b = d)"
    by blast
qed

lemma gathered_init:
  assumes "\<forall>d \<in> ran c. length d \<le> blockSize"
  shows "gathered c (\<lambda>_. [])"
  using assms by (auto simp: gathered_def intro: ranI)

definition demo_rs_ops :: "server_op list" where
  "demo_rs_ops = [RecvOp demo_junk (RecvDatagram (rs_encode LittleEndian
     (rs_of ([0, 0, 1, 5], 0, 0, 1) (0, slice_field [0, 0, 1, 5] 0)))) 0, ProcessOp, PlayerTick []]"

theorem encoded_shown_are_sent_units_witness:
  "\<exists>sv'. server_run BigEndian gather demo_rs_ops (server_boot (\<lambda>_. [])
       (Start_player True (player_init (statistics_init Map.empty))) []) = Ok sv' \<and>
     (\<forall>(i, d) \<in> set (shown (sv_player sv')). unat i < 1 \<and> d = [[0, 0, 1, 5]] ! unat i)"
proof -
  let ?bs = "units_blocks 0 [[0, 0, 1, 5]]"
  have few: "few [[0, 0, 1, 5]]" by (simp add: few_def chunks_step wire_simps)
  have dec: "gathered (block_at ?bs) (\<lambda>_. [])"
    unfolding demo_units(2)
    by (rule gathered_init) (auto simp: block_at_def ran_def wire_simps split: if_splits)
  have len: "length (rs_encode LittleEndian (rs_of ([0, 0, 1, 5], 0, 0, 1) (0, slice_field [0, 0, 1, 5] 0)))
      \<le> bufferSize"
    using rs.length_enc [of "rs_of ([0, 0, 1, 5], 0, 0, 1) (0, slice_field [0, 0, 1, 5] 0)" LittleEndian]
    by (simp add: bufferSize_def wire_simps length_slice_field)
  have wf: "list_all op_wf demo_rs_ops"
    by (simp add: demo_rs_ops_def demo_junk_length len del: rs_of.simps)
  have del: "list_all (delivers (rs_datagrams LittleEndian slice_field ?bs)) demo_rs_ops"
    unfolding demo_units(2)
    by (auto simp: demo_rs_ops_def rs_datagrams_def del: rs_of.simps intro!: image_eqI [of _ _ 0])
  obtain sv' where run: "server_run BigEndian gather demo_rs_ops (server_boot (\<lambda>_. [])
      (Start_player True (player_init (statistics_init Map.empty))) []) = Ok sv'"
    by (rule server_runE [OF boot_ok wf])
  from encoded_shown_are_sent_units [OF gather_sound dec few length_slice_field wf del run] run
  show ?thesis by simp
qed

end
