(* ===== verification/Encoded_Playback.thy ===== *)
theory Encoded_Playback
  imports End_To_End_RS
begin

text \<open>
  What the Reed-Solomon mode is for: when the network loses datagrams, but of every block
  enough fields arrive, the whole file is played. The decoder is third-party code;
  \<open>decoder_complete\<close> is the other half of what it promises, \<open>fed\<close> the fields it was given
  under each identifier and \<open>enough\<close> which sets of fields suffice.
\<close>

section \<open>Completeness of the decoder\<close>

definition decoder_complete :: "'d decode \<Rightarrow> ('d \<Rightarrow> u32 \<Rightarrow> u8 set) \<Rightarrow> (u8 set \<Rightarrow> bool) \<Rightarrow> bool" where
  "decoder_complete Decode fed enough \<longleftrightarrow>
     (\<forall>key i pl dec res dec'. Decode key i pl dec = (res, dec') \<longrightarrow>
        fed dec' = (fed dec)(key := insert i (fed dec key)) \<and>
        (\<not> enough (fed dec key) \<and> enough (fed dec' key) \<longrightarrow> res \<noteq> None)) \<and>
     (\<forall>S T. enough S \<and> S \<subseteq> T \<longrightarrow> enough T)"

lemma decoder_completeD:
  assumes "decoder_complete Decode fed enough"
  shows "Decode key i pl dec = (res, dec') \<Longrightarrow> fed dec' = (fed dec)(key := insert i (fed dec key))"
    and "Decode key i pl dec = (res, dec') \<Longrightarrow> \<not> enough (fed dec key) \<Longrightarrow> enough (fed dec' key) \<Longrightarrow>
      \<exists>r. res = Some r"
    and "enough S \<Longrightarrow> S \<subseteq> T \<Longrightarrow> enough T"
  using assms unfolding decoder_complete_def by blast+

text \<open>The packet of the \<open>i\<close>-th field of a block, and the fields among some packets.\<close>

definition field_packet :: "(bytes \<Rightarrow> u8 \<Rightarrow> bytes) \<Rightarrow> block \<Rightarrow> u8 \<Rightarrow> received" where
  "field_packet field b i = rs_view (rs_of b (unat i, field (block_bytes b) i))"

definition fields_in :: "(bytes \<Rightarrow> u8 \<Rightarrow> bytes) \<Rightarrow> block \<Rightarrow> received list \<Rightarrow> u8 set" where
  "fields_in field b pkts = {i. field_packet field b i \<in> set pkts}"

lemma field_packet_inj:
  "field_packet field b i = field_packet field b' i' \<Longrightarrow>
     i = i' \<and> (case b of (d, bi, ni, t) \<Rightarrow> case b' of (d', bi', ni', t') \<Rightarrow> bi = bi' \<and> ni = ni')"
  by (cases b; cases b') (auto simp: field_packet_def simp del: rs_view.simps dest!: rs_view_inj)

lemma rs_packet_of_iff:
  "rs_packet_of field bs pkt \<longleftrightarrow> (\<exists>b \<in> set bs. \<exists>i. block_ok b \<and> pkt = field_packet field b i)"
proof -
  have 1: "rs_view (rs_of b (n, field (block_bytes b) (of_nat n))) = field_packet field b (of_nat n)" for b n
    by (cases b) (simp add: field_packet_def)
  have "field_packet field b i = rs_view (rs_of b (unat i, field (block_bytes b) (of_nat (unat i))))" for b i
    by (simp add: field_packet_def)
  with 1 show ?thesis unfolding rs_packet_of_def by metis
qed

lemma packet_ops_field:
  assumes "block_ok (d, bi, ni, t)"
  shows "packet_ops Decode (field_packet field (d, bi, ni, t) i) dec =
    (case Decode (block_id ni bi) i (field d i) dec of (res, dec1) \<Rightarrow>
       (case res of None \<Rightarrow> [] | Some r \<Rightarrow> [Arrive bi ni t (resize (length d) r)], dec1))"
  using assms by (simp add: field_packet_def Let_def wire_simps split: prod.split option.split)

text \<open>Different blocks have different identifiers.\<close>

fun block_key :: "block \<Rightarrow> u32" where
  "block_key (d, bi, ni, t) = block_id ni bi"

definition ids_distinct :: "block list \<Rightarrow> bool" where
  "ids_distinct bs \<longleftrightarrow> inj_on block_key (set bs)"

lemma ids_distinctD:
  assumes "ids_distinct bs" and "(d, bi, ni, t) \<in> set bs" and "(d', bi', ni', t') \<in> set bs"
    and "block_id ni bi = block_id ni' bi'"
  shows "d' = d \<and> bi' = bi \<and> ni' = ni \<and> t' = t"
  using inj_onD [OF assms(1) [unfolded ids_distinct_def] _ assms(2,3)] assms(4) by simp

section \<open>Every block arrives\<close>

text \<open>A processed field completes the block or leaves the decoder a field nearer to it.\<close>

lemma field_step:
  assumes "decoder_sound field Decode I" and "decoder_complete Decode fed enough"
    and "ids_unique bs" and "ids_distinct bs" and "(d, bi, ni, t) \<in> set bs"
    and "rs_packet_of field bs pkt" and "I (block_at bs) dec" and "packet_ops Decode pkt dec = (ps, dec1)"
    and "\<not> enough (fed dec (block_id ni bi))"
    and "enough (fed dec (block_id ni bi) \<union> fields_in field (d, bi, ni, t) (pkt # rest))"
  shows "Arrive bi ni t d \<in> set ps \<or> \<not> enough (fed dec1 (block_id ni bi)) \<and>
    enough (fed dec1 (block_id ni bi) \<union> fields_in field (d, bi, ni, t) rest)"
proof -
  let ?b = "(d, bi, ni, t)" and ?key = "block_id ni bi"
  from assms(6) obtain b' i where b': "b' \<in> set bs" "block_ok b'" "pkt = field_packet field b' i"
    by (auto simp: rs_packet_of_iff)
  obtain d' bi' ni' t' where blk: "b' = (d', bi', ni', t')" by (cases b')
  let ?new = "if block_id ni' bi' = ?key then {i} else {}"
  obtain res where dc: "Decode (block_id ni' bi') i (field d' i) dec = (res, dec1)"
    and ps: "ps = (case res of None \<Rightarrow> [] | Some r \<Rightarrow> [Arrive bi' ni' t' (resize (length d') r)])"
    using assms(8) packet_ops_field [OF b'(2) [unfolded blk], of Decode field i dec]
    by (auto simp: b'(3) blk split: prod.splits)
  have fields: "fed dec ?key \<union> fields_in field ?b rest \<union> ?new \<supseteq> fed dec ?key \<union> fields_in field ?b (pkt # rest)"
    using field_packet_inj [of field ?b _ b' i] by (auto simp: fields_in_def b'(3) blk)
  have fed: "fed dec1 ?key = fed dec ?key \<union> ?new" using decoder_completeD(1) [OF assms(2) dc] by auto
  from decoder_completeD(3) [OF assms(2,10) fields]
  have en: "enough (fed dec1 ?key \<union> fields_in field ?b rest)" by (simp only: fed Un_ac)
  show ?thesis
  proof (cases "enough (fed dec1 ?key)")
    case True
    then have same: "block_id ni' bi' = ?key" using fed assms(9) by (auto split: if_splits)
    from ids_distinctD [OF assms(4,5) b'(1) [unfolded blk] same [symmetric]]
    have eq: "d' = d" "bi' = bi" "ni' = ni" "t' = t" by simp_all
    from decoder_completeD(2) [OF assms(2) dc] assms(9) True same obtain r where r: "res = Some r" by auto
    have "resize (length d) r = d"
      using decoder_soundD(2) [OF assms(1,7) block_at_member [OF assms(3,5)] _ r] dc eq by auto
    with ps r eq show ?thesis by simp
  next
    case False
    with en show ?thesis by simp
  qed
qed

text \<open>
  A block of which the packets of the deque and of the run hold enough fields, together with
  what the decoder already has, is given to the player.
\<close>

lemma enough_fields_arrive:
  assumes "decoder_sound field Decode I" and "decoder_complete Decode fed enough"
    and "ids_unique bs" and "ids_distinct bs" and "(d, bi, ni, t) \<in> set bs"
    and "\<And>d i. length (field d i) = fieldSize" and "\<forall>b \<in> set bs. block_ok b"
    and "list_all (delivers (rs_datagrams e' field bs)) ops"
    and "list_all (rs_packet_of field bs) q" and "I (block_at bs) dec"
    and "\<not> enough (fed dec (block_id ni bi))"
    and "enough (fed dec (block_id ni bi) \<union> fields_in field (d, bi, ni, t) (processed e ops q))"
  shows "Arrive bi ni t d \<in> set (player_ops e Decode ops q dec)"
  using assms(8-12)
proof (induction ops q dec rule: player_ops_induct [where e = e and Decode = Decode])
  case (Accept junk r errno xs q dec pkt)
  have "rs_packet_of field bs pkt"
    using received_rs_packet [where field = field, OF assms(6,7) _ Accept(1), of e' junk errno] Accept(3) by simp
  with Accept show ?case by simp
next
  case (Process xs pkt q dec ps dec1)
  from Process(4) have pkt: "rs_packet_of field bs pkt" and q: "list_all (rs_packet_of field bs) q" by simp_all
  have inv: "I (block_at bs) dec1" using packet_ops_rs [OF assms(1) Process(5) assms(3) pkt Process(1)] by simp
  have "processed e (ProcessOp # xs) (pkt # q) = pkt # processed e xs q"
    by simp
  with Process(7) field_step [OF assms(1-5) pkt Process(5,1,6)]
  have "Arrive bi ni t d \<in> set ps \<or> \<not> enough (fed dec1 (block_id ni bi)) \<and>
      enough (fed dec1 (block_id ni bi) \<union> fields_in field (d, bi, ni, t) (processed e xs q))" by metis
  with Process(2) [OF _ q inv] Process(1,3) show ?case by auto
qed (simp_all add: fields_in_def)

section \<open>Playback\<close>

lemma few_ids_distinct:
  assumes "few ns"
  shows "ids_distinct (units_blocks 0 ns)"
  unfolding ids_distinct_def
proof (rule inj_onI)
  fix b b' :: block
  assume in_b: "b \<in> set (units_blocks 0 ns)" "b' \<in> set (units_blocks 0 ns)" and eq: "block_key b = block_key b'"
  obtain d bi ni t d' bi' ni' t' where blk: "b = (d, bi, ni, t)" "b' = (d', bi', ni', t')"
    by (cases b; cases b')
  from eq have id: "block_id ni bi = block_id ni' bi'" by (simp add: blk)
  from block_id_inj [OF id] few_block [OF assms in_b(1) [unfolded blk]] few_block [OF assms in_b(2) [unfolded blk]]
  show "b = b'" by (simp add: blk)
qed

text \<open>The fields of a block that the server has received.\<close>

definition fields_received :: "endian \<Rightarrow> (bytes \<Rightarrow> u8 \<Rightarrow> bytes) \<Rightarrow> block \<Rightarrow> server_op list \<Rightarrow> u8 set" where
  "fields_received e field b ops =
     {i. rs_encode e (rs_of b (unat i, field (block_bytes b) i)) \<in> set (received_datagrams ops)}"

lemma fields_received_accepted:
  assumes "\<And>d i. length (field d i) = fieldSize"
  shows "fields_received e' field b ops \<subseteq> fields_in field b (accepted e ops)"
proof
  fix i
  assume "i \<in> fields_received e' field b ops"
  then have "rs_encode e' (rs_of b (unat i, field (block_bytes b) i)) \<in> set (received_datagrams ops)"
    by (simp add: fields_received_def)
  from received_accepted [OF this accepts_rs_datagram [OF assms]]
  show "i \<in> fields_in field b (accepted e ops)" by (simp add: fields_in_def field_packet_def)
qed

text \<open>Encoded mode: enough fields of every block have to be received.\<close>

lemma rs_wire:
  assumes "decoder_sound field Decode I" and "decoder_complete Decode fed enough"
    and "I (block_at (units_blocks 0 ns)) dec" and "\<forall>key. \<not> enough (fed dec key)" and "few ns"
    and "\<And>d i. length (field d i) = fieldSize"
  shows "transport e Decode dec ns (rs_datagrams e' field (units_blocks 0 ns))
    (\<lambda>ops. \<forall>b \<in> set (units_blocks 0 ns). enough (fields_received e' field b ops))"
proof unfold_locales
  let ?bs = "units_blocks 0 ns"
  fix ops
  assume del: "list_all (delivers (rs_datagrams e' field ?bs)) ops"
  show "list_all (arrives_from ?bs) (player_ops e Decode ops [] dec)"
    by (rule transport.only_blocks [OF rs_wire_sound [where field = field, OF assms(1,3,5,6)] del])
  fix d bi ni t
  assume proc: "processed e ops [] = accepted e ops" and b: "(d, bi, ni, t) \<in> set ?bs"
    and en: "\<forall>b \<in> set ?bs. enough (fields_received e' field b ops)"
  have ok: "\<forall>b \<in> set ?bs. block_ok b" using units_blocks_ok by blast
  have "fields_received e' field (d, bi, ni, t) ops \<subseteq>
      fed dec (block_id ni bi) \<union> fields_in field (d, bi, ni, t) (processed e ops [])"
    unfolding proc using fields_received_accepted [where field = field, OF assms(6)] by blast
  with decoder_completeD(3) [OF assms(2)] en b
  have "enough (fed dec (block_id ni bi) \<union> fields_in field (d, bi, ni, t) (processed e ops []))" by metis
  with enough_fields_arrive [where field = field, OF assms(1,2) few_ids_unique [OF assms(5)]
      few_ids_distinct [OF assms(5)] b assms(6) ok del _ assms(3)] assms(4)
  show "Arrive bi ni t d \<in> set (player_ops e Decode ops [] dec)" by simp
qed

text \<open>
  End to end, encoded mode, with loss. If of every block enough fields have been received
  and processed before playback, in any order, with repetitions and whatever else of the
  client's fields, the server shows the whole file: all units, in order, under their numbers,
  with their bytes, and nothing else.
\<close>

theorem encoded_playback_survives_loss:
  assumes "decoder_sound field Decode I" and "decoder_complete Decode fed enough"
    and "I (block_at (units_blocks 0 ns)) dec" and "\<forall>key. \<not> enough (fed dec key)"
    and "few ns" and "[] \<notin> set ns" and "\<And>d i. length (field d i) = fieldSize"
    and "list_all op_wf ops" and "list_all (delivers (rs_datagrams e' field (units_blocks 0 ns))) ops"
    and "\<forall>b \<in> set (units_blocks 0 ns). enough (fields_received e' field b ops)"
    and "list_all (\<lambda>x. \<not> is_tick x) ops"
    and "server_run e Decode ops (server_boot dec (Start_player True (player_init st)) logs) = Ok sv'"
    and "sv_packetQueue sv' = []"
    and "\<forall>evs \<in> set evss. SDL_QUIT \<notin> set evs" and "2 * length ns \<le> length evss"
  shows "\<exists>sv''. server_run e Decode (map PlayerTick evss) sv' = Ok sv'' \<and>
    shown (sv_player sv'') = map (\<lambda>j. (of_nat j, ns ! j)) [0..<length ns]"
proof -
  have num: "numberable ns" using assms(5) by (auto simp: few_def numberable_def)
  from transport.whole_file [OF rs_wire [where field = field, OF assms(1-5,7)] num assms(6,8,9,11-13,10,14,15)]
  show ?thesis .
qed

section \<open>A concrete run with loss\<close>

definition stored :: "(u32 \<Rightarrow> (u8 \<times> bytes) list) \<Rightarrow> u32 \<Rightarrow> u8 set" where
  "stored dec key = fst ` set (dec key)"

definition eight_of :: "u8 set \<Rightarrow> bool" where
  "eight_of S \<longleftrightarrow> (\<forall>j \<in> set [0..<8]. \<exists>i \<in> S. unat (i mod 8) = j)"

lemma pick_none: "pick m j \<noteq> None \<longleftrightarrow> (\<exists>i \<in> fst ` set m. unat (i mod 8) = j)"
  by (force simp: pick_def find_None_iff)

lemma gather_complete: "decoder_complete gather stored eight_of"
  unfolding decoder_complete_def
proof (intro conjI allI impI)
  fix key :: u32 and i :: u8 and pl dec res dec'
  assume g: "gather key i pl dec = (res, dec')"
  then have dec': "dec' = dec(key := (i, pl) # dec key)" by (auto simp: gather_def Let_def)
  then show "stored dec' = (stored dec)(key := insert i (stored dec key))"
    by (auto simp: stored_def fun_eq_iff)
  assume "\<not> eight_of (stored dec key) \<and> eight_of (stored dec' key)"
  then have "eight_of (fst ` set ((i, pl) # dec key))" by (simp add: dec' stored_def)
  then have "\<forall>j \<in> set [0..<8]. pick ((i, pl) # dec key) j \<noteq> None"
    by (simp only: pick_none eight_of_def)
  with g show "res \<noteq> None" by (auto simp: gather_def Let_def simp del: set_upt)
next
  fix S T
  assume "eight_of S \<and> S \<subseteq> T"
  then show "eight_of T" unfolding eight_of_def by blast
qed

text \<open>Two of the first eight fields are lost; the fields 8 and 15 take their place.\<close>

definition demo_field_datagram :: "nat \<Rightarrow> bytes" where
  "demo_field_datagram i = rs_encode LittleEndian (rs_of ([0, 0, 1, 5], 0, 0, 1) (i, slice_field [0, 0, 1, 5] (of_nat i)))"

definition demo_loss_ops :: "server_op list" where
  "demo_loss_ops = map (\<lambda>i. RecvOp demo_junk (RecvDatagram (demo_field_datagram i)) 0) [8, 1, 2, 3, 4, 5, 6, 15] @
     replicate 8 ProcessOp"

lemma processed_all:
  assumes "\<forall>d \<in> set ds. accepts e (RecvDatagram d) \<noteq> None"
  shows "processed e (map (\<lambda>d. RecvOp junk (RecvDatagram d) 0) ds @ replicate n ProcessOp) q =
    take n (q @ map (\<lambda>d. the (accepts e (RecvDatagram d))) ds)"
proof -
  have "processed e (replicate n ProcessOp) q = take n q" for q
    by (induction n arbitrary: q) (auto simp: take_Suc split: list.split)
  moreover have "processed e (map (\<lambda>d. RecvOp junk (RecvDatagram d) 0) ds @ xs) q =
      processed e xs (q @ map (\<lambda>d. the (accepts e (RecvDatagram d))) ds)" for xs
    using assms by (induction ds arbitrary: q) (auto simp del: accepts.simps)
  ultimately show ?thesis by simp
qed

lemma accepted_all:
  assumes "\<forall>d \<in> set ds. accepts e (RecvDatagram d) \<noteq> None"
  shows "accepted e (map (\<lambda>d. RecvOp junk (RecvDatagram d) 0) ds @ replicate n ProcessOp) =
    map (\<lambda>d. the (accepts e (RecvDatagram d))) ds"
proof -
  have "accepted e (replicate n ProcessOp) = []" by (induction n) simp_all
  with assms show ?thesis by (induction ds) (auto simp del: accepts.simps)
qed

lemma demo_code:
  "few [[0, 0, 1, 5]]" "gathered (block_at (units_blocks 0 [[0, 0, 1, 5]])) (\<lambda>_. [])"
  "\<forall>key. \<not> eight_of (stored (\<lambda>_. []) key)"
proof -
  show "few [[0, 0, 1, 5]]" by (simp add: few_def chunks_step wire_simps)
  show "gathered (block_at (units_blocks 0 [[0, 0, 1, 5]])) (\<lambda>_. [])"
    unfolding demo_units(2)
    by (rule gathered_init) (auto simp: block_at_def ran_def wire_simps split: if_splits)
  show "\<forall>key. \<not> eight_of (stored (\<lambda>_. []) key)" by (simp add: stored_def eight_of_def del: set_upt)
qed

abbreviation demo_fields :: "nat list" where
  "demo_fields \<equiv> [8, 1, 2, 3, 4, 5, 6, 15]"

lemma demo_loss_datagrams: "received_datagrams demo_loss_ops = map demo_field_datagram demo_fields"
  by (simp add: demo_loss_ops_def eval_nat_numeral)

lemma demo_loss_facts:
  "list_all op_wf demo_loss_ops" "list_all (\<lambda>x. \<not> is_tick x) demo_loss_ops"
  "list_all (delivers (rs_datagrams LittleEndian slice_field (units_blocks 0 [[0, 0, 1, 5]]))) demo_loss_ops"
proof -
  show "list_all op_wf demo_loss_ops"
    by (simp add: demo_loss_ops_def demo_junk_length eval_nat_numeral)
  show "list_all (\<lambda>x. \<not> is_tick x) demo_loss_ops" by (simp add: demo_loss_ops_def list_all_iff)
  have "demo_field_datagram i \<in> set (rs_datagrams LittleEndian slice_field (units_blocks 0 [[0, 0, 1, 5]]))"
    if "i < 256" for i
    using that unfolding demo_units(2) by (auto simp: rs_datagrams_def demo_field_datagram_def)
  then show "list_all (delivers (rs_datagrams LittleEndian slice_field (units_blocks 0 [[0, 0, 1, 5]]))) demo_loss_ops"
    by (simp add: demo_loss_ops_def list_all_iff)
qed

lemma demo_loss_enough:
  "\<forall>b \<in> set (units_blocks 0 [[0, 0, 1, 5]]). eight_of (fields_received LittleEndian slice_field b demo_loss_ops)"
proof -
  let ?f = "fields_received LittleEndian slice_field ([0, 0, 1, 5], 0, 0, 1) demo_loss_ops"
  have "of_nat i \<in> ?f" if "i \<in> set demo_fields" for i
  proof -
    have "unat (of_nat i :: u8) = i" using that by auto
    with that show ?thesis by (auto simp: fields_received_def demo_loss_datagrams demo_field_datagram_def)
  qed
  then have sub: "of_nat ` set demo_fields \<subseteq> ?f" by blast
  have "eight_of (of_nat ` set demo_fields)" by (auto simp: eight_of_def)
  with decoder_completeD(3) [OF gather_complete _ sub] show ?thesis unfolding demo_units(2) by simp
qed

lemma demo_loss_processed:
  assumes "server_run BigEndian gather demo_loss_ops (server_boot dec p logs) = Ok sv'"
  shows "sv_packetQueue sv' = []"
proof -
  let ?ds = "map demo_field_datagram demo_fields" and ?boot = "server_boot dec p logs"
  have ops: "demo_loss_ops = map (\<lambda>d. RecvOp demo_junk (RecvDatagram d) 0) ?ds @ replicate 8 ProcessOp"
    by (simp add: demo_loss_ops_def)
  have acc: "\<forall>d \<in> set ?ds. accepts BigEndian (RecvDatagram d) \<noteq> None"
    using accepts_rs_datagram [OF length_slice_field, of BigEndian LittleEndian "([0, 0, 1, 5], 0, 0, 1)"]
    by (auto simp: demo_field_datagram_def simp del: accepts.simps rs_of.simps)
  from server_run_eq [OF boot_ok demo_loss_facts(1), of BigEndian gather dec p logs] assms
  have fifo: "processed BigEndian demo_loss_ops (sv_packetQueue ?boot) @ sv_packetQueue sv' =
      sv_packetQueue ?boot @ accepted BigEndian demo_loss_ops" by auto
  have "sv_packetQueue ?boot = []" by (simp add: server_boot_def)
  with fifo show ?thesis unfolding ops processed_all [OF acc] accepted_all [OF acc] by simp
qed

theorem encoded_playback_survives_loss_witness:
  "\<exists>sv' sv''. server_run BigEndian gather demo_loss_ops (server_boot (\<lambda>_. [])
       (Start_player True (player_init (statistics_init Map.empty))) []) = Ok sv' \<and>
     server_run BigEndian gather (map PlayerTick [[], []]) sv' = Ok sv'' \<and>
     shown (sv_player sv'') = [(0, [0, 0, 1, 5])]"
proof -
  obtain sv' where run: "server_run BigEndian gather demo_loss_ops (server_boot (\<lambda>_. [])
      (Start_player True (player_init (statistics_init Map.empty))) []) = Ok sv'"
    by (rule server_runE [OF boot_ok demo_loss_facts(1)])
  have ne: "[] \<notin> set [[0, 0, 1, 5 :: byte]]" by simp
  from encoded_playback_survives_loss [where evss = "[[], []]", OF gather_sound gather_complete demo_code(2,3,1) ne
      length_slice_field demo_loss_facts(1,3) demo_loss_enough demo_loss_facts(2) run
      demo_loss_processed [OF run]] run
  show ?thesis by simp
qed

end
