(* ===== verification/Live_Playback.thy ===== *)
theory Live_Playback
  imports End_To_End
begin

text \<open>
  Playback while the file is still arriving, over a network that neither loses, repeats nor
  reorders: however the server's threads interleave, what has been shown is at every moment
  the beginning of the file, no unit is skipped, and one pass for each unit shows the rest.
\<close>

section \<open>The blocks still to come\<close>

text \<open>\<open>u\<close> units and \<open>c\<close> blocks of the next one have arrived.\<close>

definition rest_blocks :: "bytes list \<Rightarrow> nat \<Rightarrow> nat \<Rightarrow> block list" where
  "rest_blocks ns u c =
     (if u < length ns
      then drop c (blocks_of (of_nat u) (ns ! u)) @ units_blocks (of_nat (Suc u)) (drop (Suc u) ns)
      else [])"

definition inside :: "bytes list \<Rightarrow> nat \<Rightarrow> nat \<Rightarrow> bool" where
  "inside ns u c \<longleftrightarrow> (if u < length ns then c < length (chunks blockSize (ns ! u)) else u = length ns \<and> c = 0)"

lemma rest_all: "rest_blocks ns 0 0 = units_blocks 0 ns"
  by (cases ns) (simp_all add: rest_blocks_def)

lemma rest_unit: "u < length ns \<Longrightarrow> rest_blocks ns u 0 = units_blocks (of_nat u) (drop u ns)"
  by (simp add: rest_blocks_def Cons_nth_drop_Suc [symmetric] add.commute)

lemma inside_unit: "u \<le> length ns \<Longrightarrow> [] \<notin> set ns \<Longrightarrow> inside ns u 0"
  by (cases "u < length ns"; cases "ns ! u = []") (auto simp: inside_def chunks_step in_set_conv_nth)

lemma rest_next:
  assumes "u < length ns" and "inside ns u c" and "[] \<notin> set ns"
  defines "cs \<equiv> chunks blockSize (ns ! u)"
  shows "\<exists>u' c'. rest_blocks ns u c =
      (cs ! c, of_nat c, of_nat u, of_nat (length cs)) # rest_blocks ns u' c' \<and> inside ns u' c' \<and>
    (u', c') = (if Suc c < length cs then (u, Suc c) else (Suc u, 0))"
proof -
  have c: "c < length cs" using assms(1,2) by (simp add: inside_def cs_def)
  let ?nb = "number_blocks 0 (of_nat u) (of_nat (length cs)) cs"
  have nb: "drop c ?nb = (cs ! c, of_nat c, of_nat u, of_nat (length cs)) # drop (Suc c) ?nb"
    using c by (subst Cons_nth_drop_Suc [symmetric]) (simp_all add: nth_number_blocks)
  show ?thesis
  proof (cases "Suc c < length cs")
    case True
    with assms(1) nb show ?thesis
      by (simp add: rest_blocks_def blocks_of_def Let_def cs_def [symmetric] inside_def)
  next
    case False
    then have "drop (Suc c) ?nb = []" by simp
    moreover have "units_blocks (of_nat (Suc u)) (drop (Suc u) ns) = rest_blocks ns (Suc u) 0"
      using assms(1) by (cases "Suc u < length ns") (simp_all add: rest_unit, simp add: rest_blocks_def)
    ultimately show ?thesis
      using False assms(1,3) nb inside_unit [of "Suc u" ns]
      by (simp add: rest_blocks_def blocks_of_def Let_def cs_def [symmetric])
  qed
qed

section \<open>The state of a player fed in order\<close>

definition first_units :: "bytes list \<Rightarrow> nat \<Rightarrow> (u32 \<times> bytes) list" where
  "first_units ns k = map (\<lambda>j. (of_nat j, ns ! j)) [0..<k]"

lemma length_first_units [simp]: "length (first_units ns k) = k"
  by (simp add: first_units_def)

text \<open>\<open>k\<close> units have been shown, those between \<open>k\<close> and \<open>u\<close> wait.\<close>

definition showing :: "bytes list \<Rightarrow> nat \<Rightarrow> nat \<Rightarrow> player \<Rightarrow> bool" where
  "showing ns k u p \<longleftrightarrow> k \<le> u \<and> shown p = first_units ns k \<and> pl_nextNaluIndex p = of_nat k \<and>
     (\<forall>i. rdy p i = (if k \<le> unat i \<and> unat i < u then Some (ns ! unat i) else None))"

definition gathering :: "bytes list \<Rightarrow> nat \<Rightarrow> nat \<Rightarrow> player \<Rightarrow> bool" where
  "gathering ns u c p \<longleftrightarrow> (\<forall>j. u \<le> j \<and> j < length ns \<longrightarrow>
     received_blocks p (of_nat j) (chunks blockSize (ns ! j)) (if j = u then {..<c} else {}))"

definition live :: "bytes list \<Rightarrow> nat \<Rightarrow> nat \<Rightarrow> player \<Rightarrow> bool" where
  "live ns u c p \<longleftrightarrow> player_ok p \<and> inside ns u c \<and> gathering ns u c p \<and> warned p = 0 \<and>
     (\<exists>k. showing ns k u p)"

lemma live_init: "[] \<notin> set ns \<Longrightarrow> live ns 0 0 (player_init st)"
  using player_ok_init [of st]
  by (auto simp: live_def inside_unit gathering_def received_blocks_def player_init_def
      warned_def showing_def shown_def first_units_def intro!: exI [of _ 0])

lemma warned_AddBlock: "warned (AddBlock bi ni t d p) = warned p"
  by (simp add: warned_def AddBlock_cases Let_def complete_nalu_def player_simps plog_def)

lemma number_less: "numberable ns \<Longrightarrow> j < length ns \<Longrightarrow> unat (of_nat j :: u32) = j"
  by (simp add: numberable_def unat_of_nat)

lemma number_eq:
  "numberable ns \<Longrightarrow> i < length ns \<Longrightarrow> j < length ns \<Longrightarrow> (of_nat i :: u32) = of_nat j \<longleftrightarrow> i = j"
  using number_less by metis

text \<open>
  The arrival of the next block: \<open>place_after\<close> is what has arrived then, \<open>next_arrived\<close> what
  the block does to the player.
\<close>

definition place_after :: "bytes list \<Rightarrow> nat \<Rightarrow> nat \<Rightarrow> nat \<times> nat" where
  "place_after ns u c = (if Suc c < length (chunks blockSize (ns ! u)) then (u, Suc c) else (Suc u, 0))"

definition next_arrived :: "bytes list \<Rightarrow> nat \<Rightarrow> nat \<Rightarrow> player \<Rightarrow> player \<Rightarrow> bool" where
  "next_arrived ns u c p q \<longleftrightarrow>
     (let cs = chunks blockSize (ns ! u) in
        (if Suc c < length cs then received_blocks q (of_nat u) cs {..<Suc c} \<and> rdy q (of_nat u) = rdy p (of_nat u)
         else rdy q (of_nat u) = Some (ns ! u))) \<and>
     (\<forall>i. i \<noteq> of_nat u \<longrightarrow> asm q i = asm p i \<and> rdy q i = rdy p i) \<and>
     shown q = shown p \<and> pl_nextNaluIndex q = pl_nextNaluIndex p"

lemma next_arrives:
  assumes "player_ok p" and "numberable ns" and "u < length ns" and "gathering ns u c p"
    and "c < length (chunks blockSize (ns ! u))"
  defines "cs \<equiv> chunks blockSize (ns ! u)"
  shows "next_arrived ns u c p (AddBlock (of_nat c) (of_nat u) (of_nat (length cs)) (cs ! c) p)"
proof -
  let ?q = "AddBlock (of_nat c) (of_nat u) (of_nat (length cs)) (cs ! c) p"
  have c: "c < length cs" using assms(5) by (simp add: cs_def)
  have lt: "length cs < 2 ^ 32" using assms(2,3) by (simp add: numberable_def cs_def)
  have rec: "received_blocks p (of_nat u) cs {..<c}"
    using assms(3,4) by (auto simp: gathering_def cs_def)
  have full: "{..<length cs} \<subseteq> insert c {..<c} \<longleftrightarrow> \<not> Suc c < length cs"
    using c by (auto simp: subset_iff less_Suc_eq)
  from AddBlock_received [OF assms(1) rec lt c, unfolded full]
  have "if Suc c < length cs
      then received_blocks ?q (of_nat u) cs {..<Suc c} \<and> rdy ?q (of_nat u) = rdy p (of_nat u)
      else rdy ?q (of_nat u) = Some (ns ! u)"
    by (simp add: lessThan_Suc concat_unit_blocks cs_def split: if_splits)
  moreover have "asm ?q i = asm p i \<and> rdy ?q i = rdy p i" if "i \<noteq> of_nat u" for i
    using AddBlock_other [OF assms(1) that [symmetric]] .
  ultimately show ?thesis by (simp add: next_arrived_def Let_def cs_def [symmetric])
qed

lemma gathering_next:
  assumes "next_arrived ns u c p q" and "numberable ns" and "u < length ns" and "gathering ns u c p"
  shows "gathering ns (fst (place_after ns u c)) (snd (place_after ns u c)) q"
  unfolding gathering_def
proof (intro allI impI)
  fix j
  let ?u' = "fst (place_after ns u c)" and ?c' = "snd (place_after ns u c)"
  assume j: "?u' \<le> j \<and> j < length ns"
  show "received_blocks q (of_nat j) (chunks blockSize (ns ! j)) (if j = ?u' then {..<?c'} else {})"
  proof (cases "j = u")
    case True
    with j assms(1) show ?thesis by (auto simp: next_arrived_def place_after_def split: if_splits)
  next
    case False
    then have "(of_nat j :: u32) \<noteq> of_nat u" using number_eq [OF assms(2)] j assms(3) by auto
    moreover have "received_blocks p (of_nat j) (chunks blockSize (ns ! j)) {}"
      using assms(4) j False by (auto simp: gathering_def place_after_def split: if_splits)
    moreover have "(if j = ?u' then {..<?c'} else {}) = {}"
      using False j by (auto simp: place_after_def split: if_splits)
    ultimately show ?thesis using assms(1) by (simp add: next_arrived_def received_blocks_def)
  qed
qed

lemma showing_next:
  assumes "next_arrived ns u c p q" and "numberable ns" and "u < length ns" and "showing ns k u p"
  shows "showing ns k (fst (place_after ns u c)) q"
proof -
  have "rdy q i = (if k \<le> unat i \<and> unat i < fst (place_after ns u c) then Some (ns ! unat i) else None)" for i
  proof (cases "i = of_nat u")
    case True
    with assms number_less [OF assms(2,3)] show ?thesis
      by (auto simp: next_arrived_def Let_def showing_def place_after_def split: if_splits)
  next
    case False
    then have "unat i \<noteq> u" by auto
    with False assms(1,4) show ?thesis
      by (auto simp: next_arrived_def showing_def place_after_def split: if_splits)
  qed
  with assms(1,4) show ?thesis
    by (auto simp: next_arrived_def showing_def place_after_def split: if_splits)
qed

lemma live_arrive:
  assumes "numberable ns" and "[] \<notin> set ns" and "live ns u c p"
    and "rest_blocks ns u c = (d, bi, ni, t) # r"
  shows "\<exists>u' c'. live ns u' c' (AddBlock bi ni t d p) \<and> rest_blocks ns u' c' = r"
proof -
  have u: "u < length ns" using assms(4) by (auto simp: rest_blocks_def split: if_splits)
  from assms(3) obtain k where ok: "player_ok p" and ins: "inside ns u c"
    and gat: "gathering ns u c p" and warn: "warned p = 0" and sh: "showing ns k u p"
    by (auto simp: live_def)
  have c: "c < length (chunks blockSize (ns ! u))" using ins u by (simp add: inside_def)
  obtain u' c' where uc: "place_after ns u c = (u', c')" by fastforce
  with rest_next [OF u ins assms(2)] assms(4) have r: "rest_blocks ns u' c' = r" "inside ns u' c'"
    and next_block: "next_arrived ns u c p (AddBlock bi ni t d p)"
    using next_arrives [OF ok assms(1) u gat c] by (auto simp: place_after_def)
  from gathering_next [OF next_block assms(1) u gat] showing_next [OF next_block assms(1) u sh] r(2) uc
  have "live ns u' c' (AddBlock bi ni t d p)"
    using ok warn by (auto simp: live_def player_ok_AddBlock warned_AddBlock)
  with r(1) show ?thesis by blast
qed

text \<open>A pass shows the next unit when it waits, and changes nothing else.\<close>

lemma begin_rdy:
  assumes "map_ok m" and "map_find m i = Some v" and "\<And>j. map_find m j \<noteq> None \<Longrightarrow> i \<le> j"
  shows "map_begin m = Some i"
proof -
  from assms(2) obtain k where "map_begin m = Some k" and "k \<le> i"
    using om.least_exists [OF assms(1), of i] by auto
  moreover have "i \<le> k" using om.least_Some [OF assms(1) \<open>map_begin m = Some k\<close>] assms(3) by simp
  ultimately show ?thesis by simp
qed

lemma begin_showing:
  assumes "numberable ns" and "player_ok p" and "showing ns k u p" and "u \<le> length ns"
  shows "map_begin (pl_readyNalus p) = (if k < u then Some (of_nat k) else None)"
proof -
  have ok: "map_ok (pl_readyNalus p)" using assms(2) by (simp add: player_ok_def)
  have rdy: "rdy p i = (if k \<le> unat i \<and> unat i < u then Some (ns ! unat i) else None)" for i
    using assms(3) by (simp add: showing_def)
  show ?thesis
  proof (cases "k < u")
    case True
    then have k: "unat (of_nat k :: u32) = k" using number_less [OF assms(1), of k] assms(4) by simp
    have "map_begin (pl_readyNalus p) = Some (of_nat k)"
    proof (rule begin_rdy [OF ok])
      show "rdy p (of_nat k) = Some (ns ! k)" using True k by (simp add: rdy)
      show "of_nat k \<le> j" if "rdy p j \<noteq> None" for j
        using that k by (simp add: rdy word_le_nat_alt split: if_splits)
    qed
    with True show ?thesis by simp
  next
    case False
    then have "rdy p i = None" for i by (simp add: rdy)
    with False om.least_None [OF ok] show ?thesis by simp
  qed
qed

lemma showing_tick:
  assumes "numberable ns" and "player_ok p" and "showing ns k u p" and "u \<le> length ns"
  shows "showing ns (if pl_running p \<and> \<not> pl_stop p \<and> SDL_QUIT \<notin> set evs \<and> k < u then Suc k else k) u
      (run_iteration evs p) \<and> warned (run_iteration evs p) = warned p"
  using assms(2)
proof (cases rule: iteration_cases [where evs = evs])
  case (showed d)
  from begin_showing [OF assms] assms(3) showed have k: "k < u"
    by (auto simp: showing_def split: if_splits)
  then have uk: "unat (of_nat k :: u32) = k" using number_less [OF assms(1), of k] assms(4) by simp
  have nxt: "pl_nextNaluIndex p = of_nat k" using assms(3) by (simp add: showing_def)
  have d: "d = ns ! k" using assms(3) showed(5) nxt uk by (auto simp: showing_def split: if_splits)
  have r: "rdy (PollEvents evs p) (pl_nextNaluIndex (PollEvents evs p)) = Some d"
    using showed(5) by (simp add: player_simps)
  have ok: "map_ok (pl_readyNalus p)" using assms(2) by (simp add: player_ok_def)
  have "rdy (show_next (PollEvents evs p)) i =
      (if Suc k \<le> unat i \<and> unat i < u then Some (ns ! unat i) else None)" for i
  proof (cases "i = of_nat k")
    case True
    with shown_show_next [OF r] uk nxt om.find_erase [OF ok] show ?thesis by (simp add: player_simps)
  next
    case False
    then have "unat i \<noteq> k" by auto
    with False shown_show_next [OF r] nxt om.find_erase [OF ok] assms(3) show ?thesis
      by (auto simp: player_simps showing_def)
  qed
  with shown_show_next [OF r] assms(3) k d nxt
  have "showing ns (Suc k) u (show_next (PollEvents evs p))"
    by (simp add: showing_def player_simps first_units_def add.commute)
  moreover have "warned (show_next (PollEvents evs p)) = warned p"
    using r by (simp add: show_next_def Let_def warned_def player_simps plog_def)
  ultimately show ?thesis using showed k by simp
next
  case waited
  from begin_showing [OF assms] assms(3) waited have k: "\<not> k < u"
    by (auto simp: showing_def split: if_splits)
  with begin_showing [OF assms] have none: "map_begin (pl_readyNalus p) = None" by simp
  with waited have "run_iteration evs p = PollEvents evs p" by (simp add: skip_missing_def player_simps)
  with assms(3) k show ?thesis by (simp add: showing_def warned_def player_simps)
qed (use assms(3) in \<open>auto simp: showing_def warned_def player_simps\<close>)

section \<open>Runs\<close>

fun arrived_blocks :: "player_op list \<Rightarrow> block list" where
  "arrived_blocks [] = []"
| "arrived_blocks (Arrive bi ni t d # xs) = (d, bi, ni, t) # arrived_blocks xs"
| "arrived_blocks (_ # xs) = arrived_blocks xs"

lemma arrived_blocks_append: "arrived_blocks (xs @ ys) = arrived_blocks xs @ arrived_blocks ys"
  by (induction xs rule: arrived_blocks.induct) simp_all

lemma live_other:
  assumes "numberable ns" and "live ns u c p" and "\<And>bi ni t d. x \<noteq> Arrive bi ni t d"
  shows "live ns u c (player_apply x p)"
proof -
  from assms(2) obtain k where ok: "player_ok p" and ins: "inside ns u c"
    and gat: "gathering ns u c p" and warn: "warned p = 0" and sh: "showing ns k u p"
    by (auto simp: live_def)
  have "gathering ns u c (player_apply x p)"
    using gat apply_other_asm [OF ok assms(3)] by (simp add: gathering_def received_blocks_def)
  moreover have "warned (player_apply x p) = 0 \<and> (\<exists>k. showing ns k u (player_apply x p))"
  proof (cases x)
    case (Tick evs)
    have "u \<le> length ns" using ins by (auto simp: inside_def split: if_splits)
    from showing_tick [OF assms(1) ok sh this, of evs] warn Tick show ?thesis by auto
  qed (use sh warn assms(3) in \<open>auto simp: showing_def warned_def Start_player_def Stop_player_def
         player_simps plog_def shown_def displayed_append\<close>)
  ultimately show ?thesis
    using ins player_ok_apply [OF ok, of x] by (simp add: live_def)
qed

lemma live_run:
  assumes "numberable ns" and "[] \<notin> set ns" and "live ns u c p"
    and "rest_blocks ns u c = arrived_blocks xs @ r"
  shows "\<exists>u' c'. live ns u' c' (player_run xs p) \<and> rest_blocks ns u' c' = r"
  using assms(3,4)
proof (induction xs arbitrary: p u c)
  case Nil
  then show ?case by auto
next
  case (Cons x xs)
  show ?case
  proof (cases "\<exists>bi ni t d. x = Arrive bi ni t d")
    case True
    then obtain bi ni t d where x: "x = Arrive bi ni t d" by blast
    with Cons.prems(2) have "rest_blocks ns u c = (d, bi, ni, t) # (arrived_blocks xs @ r)" by simp
    from live_arrive [OF assms(1,2) Cons.prems(1) this] obtain u' c' where
      "live ns u' c' (player_apply x p)" and "rest_blocks ns u' c' = arrived_blocks xs @ r"
      by (auto simp: x)
    from Cons.IH [OF this] show ?thesis by simp
  next
    case False
    then have "arrived_blocks (x # xs) = arrived_blocks xs" by (cases x) auto
    with Cons live_other [OF assms(1) Cons.prems(1), of x] False show ?thesis by auto
  qed
qed

section \<open>The server\<close>

lemma accepted_datagrams:
  "\<forall>b \<in> set bs. block_ok b \<Longrightarrow> received_datagrams ops = datagrams e' bs \<Longrightarrow>
     accepted e ops = map (raw_view \<circ> raw_of) bs"
proof (induction ops arbitrary: bs rule: received_datagrams.induct)
  case (2 junk d errno xs)
  then obtain b bs' where "bs = b # bs'" and "d = raw_encode e' (raw_of b)" by (cases bs) (auto simp: datagrams_def)
  with 2 accepts_datagram [of b e e'] show ?case by (simp add: datagrams_def)
qed (auto simp: datagrams_def)

lemma arrived_fifo:
  assumes "\<forall>b \<in> set (qs @ bs). block_ok b" and "accepted e ops = map (raw_view \<circ> raw_of) bs"
    and "q = map (raw_view \<circ> raw_of) qs"
  shows "\<exists>r. qs @ bs = arrived_blocks (player_ops e Decode ops q dec) @ r \<and>
    length (arrived_blocks (player_ops e Decode ops q dec)) = length (processed e ops q)"
  using assms
proof (induction ops q dec arbitrary: qs bs rule: player_ops_induct [where e = e and Decode = Decode])
  case (Accept junk r errno xs q dec pkt)
  then obtain b bs' where bs: "bs = b # bs'" "pkt = (raw_view \<circ> raw_of) b"
    "accepted e xs = map (raw_view \<circ> raw_of) bs'"
    by (cases bs) (auto simp del: raw_view.simps raw_of.simps)
  with Accept(2) [of "qs @ [b]" bs'] Accept(1,3,5) show ?case
    by (simp del: raw_view.simps raw_of.simps)
next
  case (Process xs pkt q dec ps dec1)
  then obtain b qs' where q: "qs = b # qs'" "pkt = (raw_view \<circ> raw_of) b" "q = map (raw_view \<circ> raw_of) qs'"
    by (cases qs) auto
  obtain d bi ni t where b: "b = (d, bi, ni, t)" by (cases b)
  have "ps = [Arrive bi ni t d]"
    using packet_ops_raw [of b Decode dec] Process(1,3) q
    by (simp add: b del: raw_view.simps raw_of.simps packet_ops.simps)
  with Process(2) [of qs' bs] Process(1,3,4) q show ?case
    by (auto simp: b
        simp del: raw_view.simps raw_of.simps packet_ops.simps)
qed simp_all

text \<open>Received in order and without loss, so far.\<close>

lemma served_live:
  assumes "numberable ns" and "[] \<notin> set ns" and "list_all op_wf ops"
    and "received_datagrams ops = take m (datagrams e' (units_blocks 0 ns))"
    and "server_run e Decode ops (server_boot dec (Start_player w (player_init st)) logs) = Ok sv'"
  shows "\<exists>u c. live ns u c (sv_player sv') \<and>
    (sv_packetQueue sv' = [] \<and> length (units_blocks 0 ns) \<le> m \<longrightarrow> u = length ns)"
proof -
  let ?bs = "take m (units_blocks 0 ns)" and ?xs = "player_ops e Decode ops [] dec"
  have ok: "\<forall>b \<in> set ?bs. block_ok b" by (auto dest: in_set_takeD units_blocks_ok)
  have "received_datagrams ops = datagrams e' ?bs" using assms(4) by (simp add: datagrams_def take_map)
  from accepted_datagrams [OF ok this] have acc: "accepted e ops = map (raw_view \<circ> raw_of) ?bs" .
  from arrived_fifo [of "[]", OF _ this, where q = "[]" and dec = dec and Decode = Decode] ok obtain r where
    r: "?bs = arrived_blocks ?xs @ r" and len: "length (arrived_blocks ?xs) = length (processed e ops [])"
    by auto
  let ?p = "Start_player w (player_init st)"
  have start: "live ns 0 0 ?p"
    using live_other [OF assms(1) live_init [OF assms(2)], of "StartOp w"] by simp
  have "rest_blocks ns 0 0 = arrived_blocks ?xs @ (r @ drop m (units_blocks 0 ns))"
    by (simp add: rest_all flip: append_assoc r)
  from live_run [OF assms(1,2) start this] obtain u c where
    live: "live ns u c (player_run ?xs ?p)" and rest: "rest_blocks ns u c = r @ drop m (units_blocks 0 ns)"
    by blast
  have sv: "sv_player sv' = player_run ?xs ?p"
    using server_player_from_boot [OF assms(3,5)] by simp
  have fifo: "processed e ops [] @ sv_packetQueue sv' = accepted e ops"
    using server_run_eq [OF boot_ok assms(3), of e Decode dec ?p logs] assms(5)
    by (simp add: server_boot_def)
  have "u = length ns" if "sv_packetQueue sv' = []" and "length (units_blocks 0 ns) \<le> m"
  proof -
    have "length (arrived_blocks ?xs) = length ?bs" using len fifo that(1) acc by simp
    with r have "r = []" by (metis add_cancel_right_right length_append length_0_conv)
    with rest that(2) have "rest_blocks ns u c = []" by simp
    moreover have "inside ns u c" using live by (simp add: live_def)
    ultimately show ?thesis using rest_next [OF _ _ assms(2)] by (fastforce simp: inside_def split: if_splits)
  qed
  with live sv show ?thesis by auto
qed

text \<open>
  While the file is still arriving, over a network that has delivered a beginning of the
  client's datagrams in order, once each: whatever the interleaving of the receiver, the
  processor and the player, the units shown are the first units of the file, all of them,
  complete and in order, and no unit has been skipped.
\<close>

lemma live_playback:
  assumes "numberable ns" and "[] \<notin> set ns" and "list_all op_wf ops"
    and "received_datagrams ops = take m (datagrams e' (units_blocks 0 ns))"
    and "server_run e Decode ops (server_boot dec (Start_player w (player_init st)) logs) = Ok sv'"
  shows "\<exists>k \<le> length ns. shown (sv_player sv') = first_units ns k \<and> warned (sv_player sv') = 0"
proof -
  from served_live [OF assms] obtain u c where live: "live ns u c (sv_player sv')" by blast
  then obtain k where "k \<le> u" and "shown (sv_player sv') = first_units ns k"
    by (auto simp: live_def showing_def)
  moreover have "u \<le> length ns" using live by (auto simp: live_def inside_def split: if_splits)
  ultimately show ?thesis using live by (auto simp: live_def intro: order_trans)
qed

section \<open>The rest of the file\<close>

fun no_quit :: "server_op \<Rightarrow> bool" where
  "no_quit (PlayerTick evs) \<longleftrightarrow> SDL_QUIT \<notin> set evs"
| "no_quit _ = True"

fun keeps_loop :: "player_op \<Rightarrow> bool" where
  "keeps_loop (Tick evs) \<longleftrightarrow> SDL_QUIT \<notin> set evs"
| "keeps_loop StopOp = False"
| "keeps_loop _ = True"

definition playing :: "player \<Rightarrow> bool" where
  "playing p \<longleftrightarrow> pl_running p \<and> \<not> pl_stop p \<and> pl_thread p"

lemma playing_apply: "playing p \<Longrightarrow> keeps_loop x \<Longrightarrow> playing (player_apply x p)"
  by (cases x) (auto simp: playing_def AddBlock_cases complete_nalu_def run_iteration_def show_next_def
      skip_missing_def Start_player_def Let_def player_simps split: option.splits)

lemma playing_run: "playing p \<Longrightarrow> list_all keeps_loop xs \<Longrightarrow> playing (player_run xs p)"
  by (induction xs arbitrary: p) (simp_all add: playing_apply)

lemma player_ops_keep_loop:
  "list_all no_quit ops \<Longrightarrow> list_all keeps_loop (player_ops e Decode ops q dec)"
  by (rule player_ops_all) (auto simp: list_all_iff)

lemma ticks_show:
  assumes "numberable ns" and "u \<le> length ns" and "\<forall>evs \<in> set evss. SDL_QUIT \<notin> set evs"
    and "player_ok p" and "showing ns k u p" and "playing p"
  shows "showing ns (min u (k + length evss)) u (player_run (map Tick evss) p)"
  using assms(3-)
proof (induction evss arbitrary: p k)
  case Nil
  then have "min u k = k" by (simp add: showing_def)
  with Nil show ?case by simp
next
  case (Cons evs evss)
  let ?k = "if k < u then Suc k else k"
  have "showing ns ?k u (run_iteration evs p)"
    using showing_tick [OF assms(1) Cons.prems(2,3) assms(2), of evs] Cons.prems(1,4)
    by (simp add: playing_def split: if_splits)
  with Cons.IH [of "run_iteration evs p" ?k] Cons.prems player_ok_iteration [of p evs]
    playing_apply [of p "Tick evs"]
  have "showing ns (min u (?k + length evss)) u (player_run (map Tick evss) (run_iteration evs p))"
    by simp
  moreover have "min u (?k + length evss) = min u (k + length (evs # evss))"
    using Cons.prems(3) by (auto simp: showing_def)
  ultimately show ?case by simp
qed

text \<open>
  The end of a file that arrives in order and is played while it arrives: once its last
  datagram has been processed, each further pass shows a unit until all have been shown, in
  order and with their bytes; one pass for each unit is enough, whatever was shown before.
\<close>

lemma live_playback_completes:
  assumes "numberable ns" and "[] \<notin> set ns" and "list_all op_wf ops" and "list_all no_quit ops"
    and "received_datagrams ops = datagrams e' (units_blocks 0 ns)"
    and "server_run e Decode ops (server_boot dec (Start_player True (player_init st)) logs) = Ok sv'"
    and "sv_packetQueue sv' = []" and "\<forall>evs \<in> set evss. SDL_QUIT \<notin> set evs"
  shows "\<exists>sv''. server_run e Decode (map PlayerTick evss) sv' = Ok sv'' \<and>
    shown (sv_player sv'') = first_units ns (min (length ns) (length (shown (sv_player sv')) + length evss))"
proof -
  let ?p = "sv_player sv'" and ?bs = "units_blocks 0 ns"
  have "received_datagrams ops = take (length ?bs) (datagrams e' ?bs)"
    using assms(5) by (simp add: datagrams_def)
  from served_live [OF assms(1-3) this assms(6)] assms(7) obtain c where
    live: "live ns (length ns) c ?p" by auto
  then obtain k where ok: "player_ok ?p" and sh: "showing ns k (length ns) ?p" by (auto simp: live_def)
  have "playing (Start_player True (player_init st))"
    by (simp add: playing_def Start_player_def player_init_def)
  from playing_run [OF this player_ops_keep_loop [OF assms(4)]] have play: "playing ?p"
    using server_player_from_boot [OF assms(3,6)] by simp
  have "length (shown ?p) = k" using sh by (simp add: showing_def)
  with ticks_show [OF assms(1) order_refl assms(8) ok sh play] show ?thesis
    by (simp add: ticks_run showing_def)
qed

section \<open>A concrete run\<close>

definition demo_two :: "bytes list" where
  "demo_two = [[0, 0, 1, 5], [0, 0, 1, 6]]"

lemma demo_two_facts: "numberable demo_two" "[] \<notin> set demo_two"
  "units_blocks 0 demo_two = [([0, 0, 1, 5], 0, 0, 1), ([0, 0, 1, 6], 0, 1, 1)]"
  by (simp_all add: demo_two_def numberable_def chunks_step wire_simps blocks_of_def Let_def)

text \<open>The first unit is processed and shown before the second one arrives.\<close>

definition demo_live_ops :: "server_op list" where
  "demo_live_ops =
     [RecvOp demo_junk (RecvDatagram (raw_encode LittleEndian (0, 0, 1, [0, 0, 1, 5]))) 0,
      RecvOp demo_junk (RecvFail 11) 11, ProcessOp, PlayerTick [], PlayerTick [SDL_OTHER],
      RecvOp demo_junk (RecvDatagram (raw_encode LittleEndian (0, 1, 1, [0, 0, 1, 6]))) 0,
      PlayerTick [], ProcessOp]"

lemma demo_live_facts: "list_all op_wf demo_live_ops" "list_all no_quit demo_live_ops"
  "received_datagrams demo_live_ops = datagrams LittleEndian (units_blocks 0 demo_two)"
  by (simp_all add: demo_live_ops_def demo_junk_length demo_two_facts datagrams_def)

lemma demo_live_processed:
  assumes "server_run BigEndian no_decoder demo_live_ops (server_boot () (Start_player w (player_init st)) logs) = Ok sv'"
  shows "sv_packetQueue sv' = []"
proof -
  have fifo: "processed BigEndian demo_live_ops [] @ sv_packetQueue sv' = accepted BigEndian demo_live_ops"
    using server_run_eq [OF boot_ok demo_live_facts(1), of BigEndian no_decoder "()" "Start_player w (player_init st)" logs]
      assms by (simp add: server_boot_def)
  have ok: "\<forall>b \<in> set (units_blocks 0 demo_two). block_ok b" using units_blocks_ok by blast
  note acc = accepts_datagram [of "([0, 0, 1, 5], 0, 0, 1)" BigEndian LittleEndian]
    accepts_datagram [of "([0, 0, 1, 6], 0, 1, 1)" BigEndian LittleEndian]
  show ?thesis
    using fifo acc ok
    by (simp add: demo_live_ops_def demo_two_facts del: accepts.simps(2) raw_view.simps raw_encode.simps)
qed

end
