(* ===== verification/System.thy ===== *)
theory System
  imports Programs Server_Screen Decoded_Playback Encoded_Playback Live_Playback
begin

text \<open>
  The whole testbed: the client program and the server program, each from its configuration
  document on, with the network between them and the server's real player. The transport
  interface makes the statements the same for both modes.
\<close>

section \<open>The server program\<close>

definition node_of :: "'d \<Rightarrow> nat \<Rightarrow> nat \<Rightarrow> log_call list \<Rightarrow> 'c screen \<Rightarrow> ('d, 'c) node" where
  "node_of decoder interval timeout logs s = \<lparr>nd_server = server_boot decoder (sc_player s) logs,
     nd_display = sc_display s, nd_now = sc_now s, nd_nextTick = sc_nextTick s,
     nd_interval = interval, nd_timeout = timeout\<rparr>"

definition node_main :: "socket_if outcome \<times> log_call list \<Rightarrow> 'c screen outcome \<Rightarrow> 'c screen \<Rightarrow> bool \<Rightarrow>
    bool \<Rightarrow> string \<Rightarrow> nat \<Rightarrow> (string \<Rightarrow> bool) \<Rightarrow> (string list \<Rightarrow> string) \<Rightarrow> stream_write \<Rightarrow> 'd \<Rightarrow> nat \<Rightarrow> nat \<Rightarrow>
    ('d, 'c) node outcome" where
  "node_main sock opened unopened w r sdl_error delay can_open join_names header decoder interval timeout =
     (case sock of
        (Done sk, logs) \<Rightarrow>
          let node = node_of decoder interval timeout (logs @ [LogCall Info ''SocketInterface created'' []])
          in (case opened of
                Stuck \<Rightarrow> Stuck
              | Exited s0 \<Rightarrow> Exited (node s0)
              | Done s0 \<Rightarrow>
                  let s1 = screen_start w r sdl_error delay s0;
                      started = (\<lambda>st. node (s1\<lparr>sc_player := (sc_player s1)\<lparr>pl_stats := st\<rparr>\<rparr>))
                  in (case Start can_open join_names header (pl_stats (sc_player s1)) of
                        Stuck \<Rightarrow> Stuck
                      | Exited st \<Rightarrow> Exited (started st)
                      | Done st \<Rightarrow> Done (started st)))
      | (_, logs) \<Rightarrow> Exited (node_of decoder interval timeout logs unopened))"

text \<open>\<open>unopened\<close>: the player that has not been constructed when the socket fails.\<close>

definition server_program :: "'v rapidjson \<Rightarrow> 'v file_env \<Rightarrow> (string \<Rightarrow> bool) \<Rightarrow> logger \<Rightarrow> statistics \<Rightarrow>
    endian \<Rightarrow> sys_env \<Rightarrow> int \<Rightarrow> string \<Rightarrow> init_env \<Rightarrow> 'c \<Rightarrow> bool \<Rightarrow> bool \<Rightarrow> nat \<Rightarrow> (string list \<Rightarrow> string) \<Rightarrow>
    stream_write \<Rightarrow> 'd \<Rightarrow> (server_config cfg_state, ('d, 'c) node outcome) process" where
  "server_program js fe can_open lg st e sys sdl_init sdl_error ie c w r delay join_names header decoder =
     (case server_Config js fe can_open lg st of
        Abort \<Rightarrow> Misconfigured None
      | Exit s \<Rightarrow> Misconfigured (Some s)
      | Cont s \<Rightarrow>
          let sock = ServerSocket e sys (sf_ownPort (cs_config s)) (sf_rxBufferSize (cs_config s));
              unopened = \<lparr>sc_player = player_init (cs_stats s), sc_display = display_init c,
                sc_now = 0, sc_nextTick = 0\<rparr>
          in Main (node_main sock (screen_open sdl_init sdl_error ie c (cs_stats s)) unopened w r sdl_error
               delay can_open join_names header decoder
               (unat (sf_bufferInterval (cs_config s))) (unat (sf_frameTimeout (cs_config s)))))"

text \<open>What a server program that has started begins with.\<close>

definition node_started :: "bool \<Rightarrow> 'd \<Rightarrow> ('d, 'c) node \<Rightarrow> bool" where
  "node_started w dec n \<longleftrightarrow> nd_nextTick n = nd_now n \<and>
     (\<exists>st logs. nd_server n = server_boot dec (Start_player w (player_init st)) logs)"

lemma screen_start_player:
  "sc_player (screen_start w r err delay s) = Start_player (w \<and> r) (sc_player s)"
proof -
  have "sc_player (screen_start w r err delay s) = player_apply (player_part (ScStart w r err delay)) (sc_player s)"
    by (rule screen_apply_player [where api = undefined and i = 0 and t = 0]) simp
  then show ?thesis by (simp only: player_part.simps player_apply.simps)
qed

lemma server_program_started:
  assumes "server_program js fe can_open lg st e sys sdl_init sdl_error ie c w r delay jn header dec =
    Main (Done n)"
  shows "node_started (w \<and> r) dec n"
proof -
  have started: "node_started (w \<and> r) dec (node_of dec interval timeout logs
      ((screen_start w r sdl_error delay s0)
        \<lparr>sc_player := (sc_player (screen_start w r sdl_error delay s0))\<lparr>pl_stats := st1\<rparr>\<rparr>))"
    if op: "screen_open sdl_init sdl_error ie c st0 = Done s0" for interval timeout logs s0 st0 st1
  proof -
    from op have s0: "sc_player s0 = player_init st0" "sc_now s0 = 0" "sc_nextTick s0 = 0"
      by (auto simp: screen_open_def Let_def split: outcome.splits)
    let ?s1 = "screen_start w r sdl_error delay s0"
    have "(sc_player ?s1)\<lparr>pl_stats := st1\<rparr> = Start_player (w \<and> r) (player_init st1)"
      unfolding screen_start_player s0 by (simp add: Start_player_def player_init_def emit_def)
    moreover have "sc_nextTick ?s1 = sc_now ?s1"
      using s0 by (auto simp: screen_start_def player_init_def split: prod.splits)
    ultimately show ?thesis by (auto simp: node_of_def node_started_def)
  qed
  from assms show ?thesis
    by (auto simp: server_program_def node_main_def Let_def intro!: started
        split: cfg_result.splits prod.splits outcome.splits)
qed

section \<open>Both modes\<close>

text \<open>
  What the Reed-Solomon decoder promises, when it is used. That the identifiers it files the
  fields under are distinct is not its promise but a limit of the client's file, \<open>few\<close>: fewer
  than \<open>2^16\<close> units, each of fewer than \<open>2^16\<close> blocks.
\<close>

definition decoder_safe :: "bool \<Rightarrow> bytes list \<Rightarrow> (bytes \<Rightarrow> u8 \<Rightarrow> bytes) \<Rightarrow> 'd decode \<Rightarrow>
    ((u32 \<Rightarrow> bytes option) \<Rightarrow> 'd \<Rightarrow> bool) \<Rightarrow> 'd \<Rightarrow> bool" where
  "decoder_safe mode ns field Decode I dec \<longleftrightarrow> (mode \<longrightarrow>
     decoder_sound field Decode I \<and> I (block_at (units_blocks 0 ns)) dec)"

definition decoder_works :: "bool \<Rightarrow> 'd decode \<Rightarrow> ('d \<Rightarrow> u32 \<Rightarrow> u8 set) \<Rightarrow> (u8 set \<Rightarrow> bool) \<Rightarrow> 'd \<Rightarrow> bool" where
  "decoder_works mode Decode fed enough dec \<longleftrightarrow> (mode \<longrightarrow>
     decoder_complete Decode fed enough \<and> (\<forall>key. \<not> enough (fed dec key)))"

text \<open>Every datagram in raw mode, enough fields of every block in encoded mode.\<close>

definition enough_received :: "bool \<Rightarrow> endian \<Rightarrow> (bytes \<Rightarrow> u8 \<Rightarrow> bytes) \<Rightarrow> (u8 set \<Rightarrow> bool) \<Rightarrow> bytes list \<Rightarrow>
    server_op list \<Rightarrow> bool" where
  "enough_received mode e field enough ns ops \<longleftrightarrow>
     (if mode then \<forall>b \<in> set (units_blocks 0 ns). enough (fields_received e field b ops)
      else set (datagrams e (units_blocks 0 ns)) \<subseteq> set (received_datagrams ops))"

lemma delivers_mono: "list_all (delivers wire) ops \<Longrightarrow> set wire \<subseteq> set wire' \<Longrightarrow> list_all (delivers wire') ops"
proof (induction ops)
  case (Cons x ops)
  from Cons.prems have "delivers wire' x"
    by (cases "(wire', x)" rule: delivers.cases) auto
  with Cons show ?case by simp
qed simp

lemma transport_mono:
  assumes "transport e Decode dec ns wire' sufficient" and "set wire \<subseteq> set wire'"
  shows "transport e Decode dec ns wire sufficient"
proof -
  note tr = transport.only_blocks [OF assms(1)] transport.all_blocks [OF assms(1)]
  show ?thesis
    by unfold_locales (use tr delivers_mono [OF _ assms(2)] in blast)+
qed

lemma wire_of_fields:
  assumes "k \<le> 256"
  shows "set (wire_of e True amount field k bs) \<subseteq> set (rs_datagrams e field bs)"
proof
  fix x
  assume "x \<in> set (wire_of e True amount field k bs)"
  then obtain b i where "b \<in> set bs" "i < min k (Suc amount)"
    "x = rs_encode e (rs_of b (i, field (block_bytes b) (of_nat i)))"
    by (auto simp: wire_of_def field_datagrams_def)
  then have b: "b \<in> set bs" and i: "i \<in> set [0..<256]"
    and x: "x = rs_encode e (rs_of b (i, field (block_bytes b) (of_nat i)))"
    using assms by (simp_all only: set_upt atLeastLessThan_iff) simp_all
  show "x \<in> set (rs_datagrams e field bs)"
    unfolding rs_datagrams_def set_concat set_map by (rule UnionI [OF imageI [OF imageI [OF b]]], unfold set_map x, rule imageI [OF i])
qed

lemma wire_transport_safe:
  assumes "mode \<longrightarrow> encoder_gives Encode field k" and "decoder_safe mode ns field Decode I dec"
    and "mode \<longrightarrow> few ns"
  shows "transport e Decode dec ns (wire_of e' mode amount field k (units_blocks 0 ns)) (\<lambda>ops. False)"
proof (cases mode)
  case True
  with assms have k: "k \<le> 256" and len: "\<And>d i. length (field d i) = fieldSize"
    and dec: "decoder_sound field Decode I" "I (block_at (units_blocks 0 ns)) dec" "few ns"
    by (simp_all add: encoder_gives_def decoder_safe_def)
  from transport_mono [OF rs_wire_sound [where field = field, OF dec len, of e e'] wire_of_fields [OF k]] True
  show ?thesis by simp
next
  case False
  then show ?thesis by unfold_locales (simp_all add: wire_of_def raw_wire.only_blocks)
qed

lemma wire_transport:
  assumes "mode \<longrightarrow> encoder_gives Encode field k"
    and "decoder_safe mode ns field Decode I dec" and "decoder_works mode Decode fed enough dec"
    and "mode \<longrightarrow> few ns"
  shows "transport e Decode dec ns (wire_of e' mode amount field k (units_blocks 0 ns))
    (enough_received mode e' field enough ns)"
proof (cases mode)
  case True
  with assms have k: "k \<le> 256" and len: "\<And>d i. length (field d i) = fieldSize"
    and dec: "decoder_sound field Decode I" "decoder_complete Decode fed enough"
      "I (block_at (units_blocks 0 ns)) dec" "\<forall>key. \<not> enough (fed dec key)" "few ns"
    by (simp_all add: encoder_gives_def decoder_safe_def decoder_works_def)
  have "enough_received True e' field enough ns =
      (\<lambda>ops. \<forall>b \<in> set (units_blocks 0 ns). enough (fields_received e' field b ops))"
    by (simp add: enough_received_def fun_eq_iff)
  with transport_mono [OF rs_wire [where field = field, OF dec len, of e e'] wire_of_fields [OF k]] True
  show ?thesis by simp
next
  case False
  have "enough_received False e' field enough ns =
      (\<lambda>ops. set (datagrams e' (units_blocks 0 ns)) \<subseteq> set (received_datagrams ops))"
    by (simp add: enough_received_def fun_eq_iff)
  with raw_wire.transport_axioms [of e Decode dec ns e'] False show ?thesis by (simp add: wire_of_def)
qed

section \<open>The server with its real player\<close>

lemma started_ok: "node_started w dec n \<Longrightarrow> server_ok (nd_server n)"
  by (auto simp: node_started_def intro: boot_ok)

lemma started_queue: "node_started w dec n \<Longrightarrow> sv_packetQueue (nd_server n) = [] \<and> sv_decoder (nd_server n) = dec"
  by (auto simp: node_started_def server_boot_def)

lemma not_tick: "\<not> is_tick x \<Longrightarrow> no_quit x"
  by (cases x) simp_all

lemma node_plays:
  assumes "node_started True dec n" and "list_all op_wf (map server_part ops)"
    and "list_all no_quit (map server_part ops)" and "node_run e Decode api ops n = Some (Ok n')"
  shows "playing (sv_player (nd_server n'))"
proof -
  from assms(1) obtain st logs where boot: "nd_server n = server_boot dec (Start_player True (player_init st)) logs"
    by (auto simp: node_started_def)
  have "playing (Start_player True (player_init st))"
    by (simp add: playing_def Start_player_def player_init_def)
  from playing_run [OF this player_ops_keep_loop [OF assms(3), of e Decode "[]" dec]]
    server_player_from_boot [OF assms(2) node_run_server [OF assms(4), unfolded boot]]
  show ?thesis by simp
qed

text \<open>Pacing, of any run.\<close>

lemma node_paced:
  assumes "node_started w dec n" and "list_all op_wf (map server_part ops)"
    and "node_run e Decode api ops n = Some (Ok n')"
  shows "length (shown (sv_player (nd_server n'))) * nd_interval n \<le> nd_now n'"
proof -
  from node_run_screen [OF started_ok [OF assms(1)] assms(2,3)] obtain ss where
    run: "screen_run api (nd_interval n) (nd_timeout n) ss (node_screen n) = Some (node_screen n')" by blast
  from assms(1) obtain st logs where boot: "nd_server n = server_boot dec (Start_player w (player_init st)) logs"
    and tick: "nd_nextTick n = nd_now n" by (auto simp: node_started_def)
  have "player_ok (Start_player w (player_init st))"
    using player_ok_apply [OF player_ok_init, of "StartOp w" st] by simp
  then have "paced (nd_interval n) (node_screen n)"
    by (simp add: paced_def node_screen_def boot server_boot_def tick shown_control)
      (simp add: shown_def player_init_def)
  from scp.inv_run [OF run this] show ?thesis by (simp add: paced_def node_screen_def)
qed

text \<open>Passes after a run, with nothing received in between.\<close>

lemma passes_parts:
  "map server_part (map (\<lambda>(evs, spent, over). NdPass evs spent over) ps) = map PlayerTick (map fst ps)"
  by (auto simp: comp_def)

lemma ticks_facts: "list_all op_wf (map PlayerTick evss)" "received_datagrams (map PlayerTick evss) = []"
  "(\<forall>evs \<in> set evss. SDL_QUIT \<notin> set evs) \<Longrightarrow> list_all no_quit (map PlayerTick evss)"
  by (induction evss) simp_all

lemma received_datagrams_append:
  "received_datagrams (xs @ ys) = received_datagrams xs @ received_datagrams ys"
  by (induction xs rule: received_datagrams.induct) simp_all

lemma passes_return:
  assumes "node_started w dec n" and "list_all op_wf (map server_part ops)"
    and "node_run e Decode api ops n = Some (Ok n')" and "decoder_progress api m"
  obtains n'' where "node_run e Decode api (map (\<lambda>(evs, spent, over). NdPass evs spent over) ps) n' = Some (Ok n'')"
    and "node_run e Decode api (ops @ map (\<lambda>(evs, spent, over). NdPass evs spent over) ps) n = Some (Ok n'')"
proof -
  let ?ps = "map (\<lambda>(evs, spent, over). NdPass evs spent over) ps"
  have ok: "server_ok (nd_server n')"
    using server_run_eq [OF started_ok [OF assms(1)] assms(2), of e Decode] node_run_server [OF assms(3)] by auto
  have "list_all op_wf (map server_part ?ps)" unfolding passes_parts by (rule ticks_facts(1))
  from node_run_returns [OF decoding_returns_aux [OF assms(4)] ok this] obtain n'' where
    "node_run e Decode api ?ps n' = Some (Ok n'')" by blast
  with assms(3) show thesis by (intro that) (simp_all add: node_run_append)
qed

context transport
begin

lemma node_decodes_units:
  assumes "node_started w dec n" and "numberable ns" and "length ns < 2 ^ 32"
    and "list_all op_wf (map server_part ops)" and "list_all (delivers wire) (map server_part ops)"
    and "node_run e Decode api ops n = Some (Ok n')" and "pl_running (sv_player (nd_server n'))"
  shows "decode_all api (shown (sv_player (nd_server n'))) (nd_display n) = Some (nd_display n') \<and>
    sorted_wrt (<) (map fst (shown (sv_player (nd_server n')))) \<and>
    (\<forall>(i, d) \<in> set (shown (sv_player (nd_server n'))). unat i < length ns \<and> d = ns ! unat i)"
proof -
  from node_run_screen [OF started_ok [OF assms(1)] assms(4,6)] started_queue [OF assms(1)] obtain ss where
    ss: "map player_part ss = player_ops e Decode (map server_part ops) [] dec"
    and run: "screen_run api (nd_interval n) (nd_timeout n) ss (node_screen n) = Some (node_screen n')" by auto
  from assms(1) obtain st logs where "nd_server n = server_boot dec (Start_player w (player_init st)) logs"
    by (auto simp: node_started_def)
  then have p: "sc_player (node_screen n) = Start_player w (player_init st)"
    by (simp add: node_screen_def server_boot_def)
  from decodes_units [OF assms(2,3,5) p ss run, unfolded node_screen_def screen.simps, OF assms(7)]
  show ?thesis .
qed

lemma node_whole_file:
  assumes "node_started True dec n" and "numberable ns" and "length ns < 2 ^ 32" and "[] \<notin> set ns"
    and "list_all op_wf (map server_part ops)" and "list_all (delivers wire) (map server_part ops)"
    and "list_all (\<lambda>x. \<not> is_tick x) (map server_part ops)" and "sufficient (map server_part ops)"
    and "node_run e Decode api ops n = Some (Ok n')" and "sv_packetQueue (nd_server n') = []"
    and "decoder_progress api m"
    and "\<forall>(evs, spent, over) \<in> set ps. SDL_QUIT \<notin> set evs" and "2 * length ns \<le> length ps"
  shows "\<exists>n''. node_run e Decode api (map (\<lambda>(evs, spent, over). NdPass evs spent over) ps) n' = Some (Ok n'') \<and>
    shown (sv_player (nd_server n'')) = map (\<lambda>j. (of_nat j, ns ! j)) [0..<length ns] \<and>
    pl_running (sv_player (nd_server n''))"
proof -
  let ?ps = "map (\<lambda>(evs, spent, over). NdPass evs spent over) ps"
  from assms(1) obtain st logs where boot: "nd_server n = server_boot dec (Start_player True (player_init st)) logs"
    by (auto simp: node_started_def)
  obtain n'' where run: "node_run e Decode api ?ps n' = Some (Ok n'')"
    and all: "node_run e Decode api (ops @ ?ps) n = Some (Ok n'')"
    by (rule passes_return [OF assms(1,5,9,11)])
  note sv' = node_run_server [OF assms(9), unfolded boot] and sv'' = node_run_server [OF run, unfolded passes_parts]
  have quit: "\<forall>evs \<in> set (map fst ps). SDL_QUIT \<notin> set evs" using assms(12) by auto
  from whole_file [OF assms(2,4,5,6,7) sv' assms(10,8) quit] assms(13) sv''
  have shown: "shown (sv_player (nd_server n'')) = map (\<lambda>j. (of_nat j, ns ! j)) [0..<length ns]" by simp
  have "list_all no_quit (map server_part (ops @ ?ps))" and "list_all op_wf (map server_part (ops @ ?ps))"
    using assms(5,7) not_tick ticks_facts(1) ticks_facts(3) [OF quit]
    unfolding map_append list_all_append passes_parts by (auto simp: list_all_iff)
  from node_plays [OF assms(1) this(2,1) all] have "pl_running (sv_player (nd_server n''))"
    by (simp add: playing_def)
  with run shown show ?thesis by blast
qed

end

end
