(* ===== verification/Testbed.thy ===== *)
theory Testbed
  imports System
begin

text \<open>
  From the client's configuration document to the server's screen: what the two programs do
  together, in both modes, over any network, with any timing.
\<close>

section \<open>What the client has given the network\<close>

lemma client_process_wire:
  assumes "client_Config js fe can_open garbage lg st = Cont s"
    and "cf_encodingMode (cs_config s) \<longrightarrow> encoder_gives Encode field k"
    and "socket_works sys (cf_serverIp (cs_config s))" and "0 \<le> network_init"
    and "readable ff (files (cf_streamSource (cs_config s))) ds"
    and "client_process js fe can_open garbage lg st ff network_init env files e sys os Encode x =
      Main (Some (Done (Ok cl)))"
  shows "set (cl_sent cl) \<subseteq> set (wire_of e (cf_encodingMode (cs_config s))
    (unat (cf_packetAmount (cs_config s))) field k (units_blocks 0 (file_units ds)))"
proof -
  from client_config_read_aux [OF assms(1)] obtain doc port where "fe_parse fe = Inr doc"
    "member js doc SERVER_SECTION FIELD_PORT = Some port" by blast
  from client_process_sends_file_aux [where files = files, OF assms(1-5) this, of env e os x] assms(6) show ?thesis by auto
qed

lemma file_units_nonempty: "[] \<notin> set (file_units ds)"
proof
  assume "[] \<in> set (file_units ds)"
  then obtain d where "[] \<in> set (split_nalus d 0)" by (auto simp: file_units_def)
  from split_nalus_shape [OF this] show False by (simp add: start_code_at_def)
qed

section \<open>Any network\<close>

text \<open>
  C1: The two programs, each from its configuration on, over a network that loses, repeats
  and reorders, in raw or encoded mode, with any interleaving of the server's threads, any
  behaviour of its video decoder and window and any timing: while the playback runs, what the
  decoder has been through is the decoding of units of the client's file, each with its own
  bytes, in ascending order, and after every pass the number of units shown times the
  configured interval is at most the time gone by. The file has fewer than \<open>2^32\<close> units of fewer
  than \<open>2^32\<close> blocks; in encoded mode it has fewer than \<open>2^16\<close> units of fewer than \<open>2^16\<close>
  blocks, because beyond that two blocks share the identifier under which the server files
  their fields, and the Reed-Solomon decoder gives nothing but blocks whose fields it has been
  given. The time bound is on the number of units: a loop that is behind its ticks
  catches up by showing several units at once.
\<close>

theorem testbed_shows_only_file:
  assumes "client_Config js fe can_open garbage lg st = Cont s"
    and "cf_encodingMode (cs_config s) \<longrightarrow> encoder_gives Encode field k"
    and "socket_works sys (cf_serverIp (cs_config s))" and "0 \<le> network_init"
    and "readable ff (files (cf_streamSource (cs_config s))) ds"
    and "client_process js fe can_open garbage lg st ff network_init env files e sys os Encode x =
      Main (Some (Done (Ok cl)))"
    and "server_program js' fe' can_open' lg' st' e' sys' sdl_init sdl_error ie c w r delay jn header dec =
      Main (Done n)"
    and "decoder_safe (cf_encodingMode (cs_config s)) (file_units ds) field Decode I dec"
    and "cf_encodingMode (cs_config s) \<longrightarrow> few (file_units ds)"
    and "numberable (file_units ds)" and "length (file_units ds) < 2 ^ 32"
    and "list_all op_wf (map server_part ops)" and "list_all (delivers (cl_sent cl)) (map server_part ops)"
    and "node_run e' Decode api ops n = Some (Ok n')" and "pl_running (sv_player (nd_server n'))"
  shows "\<exists>us. decode_all api us (nd_display n) = Some (nd_display n') \<and> sorted_wrt (<) (map fst us) \<and>
    (\<forall>(i, d) \<in> set us. unat i < length (file_units ds) \<and> d = file_units ds ! unat i) \<and>
    length us * nd_interval n \<le> nd_now n'"
proof -
  note wire = client_process_wire [where files = files, OF assms(1-6)] and started = server_program_started [OF assms(7)]
  note tr = wire_transport_safe [OF assms(2,8,9), of e' e "unat (cf_packetAmount (cs_config s))"]
  from transport.node_decodes_units [OF tr started assms(10-12) delivers_mono [OF assms(13) wire] assms(14,15)]
    node_paced [OF started assms(12,14)]
  show ?thesis by blast
qed

section \<open>Enough received\<close>

text \<open>
  C2: If moreover all datagrams (raw mode) or enough fields of each block (encoded mode) have
  been received and processed before playback, in any order and with repetitions, the
  Reed-Solomon decoder recovers a block from enough fields, and no window event asks to quit,
  then two passes for each unit return and take the decoder and the screen through the decoding
  of the whole file: every unit, in order, with its bytes, and nothing else. As before a file sent in encoded mode has fewer than \<open>2^16\<close> units of fewer
  than \<open>2^16\<close> blocks each, and any file fewer than \<open>2^32\<close> units.
\<close>

theorem testbed_plays_file:
  assumes "client_Config js fe can_open garbage lg st = Cont s"
    and "cf_encodingMode (cs_config s) \<longrightarrow> encoder_gives Encode field k"
    and "socket_works sys (cf_serverIp (cs_config s))" and "0 \<le> network_init"
    and "readable ff (files (cf_streamSource (cs_config s))) ds"
    and "client_process js fe can_open garbage lg st ff network_init env files e sys os Encode x =
      Main (Some (Done (Ok cl)))"
    and "server_program js' fe' can_open' lg' st' e' sys' sdl_init sdl_error ie c True True delay jn header dec =
      Main (Done n)"
    and "decoder_safe (cf_encodingMode (cs_config s)) (file_units ds) field Decode I dec"
    and "decoder_works (cf_encodingMode (cs_config s)) Decode fed enough dec"
    and "cf_encodingMode (cs_config s) \<longrightarrow> few (file_units ds)"
    and "numberable (file_units ds)" and "length (file_units ds) < 2 ^ 32"
    and "list_all op_wf (map server_part ops)" and "list_all (delivers (cl_sent cl)) (map server_part ops)"
    and "enough_received (cf_encodingMode (cs_config s)) e field enough (file_units ds) (map server_part ops)"
    and "list_all (\<lambda>x. \<not> is_tick x) (map server_part ops)"
    and "node_run e' Decode api ops n = Some (Ok n')" and "sv_packetQueue (nd_server n') = []"
    and "decoder_progress api m"
    and "\<forall>(evs, spent, over) \<in> set ps. SDL_QUIT \<notin> set evs" and "2 * length (file_units ds) \<le> length ps"
  shows "\<exists>n''. node_run e' Decode api (map (\<lambda>(evs, spent, over). NdPass evs spent over) ps) n' = Some (Ok n'') \<and>
    decode_all api (map (\<lambda>j. (of_nat j, file_units ds ! j)) [0..<length (file_units ds)]) (nd_display n) =
      Some (nd_display n'')"
proof -
  let ?ps = "map (\<lambda>(evs, spent, over). NdPass evs spent over) ps"
  note wire = client_process_wire [where files = files, OF assms(1-6)]
    and started = server_program_started [OF assms(7), unfolded conj_absorb]
  note del = delivers_mono [OF assms(14) wire]
  note tr = wire_transport [OF assms(2,8,9,10), of e' e "unat (cf_packetAmount (cs_config s))"]
  from transport.node_whole_file [OF tr started assms(11,12) file_units_nonempty assms(13) del assms(16,15,17-21)]
  obtain n'' where run: "node_run e' Decode api ?ps n' = Some (Ok n'')"
    and shown: "shown (sv_player (nd_server n'')) = map (\<lambda>j. (of_nat j, file_units ds ! j)) [0..<length (file_units ds)]"
    and play: "pl_running (sv_player (nd_server n''))" by blast
  have wf: "list_all op_wf (map server_part (ops @ ?ps))" using assms(13) by (auto simp: list_all_iff)
  have del': "list_all (delivers (wire_of e (cf_encodingMode (cs_config s))
      (unat (cf_packetAmount (cs_config s))) field k (units_blocks 0 (file_units ds)))) (map server_part (ops @ ?ps))"
    using del by (auto simp: list_all_iff)
  have "node_run e' Decode api (ops @ ?ps) n = Some (Ok n'')" using assms(17) run by (simp add: node_run_append)
  from transport.node_decodes_units [OF tr started assms(11,12) wf del' this play] shown run show ?thesis by auto
qed

section \<open>A concrete testbed\<close>

text \<open>Encoded mode with 16 fields for each block, of which the network loses half.\<close>

definition enc_doc :: json where
  "enc_doc = JObj [(''server'', JObj [(''ip'', JStr ''10.0.0.1''), (''port'', JUint 8080)]),
     (''packet'', JObj [(''encoded'', JBool True), (''amount'', JUint 15)]),
     (''general'', JObj [(''source'', JStr ''a.h264'')])]"

definition slice_encode :: "unit encode" where
  "slice_encode d x = (map (\<lambda>i. slice_field d (of_nat i)) [0..<16], x)"

lemma slice_encode_gives: "encoder_gives slice_encode slice_field 16"
  unfolding encoder_gives_def slice_encode_def by (simp add: length_slice_field)

lemma enc_client_config:
  "\<exists>s. client_Config json_api (json_file enc_doc) (\<lambda>_. True) 0 (logger_init Map.empty)
      (statistics_init Map.empty) = Cont s \<and> cf_encodingMode (cs_config s) \<and> cf_packetAmount (cs_config s) = 15"
  by (simp add: client_Config_def client_sections_def client_server_section_def client_config_init_def
      client_packet_section_def client_general_section_def client_log_done_def cfg_log_def
      client_server_done_def client_general_done_def config_eval enc_doc_def)

definition demo_testbed_client where
  "demo_testbed_client = client_process json_api (json_file enc_doc) (\<lambda>_. True) 0 (logger_init Map.empty)
     (statistics_init Map.empty) list_ffmpeg 0 [] (\<lambda>_. demo_file) LittleEndian demo_sys (\<lambda>_. 0) slice_encode ()"

definition demo_server where
  "demo_server dec = server_program json_api (json_file server_doc) (\<lambda>_. True) (logger_init Map.empty)
     (statistics_init Map.empty) BigEndian demo_sys 0 []
     \<lparr>ie_decoder_found = True, ie_context = True, ie_frame = True, ie_open2 = 0\<rparr> ([] :: frame list)
     True True 7 concat Written dec"

lemma demo_server_starts: "\<exists>n. demo_server dec = Main (Done n)"
proof -
  from server_config_demo obtain s where
    cfg: "server_Config json_api (json_file server_doc) (\<lambda>_. True) (logger_init Map.empty)
      (statistics_init Map.empty) = Cont s" ..
  have "st_counters (cs_stats s) \<noteq> []"
    using server_config_read_aux [OF cfg] by (auto simp: default_counters_def)
  then have "\<exists>st. Start (\<lambda>_. True) concat Written (cs_stats s) = Done st"
    by (auto simp: Start_def Let_def split: option.split)
  then show ?thesis
    by (auto simp: demo_server_def server_program_def cfg node_main_def ServerSocket_def
        fresh_socket_def demo_sys_def Let_def screen_open_def Player_construct_def InitDecoder_def
        screen_start_def CreateWindowAndRenderer_def Start_player_def player_init_def emit_def)
qed

abbreviation demo_testbed_server where
  "demo_testbed_server \<equiv> demo_server (\<lambda>_ :: u32. [] :: (u8 \<times> bytes) list)"

fun node_op_of :: "server_op \<Rightarrow> node_op" where
  "node_op_of (RecvOp junk r errno) = NdReceive junk r errno"
| "node_op_of ProcessOp = NdProcess"
| "node_op_of (PlayerTick evs) = NdPass evs 5 1"

lemma server_part_node_op [simp]: "server_part (node_op_of x) = x"
  by (cases x) simp_all

lemma server_parts_node_ops: "map server_part (map node_op_of ops) = ops"
  by (induction ops) simp_all

lemma demo_testbed_client_sends:
  "\<exists>s cl. client_Config json_api (json_file enc_doc) (\<lambda>_. True) 0 (logger_init Map.empty)
      (statistics_init Map.empty) = Cont s \<and> cf_encodingMode (cs_config s) \<and>
    demo_testbed_client = Main (Some (Done (Ok cl))) \<and> list_all (delivers (cl_sent cl)) demo_loss_ops"
proof -
  from enc_client_config obtain s where cfg: "client_Config json_api (json_file enc_doc) (\<lambda>_. True) 0
      (logger_init Map.empty) (statistics_init Map.empty) = Cont s"
    and mode: "cf_encodingMode (cs_config s)" "cf_packetAmount (cs_config s) = 15" by blast
  have works: "socket_works demo_sys ip" for ip by (simp add: socket_works_def demo_sys_def)
  have doc: "fe_parse (json_file enc_doc) = Inr enc_doc" by (simp add: json_file_def)
  have port: "member json_api enc_doc SERVER_SECTION FIELD_PORT = Some (JUint 8080)"
    by (simp add: member_def enc_doc_def config_eval)
  have p: "unat (GetUint json_api (JUint 8080)) mod 2 ^ 16 \<noteq> 0" by (simp add: json_api_def)
  from client_process_sends_file_aux [where files = "\<lambda>_. demo_file" and e = LittleEndian and env = "[]"
      and os = "\<lambda>_. 0" and x = "()", OF cfg impI [OF slice_encode_gives] works order_refl demo_readable doc port]
    p mode
  obtain cl where cl: "demo_testbed_client = Main (Some (Done (Ok cl)))"
    and sent: "cl_sent cl = wire_of LittleEndian True 15 slice_field 16 (units_blocks 0 [[0, 0, 1, 5]])"
    by (auto simp: demo_testbed_client_def demo_file_units)
  have "demo_field_datagram i \<in> set (cl_sent cl)" if "i < 16" for i
    using that unfolding sent demo_units(2)
    by (auto simp: wire_of_def field_datagrams_def demo_field_datagram_def)
  then have "list_all (delivers (cl_sent cl)) demo_loss_ops" by (simp add: demo_loss_ops_def list_all_iff)
  with cfg mode(1) cl show ?thesis by blast
qed

theorem testbed_plays_file_witness:
  "\<exists>cl n n' n''. demo_testbed_client = Main (Some (Done (Ok cl))) \<and> demo_testbed_server = Main (Done n) \<and>
     list_all (delivers (cl_sent cl)) demo_loss_ops \<and>
     node_run BigEndian gather list_codec (map node_op_of demo_loss_ops) n = Some (Ok n') \<and>
     node_run BigEndian gather list_codec [NdPass [] 5 1, NdPass [] 5 1] n' = Some (Ok n'') \<and>
     decode_all list_codec [(0, [0, 0, 1, 5])] (nd_display n) = Some (nd_display n'')"
proof -
  from demo_testbed_client_sends obtain s cl where cfg: "client_Config json_api (json_file enc_doc) (\<lambda>_. True) 0
      (logger_init Map.empty) (statistics_init Map.empty) = Cont s"
    and mode: "cf_encodingMode (cs_config s)" and cl: "demo_testbed_client = Main (Some (Done (Ok cl)))"
    and del: "list_all (delivers (cl_sent cl)) demo_loss_ops" by blast
  obtain n where n: "demo_testbed_server = Main (Done n)" by (rule exE [OF demo_server_starts])
  note started = server_program_started [OF n [unfolded demo_server_def]]
  have works: "socket_works demo_sys ip" for ip by (simp add: socket_works_def demo_sys_def)
  let ?ops = "map node_op_of demo_loss_ops"
  have wf: "list_all op_wf (map server_part ?ops)" unfolding server_parts_node_ops by (rule demo_loss_facts(1))
  from node_run_returns [OF decoding_returns_aux [OF list_codec_progress] started_ok [OF started] wf]
  obtain n' where run: "node_run BigEndian gather list_codec ?ops n = Some (Ok n')" by blast
  have queue: "sv_packetQueue (nd_server n') = []"
    using node_run_server [OF run, unfolded server_parts_node_ops] started
    by (auto simp: node_started_def intro: demo_loss_processed)
  have safe: "decoder_safe (cf_encodingMode (cs_config s)) (file_units [[0, 0, 1, 5]]) slice_field gather gathered (\<lambda>_. [])"
    using gather_sound demo_code(2) by (simp only: decoder_safe_def demo_file_units simp_thms)
  have few: "cf_encodingMode (cs_config s) \<longrightarrow> few (file_units [[0, 0, 1, 5]])"
    using demo_code(1) by (simp only: demo_file_units simp_thms)
  have complete: "decoder_works (cf_encodingMode (cs_config s)) gather stored eight_of (\<lambda>_. [])"
    using gather_complete demo_code(3) by (simp only: decoder_works_def simp_thms)
  have num: "numberable (file_units [[0, 0, 1, 5]])" "length (file_units [[0, 0, 1, 5]]) < 2 ^ 32"
    by (simp_all only: demo_file_units demo_units(1)) simp
  have enough: "enough_received (cf_encodingMode (cs_config s)) LittleEndian slice_field eight_of
      (file_units [[0, 0, 1, 5]]) (map server_part ?ops)"
    using demo_loss_enough mode by (simp only: enough_received_def demo_file_units server_parts_node_ops if_True)
  have ops: "list_all (delivers (cl_sent cl)) (map server_part ?ops)"
    "list_all (\<lambda>x. \<not> is_tick x) (map server_part ?ops)"
    unfolding server_parts_node_ops by (rule del, rule demo_loss_facts(2))
  have quit: "\<forall>(evs, spent, over) \<in> set [([], 5, 1), ([], 5, 1)]. SDL_QUIT \<notin> set evs"
    and len: "2 * length (file_units [[0, 0, 1, 5]]) \<le> length [([], 5, 1), ([], 5, 1)]"
    by (simp_all add: demo_file_units)
  from testbed_plays_file [where files = "\<lambda>_. demo_file", OF cfg impI [OF slice_encode_gives] works order_refl
      demo_readable cl [unfolded demo_testbed_client_def] n [unfolded demo_server_def] safe complete few num
      wf ops(1) enough ops(2) run queue list_codec_progress quit len]
  obtain n'' where "node_run BigEndian gather list_codec [NdPass [] 5 1, NdPass [] 5 1] n' = Some (Ok n'')"
    and "decode_all list_codec [(0, [0, 0, 1, 5])] (nd_display n) = Some (nd_display n'')"
    by (auto simp: demo_file_units)
  with cl n del run show ?thesis by blast
qed

text \<open>The same testbed, with playback before anything is received and between the fields.\<close>

theorem testbed_shows_only_file_witness:
  "\<exists>cl n n' us. demo_testbed_client = Main (Some (Done (Ok cl))) \<and> demo_testbed_server = Main (Done n) \<and>
     node_run BigEndian gather list_codec (NdPass [SDL_OTHER] 3 0 # map node_op_of demo_loss_ops) n = Some (Ok n') \<and>
     decode_all list_codec us (nd_display n) = Some (nd_display n') \<and> (\<forall>(i, d) \<in> set us. unat i < 1)"
proof -
  from demo_testbed_client_sends obtain s cl where cfg: "client_Config json_api (json_file enc_doc) (\<lambda>_. True) 0
      (logger_init Map.empty) (statistics_init Map.empty) = Cont s"
    and mode: "cf_encodingMode (cs_config s)" and cl: "demo_testbed_client = Main (Some (Done (Ok cl)))"
    and del: "list_all (delivers (cl_sent cl)) demo_loss_ops" by blast
  obtain n where n: "demo_testbed_server = Main (Done n)" by (rule exE [OF demo_server_starts])
  note started = server_program_started [OF n [unfolded demo_server_def]]
  have works: "socket_works demo_sys ip" for ip by (simp add: socket_works_def demo_sys_def)
  let ?ops = "NdPass [SDL_OTHER] 3 0 # map node_op_of demo_loss_ops"
  have parts: "map server_part ?ops = PlayerTick [SDL_OTHER] # demo_loss_ops"
    by (simp only: list.map server_parts_node_ops server_part.simps)
  have wf: "list_all op_wf (map server_part ?ops)" unfolding parts using demo_loss_facts(1) by simp
  from node_run_returns [OF decoding_returns_aux [OF list_codec_progress] started_ok [OF started] wf]
  obtain n' where run: "node_run BigEndian gather list_codec ?ops n = Some (Ok n')" by blast
  have safe: "decoder_safe (cf_encodingMode (cs_config s)) (file_units [[0, 0, 1, 5]]) slice_field gather gathered (\<lambda>_. [])"
    using gather_sound demo_code(2) by (simp only: decoder_safe_def demo_file_units simp_thms)
  have few: "cf_encodingMode (cs_config s) \<longrightarrow> few (file_units [[0, 0, 1, 5]])"
    using demo_code(1) by (simp only: demo_file_units simp_thms)
  have num: "numberable (file_units [[0, 0, 1, 5]])" "length (file_units [[0, 0, 1, 5]]) < 2 ^ 32"
    by (simp_all only: demo_file_units demo_units(1)) simp
  have ops: "list_all (delivers (cl_sent cl)) (map server_part ?ops)" unfolding parts using del by simp
  have "list_all no_quit (map server_part ?ops)"
    unfolding parts by (simp add: demo_loss_ops_def list_all_iff)
  from node_plays [OF started [unfolded conj_absorb] wf this run]
  have "pl_running (sv_player (nd_server n'))" by (simp add: playing_def)
  from testbed_shows_only_file [where files = "\<lambda>_. demo_file", OF cfg impI [OF slice_encode_gives] works order_refl
      demo_readable cl [unfolded demo_testbed_client_def] n [unfolded demo_server_def] safe few num
      wf ops run this]
  obtain us where dec: "decode_all list_codec us (nd_display n) = Some (nd_display n')"
    and "\<forall>(i, d) \<in> set us. unat i < length (file_units [[0, 0, 1, 5]]) \<and> d = file_units [[0, 0, 1, 5]] ! unat i"
    by blast
  then have "\<forall>(i, d) \<in> set us. unat i < 1" by (auto simp: demo_file_units)
  with cl n run dec show ?thesis by blast
qed

end
