(* ===== verification/Testbed_Live.thy ===== *)
theory Testbed_Live
  imports Testbed
begin

text \<open>
  Both programs in raw mode over a network that keeps the order and, so far, has lost and
  repeated nothing, with the server's real player playing while the file arrives.
\<close>

lemma received_delivers:
  "set (received_datagrams ops) \<subseteq> set wire \<Longrightarrow> list_all (delivers wire) ops"
proof (induction ops rule: received_datagrams.induct)
  case (2 junk d errno xs)
  then show ?case by simp
qed simp_all

lemma client_process_raw:
  assumes "client_Config js fe can_open garbage lg st = Cont s"
    and "\<not> cf_encodingMode (cs_config s)"
    and "socket_works sys (cf_serverIp (cs_config s))" and "0 \<le> network_init"
    and "readable ff (files (cf_streamSource (cs_config s))) ds"
    and "client_process js fe can_open garbage lg st ff network_init env files e sys os Encode x =
      Main (Some (Done (Ok cl)))"
  shows "cl_sent cl = [] \<or> cl_sent cl = datagrams e (units_blocks 0 (file_units ds))"
proof -
  from client_config_read_aux [OF assms(1)] obtain doc port where "fe_parse fe = Inr doc"
    "member js doc SERVER_SECTION FIELD_PORT = Some port" by blast
  moreover have "cf_encodingMode (cs_config s) \<longrightarrow> encoder_gives Encode (\<lambda>_ _. []) 0" using assms(2) by simp
  ultimately show ?thesis
    using client_process_sends_file_aux [where files = files, OF assms(1) _ assms(3-5), of Encode "\<lambda>_ _. []" 0 doc port env e os x]
      assms(2,6) by (auto simp: wire_of_def)
qed

text \<open>What the server's player has done, in a run whose events do not ask to quit.\<close>

lemma node_live:
  assumes "node_started True dec n" and "numberable ns" and "length ns < 2 ^ 32" and "[] \<notin> set ns"
    and "list_all op_wf (map server_part ops)" and "list_all no_quit (map server_part ops)"
    and "received_datagrams (map server_part ops) = take m (datagrams e' (units_blocks 0 ns))"
    and "node_run e Decode api ops n = Some (Ok n')"
  shows "\<exists>k \<le> length ns. shown (sv_player (nd_server n')) = first_units ns k \<and>
    decode_all api (first_units ns k) (nd_display n) = Some (nd_display n') \<and>
    warned (sv_player (nd_server n')) = 0 \<and> k * nd_interval n \<le> nd_now n'"
proof -
  from assms(1) obtain st logs where boot: "nd_server n = server_boot dec (Start_player True (player_init st)) logs"
    by (auto simp: node_started_def)
  from live_playback [OF assms(2,4,5,7) node_run_server [OF assms(8), unfolded boot]] obtain k where
    k: "k \<le> length ns" "shown (sv_player (nd_server n')) = first_units ns k" "warned (sv_player (nd_server n')) = 0"
    by blast
  have "list_all (delivers (datagrams e' (units_blocks 0 ns))) (map server_part ops)"
    by (rule received_delivers) (auto simp: assms(7) dest: in_set_takeD)
  moreover have "pl_running (sv_player (nd_server n'))"
    using node_plays [OF assms(1,5,6,8)] by (simp add: playing_def)
  ultimately have "decode_all api (first_units ns k) (nd_display n) = Some (nd_display n')"
    using raw_wire.node_decodes_units [OF assms(1-3,5) _ assms(8)] k(2) by simp
  with k node_paced [OF assms(1,5,8)] show ?thesis by auto
qed

text \<open>
  C3: The two programs, each from its configuration on, in raw mode over a network that has so
  far delivered a beginning of the client's datagrams, in order and once each. However the
  server's threads interleave, and however long its decoder takes, after every step and as
  long as no event asked to quit the units shown are the first units of the client's file, all
  of them and no others; they have been decoded, and nothing else has; no unit was skipped;
  and their number times the configured interval is at most the time gone by. That is a bound
  on the number of units, not on the distance between two of them: after passes that took
  longer than the interval the loop shows the next units without sleeping.
\<close>

theorem testbed_plays_live:
  assumes "client_Config js fe can_open garbage lg st = Cont s"
    and "\<not> cf_encodingMode (cs_config s)"
    and "socket_works sys (cf_serverIp (cs_config s))" and "0 \<le> network_init"
    and "readable ff (files (cf_streamSource (cs_config s))) ds"
    and "client_process js fe can_open garbage lg st ff network_init env files e sys os Encode x =
      Main (Some (Done (Ok cl)))"
    and "server_program js' fe' can_open' lg' st' e' sys' sdl_init sdl_error ie c True True delay jn header dec =
      Main (Done n)"
    and "numberable (file_units ds)" and "length (file_units ds) < 2 ^ 32"
    and "list_all op_wf (map server_part ops)" and "list_all no_quit (map server_part ops)"
    and "received_datagrams (map server_part ops) = take m (cl_sent cl)"
    and "node_run e' Decode api ops n = Some (Ok n')"
  shows "\<exists>k \<le> length (file_units ds). shown (sv_player (nd_server n')) = first_units (file_units ds) k \<and>
    decode_all api (first_units (file_units ds) k) (nd_display n) = Some (nd_display n') \<and>
    warned (sv_player (nd_server n')) = 0 \<and> k * nd_interval n \<le> nd_now n'"
proof -
  obtain m' where m': "take m (cl_sent cl) = take m' (datagrams e (units_blocks 0 (file_units ds)))"
    using client_process_raw [where files = files, OF assms(1-6)] by (metis take_0 take_Nil)
  note started = server_program_started [OF assms(7), unfolded conj_absorb]
  from node_live [OF started assms(8,9) file_units_nonempty assms(10,11) assms(12) [unfolded m'] assms(13)]
  show ?thesis .
qed

text \<open>
  C4: Once the last datagram has arrived in this way and has been processed, every further
  pass of the player returns and shows one more unit until the whole file has been shown and
  decoded, whatever was shown before: one pass for each unit is enough.
\<close>

theorem testbed_finishes_live:
  assumes "client_Config js fe can_open garbage lg st = Cont s"
    and "\<not> cf_encodingMode (cs_config s)"
    and "socket_works sys (cf_serverIp (cs_config s))" and "0 \<le> network_init"
    and "readable ff (files (cf_streamSource (cs_config s))) ds"
    and "client_process js fe can_open garbage lg st ff network_init env files e sys os Encode x =
      Main (Some (Done (Ok cl)))"
    and "server_program js' fe' can_open' lg' st' e' sys' sdl_init sdl_error ie c True True delay jn header dec =
      Main (Done n)"
    and "numberable (file_units ds)" and "length (file_units ds) < 2 ^ 32"
    and "list_all op_wf (map server_part ops)" and "list_all no_quit (map server_part ops)"
    and "received_datagrams (map server_part ops) = cl_sent cl" and "cl_sent cl \<noteq> []"
    and "node_run e' Decode api ops n = Some (Ok n')" and "sv_packetQueue (nd_server n') = []"
    and "decoder_progress api m" and "\<forall>(evs, spent, over) \<in> set ps. SDL_QUIT \<notin> set evs"
  shows "\<exists>n''. node_run e' Decode api (map (\<lambda>(evs, spent, over). NdPass evs spent over) ps) n' = Some (Ok n'') \<and>
    (let k = min (length (file_units ds)) (length (shown (sv_player (nd_server n'))) + length ps)
     in shown (sv_player (nd_server n'')) = first_units (file_units ds) k \<and>
        decode_all api (first_units (file_units ds) k) (nd_display n) = Some (nd_display n''))"
proof -
  let ?ps = "map (\<lambda>(evs, spent, over). NdPass evs spent over) ps"
  let ?wire = "datagrams e (units_blocks 0 (file_units ds))"
  have wire: "received_datagrams (map server_part ops) = ?wire"
    using client_process_raw [where files = files, OF assms(1-6)] assms(12,13) by simp
  note started = server_program_started [OF assms(7), unfolded conj_absorb]
  from started obtain st1 logs where
    boot: "nd_server n = server_boot dec (Start_player True (player_init st1)) logs"
    by (auto simp: node_started_def)
  have quit: "\<forall>evs \<in> set (map fst ps). SDL_QUIT \<notin> set evs" using assms(17) by auto
  obtain n'' where run: "node_run e' Decode api ?ps n' = Some (Ok n'')"
    and run': "node_run e' Decode api (ops @ ?ps) n = Some (Ok n'')"
    by (rule passes_return [OF started assms(10,14,16)])
  note sv = node_run_server [OF assms(14), unfolded boot] and sv' = node_run_server [OF run, unfolded passes_parts]
  have all: "list_all op_wf (map server_part (ops @ ?ps))" "list_all no_quit (map server_part (ops @ ?ps))"
    unfolding map_append list_all_append passes_parts
    using assms(10,11) ticks_facts(1) [of "map fst ps"] ticks_facts(3) [OF quit] by auto
  have rec: "received_datagrams (map server_part (ops @ ?ps)) = take (length ?wire) ?wire"
    unfolding map_append received_datagrams_append passes_parts wire by (simp only: ticks_facts) simp
  from node_live [OF started assms(8,9) file_units_nonempty all rec run'] obtain k where
    shown: "shown (sv_player (nd_server n'')) = first_units (file_units ds) k"
    and dec: "decode_all api (first_units (file_units ds) k) (nd_display n) = Some (nd_display n'')" by blast
  let ?k = "min (length (file_units ds)) (length (shown (sv_player (nd_server n'))) + length ps)"
  from live_playback_completes [OF assms(8) file_units_nonempty assms(10,11) wire sv assms(15) quit] sv' shown
  have "first_units (file_units ds) k = first_units (file_units ds) ?k" by simp
  then have "k = ?k" by (metis length_first_units)
  with run shown dec show ?thesis by (auto simp: Let_def)
qed

section \<open>A concrete run\<close>

text \<open>The file has two units; the first is shown before the second arrives.\<close>

definition live_file :: "av_packet list open_env" where
  "live_file = demo_file\<lparr>oe_streams := [(True, True)], oe_env := map data_packet demo_two\<rparr>"

lemma live_file_readable: "readable list_ffmpeg live_file demo_two"
proof -
  have "opens live_file False 0" by (simp add: opens_def live_file_def demo_file_def)
  moreover have "packets_of list_ffmpeg False 0 (oe_env live_file) demo_two"
    using demuxes_list [of demo_two] by (simp add: packets_of_def live_file_def)
  moreover have "\<forall>env. av_packet_alloc list_ffmpeg env = (True, env)" by (simp add: list_ffmpeg_def)
  moreover have "\<forall>d \<in> set demo_two. start_code_at d 0" by (simp add: demo_two_def start_code_at_def)
  ultimately show ?thesis unfolding readable_def by blast
qed

lemma live_file_units: "file_units demo_two = demo_two"
proof -
  have "split_nalus [0, 0, 1, x] 0 = [[0, 0, 1, x]]" if "x \<noteq> 1" for x
  proof -
    have "FindStartCode [0, 0, 1, x] 0 = Some 0" and none: "FindStartCode [0, 0, 1, x] 3 = None"
      using that by (simp_all add: FindStartCode.simps)
    moreover from none have "nalu_end [0, 0, 1, x] 0 = 4" by (simp add: nalu_end_def)
    moreover have "split_nalus [0, 0, 1, x] 4 = []"
      using split_nalus_at_end [of "[0, 0, 1, x]"] by (simp add: eval_nat_numeral)
    ultimately show ?thesis by (simp add: split_nalus_Some)
  qed
  then show ?thesis by (simp add: file_units_def demo_two_def)
qed

definition demo_live_client where
  "demo_live_client = client_process json_api (json_file (client_doc 8080)) (\<lambda>_. True) 0
     (logger_init Map.empty) (statistics_init Map.empty) list_ffmpeg 0 [] (\<lambda>_. live_file)
     LittleEndian demo_sys (\<lambda>_. 0) demo_encode ()"

lemma demo_live_client_sends:
  "\<exists>s cl. demo_client_config 8080 = Cont s \<and> \<not> cf_encodingMode (cs_config s) \<and>
    demo_live_client = Main (Some (Done (Ok cl))) \<and>
    cl_sent cl = datagrams LittleEndian (units_blocks 0 demo_two)"
proof -
  from demo_client_config [of 8080] obtain s where cfg: "demo_client_config 8080 = Cont s"
    "\<not> cf_encodingMode (cs_config s)" by auto
  have works: "socket_works demo_sys ip" for ip by (simp add: socket_works_def demo_sys_def)
  from cfg(2) have mode: "cf_encodingMode (cs_config s) \<longrightarrow> encoder_gives demo_encode (\<lambda>d i. []) 0" by simp
  have doc: "fe_parse (json_file (client_doc 8080)) = Inr (client_doc 8080)" by (simp add: json_file_def)
  have port: "member json_api (client_doc 8080) SERVER_SECTION FIELD_PORT = Some (JUint 8080)"
    by (simp add: member_def client_doc_def config_eval)
  have p: "unat (GetUint json_api (JUint 8080)) mod 2 ^ 16 \<noteq> 0" by (simp add: json_api_def)
  from client_process_sends_file_aux [where files = "\<lambda>_. live_file" and e = LittleEndian and env = "[]"
      and os = "\<lambda>_. 0" and x = "()", OF cfg(1) mode works order_refl live_file_readable doc port] p cfg
  show ?thesis by (auto simp: demo_live_client_def live_file_units wire_of_def)
qed

text \<open>The run as one of the server program.\<close>

abbreviation demo_live_node_ops :: "node_op list" where
  "demo_live_node_ops \<equiv> map node_op_of demo_live_ops"

lemma live_ops: "list_all op_wf (map server_part demo_live_node_ops)"
  "list_all no_quit (map server_part demo_live_node_ops)"
  "received_datagrams (map server_part demo_live_node_ops) = datagrams LittleEndian (units_blocks 0 demo_two)"
  unfolding server_parts_node_ops by (rule demo_live_facts)+

lemma live_num: "numberable (file_units demo_two)" "length (file_units demo_two) < 2 ^ 32"
  unfolding live_file_units by (rule demo_two_facts) (simp add: demo_two_def)

lemma live_works: "socket_works demo_sys ip"
  by (simp add: socket_works_def demo_sys_def)

lemma demo_live_node:
  obtains n n' where "demo_server () = Main (Done n)"
    and "node_run BigEndian no_decoder list_codec demo_live_node_ops n = Some (Ok n')"
    and "sv_packetQueue (nd_server n') = []"
proof -
  obtain n where n: "demo_server () = Main (Done n)" by (rule exE [OF demo_server_starts])
  note started = server_program_started [OF n [unfolded demo_server_def]]
  from node_run_returns [OF decoding_returns_aux [OF list_codec_progress] started_ok [OF started] live_ops(1)]
  obtain n' where run: "node_run BigEndian no_decoder list_codec demo_live_node_ops n = Some (Ok n')" by blast
  from node_run_server [OF run, unfolded server_parts_node_ops] started
  have "sv_packetQueue (nd_server n') = []"
    by (auto simp: node_started_def intro: demo_live_processed)
  with n run show thesis by (rule that)
qed

theorem testbed_plays_live_witness:
  "\<exists>cl n n' k. demo_live_client = Main (Some (Done (Ok cl))) \<and> demo_server () = Main (Done n) \<and>
     node_run BigEndian no_decoder list_codec demo_live_node_ops n = Some (Ok n') \<and> k \<le> length demo_two \<and>
     decode_all list_codec (first_units demo_two k) (nd_display n) = Some (nd_display n') \<and>
     warned (sv_player (nd_server n')) = 0"
proof -
  from demo_live_client_sends obtain s cl where cfg: "demo_client_config 8080 = Cont s"
    and raw: "\<not> cf_encodingMode (cs_config s)" and cl: "demo_live_client = Main (Some (Done (Ok cl)))"
    and sent: "cl_sent cl = datagrams LittleEndian (units_blocks 0 demo_two)" by blast
  obtain n n' where n: "demo_server () = Main (Done n)"
    and run: "node_run BigEndian no_decoder list_codec demo_live_node_ops n = Some (Ok n')"
    by (rule demo_live_node)
  have "received_datagrams (map server_part demo_live_node_ops) = take (length (cl_sent cl)) (cl_sent cl)"
    unfolding sent live_ops(3) by simp
  from testbed_plays_live [where files = "\<lambda>_. live_file", OF cfg raw live_works order_refl
      live_file_readable cl [unfolded demo_live_client_def] n [unfolded demo_server_def] live_num live_ops(1,2) this run] cl n run
  show ?thesis unfolding live_file_units by blast
qed

theorem testbed_finishes_live_witness:
  "\<exists>cl n n' n''. demo_live_client = Main (Some (Done (Ok cl))) \<and> demo_server () = Main (Done n) \<and>
     node_run BigEndian no_decoder list_codec demo_live_node_ops n = Some (Ok n') \<and>
     node_run BigEndian no_decoder list_codec [NdPass [] 5 1, NdPass [] 5 1] n' = Some (Ok n'') \<and>
     shown (sv_player (nd_server n'')) = [(0, [0, 0, 1, 5]), (1, [0, 0, 1, 6])]"
proof -
  from demo_live_client_sends obtain s cl where cfg: "demo_client_config 8080 = Cont s"
    and raw: "\<not> cf_encodingMode (cs_config s)" and cl: "demo_live_client = Main (Some (Done (Ok cl)))"
    and sent: "cl_sent cl = datagrams LittleEndian (units_blocks 0 demo_two)" by blast
  obtain n n' where n: "demo_server () = Main (Done n)"
    and run: "node_run BigEndian no_decoder list_codec demo_live_node_ops n = Some (Ok n')"
    and queue: "sv_packetQueue (nd_server n') = []"
    by (rule demo_live_node)
  have rec: "received_datagrams (map server_part demo_live_node_ops) = cl_sent cl" and some: "cl_sent cl \<noteq> []"
    unfolding sent live_ops(3) by (simp_all add: datagrams_def demo_two_facts)
  have quit: "\<forall>(evs, spent, over) \<in> set [([], 5, 1), ([], 5, 1)]. SDL_QUIT \<notin> set evs" by simp
  have all: "min (length demo_two) (k + length [([], 5, 1), ([], 5, 1)]) = 2" for k
    by (simp add: demo_two_def)
  from testbed_finishes_live [where files = "\<lambda>_. live_file", OF cfg raw live_works order_refl
      live_file_readable cl [unfolded demo_live_client_def] n [unfolded demo_server_def] live_num live_ops(1,2)
      rec some run queue list_codec_progress quit, unfolded Let_def live_file_units all list.map prod.case]
  obtain n'' where "node_run BigEndian no_decoder list_codec [NdPass [] 5 1, NdPass [] 5 1] n' = Some (Ok n'')"
    and "shown (sv_player (nd_server n'')) = first_units demo_two 2" by blast
  moreover have "first_units demo_two 2 = [(0, [0, 0, 1, 5]), (1, [0, 0, 1, 6])]"
    by (simp add: first_units_def demo_two_def upt_rec)
  ultimately show ?thesis using cl n run by auto
qed

end
