(* ===== verification/Spec2Isabelle.thy ===== *)
theory Spec2Isabelle
  imports Statistics_Shutdown Statistics_File Player_Restart Resources Testbed_Live
begin

text \<open>
  A verification library for the H.264 over UDP testbed: a client that cuts a video file into
  blocks and sends them as datagrams, and a server that puts the blocks together again and
  plays the units.

  \<^bold>\<open>The program.\<close> The client (\<open>client/client.cpp\<close>) reads its configuration, opens the file with
  \<open>StreamReader\<close> and sends one datagram for each block (raw mode) or \<open>amount + 1\<close> Reed-Solomon
  fields for each block (encoded mode). The server (\<open>server/server.cpp\<close>) has a receiver thread,
  which puts accepted packets into a deque, a processor thread, which gives the block of each
  packet (or what the decoder makes of a field) to \<open>Player::AddBlock\<close>, the player's own thread,
  which decodes and shows completed units in the order of their indices, and the statistics
  writer. Logger, statistics and configuration are singletons both programs share.

  \<^bold>\<open>Theories and sources.\<close>
  \<^item> \<open>Prelude\<close>: machine types, outcomes (\<open>Done\<close>, \<open>Exited\<close> by \<open>exit\<close>, \<open>Stuck\<close> in a self-deadlock),
    \<open>access\<close> (a read outside an object is \<open>OutOfBounds\<close>), reachability, invariants.
  \<^item> \<open>Std_Map\<close>: \<open>std::map\<close> as an ascending association list, with its interface.
  \<^item> \<open>Config_Fields\<close>: \<open>common/config/Fields.h\<close>. \<open>Logger\<close>: \<open>common/log/Logger.h\<close>.
  \<^item> \<open>Statistics\<close>, \<open>Statistics_File\<close>, \<open>Statistics_Shutdown\<close>: \<open>common/statistics/Statistics.h\<close>; the
    second is about the file that is written, the third about the interleavings of the writer
    thread with \<open>Stop\<close>.
  \<^item> \<open>Packet\<close>, \<open>Packet_Facts\<close>: \<open>common/socket/Packet.h\<close>. \<open>Socket\<close>: \<open>common/socket/Interface.h\<close>.
  \<^item> \<open>Stream\<close>, \<open>Stream_Facts\<close>, \<open>Stream_Run\<close>, \<open>Stream_Termination\<close>: \<open>common/video/Stream.h\<close>.
  \<^item> \<open>Player\<close> and \<open>Player_Facts\<close>, \<open>Player_Assembly\<close>, \<open>Player_Playback\<close>, \<open>Player_Progress\<close>,
    \<open>Player_Integrity\<close>: assembly and playback in \<open>common/video/Player.h\<close>; \<open>Player_Display\<close>: its
    decoder and window; \<open>Player_Screen\<close>: both together, with the clock; \<open>Player_Restart\<close>:
    stopping and starting again.
  \<^item> \<open>Server\<close>, \<open>Server_Facts\<close>: \<open>server/server.cpp\<close>. \<open>Client\<close>, \<open>Client_Facts\<close>: \<open>client/client.cpp\<close>.
  \<^item> \<open>Config\<close>, \<open>Config_Client\<close>, \<open>Config_Server\<close>: \<open>common/config/Parser.h\<close> and \<open>Config.h\<close>.
  \<^item> \<open>Resources\<close>: what reader and client take from FFmpeg and give back.
  \<^item> \<open>Programs\<close>: both \<open>main\<close> functions from the configuration on, with the playback model as player.
  \<^item> \<open>Server_Screen\<close>: \<open>server/server.cpp\<close> with the whole of \<open>Player.h\<close> as its player.
  \<^item> \<open>End_To_End\<close>, \<open>End_To_End_RS\<close>, \<open>Live_Playback\<close>, \<open>Encoded_Playback\<close>, \<open>Decoded_Playback\<close>: client,
    network and server together. \<open>End_To_End\<close> has the interface of a way of sending, the locale
    \<open>transport\<close>: which datagrams are on the wire, what the processor makes of them, and when a set
    of datagrams is enough for a block. Raw datagrams (\<open>raw_wire\<close>) and Reed-Solomon fields
    (\<open>rs_wire\<close>) are its interpretations.
  \<^item> \<open>System\<close>, \<open>Testbed\<close>, \<open>Testbed_Live\<close>: the server program with its real player, and both programs
    from their configuration documents to the screen, in either mode; the last one is about a
    network that keeps the order, with playback while the file arrives.

  \<^bold>\<open>How state and operations correspond.\<close> A class is a record of its members (\<open>logger\<close>,
  \<open>statistics\<close>, \<open>socket_if\<close>, \<open>reader\<close>, \<open>player\<close>, \<open>display\<close>, \<open>server\<close>, \<open>client\<close>, \<open>client_config\<close>,
  \<open>server_config\<close>; \<open>screen\<close> is a player with its decoder, window and clock, \<open>node\<close> a server with
  such a player), a method is a function of the record with the source's name (a prefix such
  as \<open>log_\<close>, \<open>stat_\<close> or \<open>client_\<close> where names would clash), overloads are told apart by a suffix
  (\<open>Send_packet\<close>, \<open>Receive_raw\<close>). What a method tells the outside (log lines, notifications,
  frames shown, what is allocated and freed) is appended to a list in the state. Fixed-width integers are words, and every
  narrowing in the code is a \<open>ucast\<close>. A critical section is one step; threads are sequences
  of steps (\<open>server_op\<close>, \<open>node_op\<close>, \<open>player_op\<close>, \<open>screen_op\<close>) or a step relation (\<open>player_step\<close>,
  \<open>stat_step\<close>, \<open>shut_step\<close>), and statements are about every sequence.

  \<^bold>\<open>What is shown.\<close>
  \<^item> Wire format: both packet kinds survive composition and decomposition between hosts of any
    byte orders; which datagrams are rejected; no read outside a datagram.
  \<^item> Socket: what success means for sends, that stale stack bytes never reach a packet.
  \<^item> Reader and client: the blocks of a file, raw or read through the bit stream filter, against
    a reference cutting of its packets at start codes; the datagrams sent; termination of the
    reader and of the client; that everything taken from FFmpeg is given back exactly once.
  \<^item> Player: correctness and completion of assembly, integrity of content, display order,
    progress, the stall after a late unit, the counters; the decoder's packets and textures;
    that the whole player refines the playback model, decodes exactly what is shown, returns
    from each pass, keeps its window while the loop runs and gives everything back in the end,
    shows no more units than intervals have passed, and shows nothing after a restart.
  \<^item> Server: no read outside a packet, the deque as a queue from the accepted packets to what the
    player and the decoder are given, refinement of the player; the
    programs from the configuration on: what is sent, what the counters end with.
  \<^item> Statistics: the registry; the file as a table, with other threads at work while a row is
    read, up to the first output that fails; the shutdown with its deadlock. Logger: which
    lines are written.
    Configuration: the values read from any accepted document.
  \<^item> End to end: what is shown are units of the file in ascending order whatever the network
    does; with all blocks delivered (raw) or enough fields of each block (encoded) the whole
    file is shown; over a network that keeps order nothing is skipped while the file arrives;
    what reaches the video decoder are units of the file.
  \<^item> The testbed, from the two configuration documents on: whatever the network does and whatever
    the timing, what the server's player decodes and shows are units of the configured file in
    ascending order; and with a decoder that works, time for the player and enough of each block
    delivered, the whole file is shown.

  \<^bold>\<open>Parameters.\<close> Code outside the repository is a parameter: the system calls of sockets and
  files (\<open>sys_env\<close>, \<open>file_env\<close>, \<open>recv_result\<close>), FFmpeg's demuxer, filter and decoder (\<open>ffmpeg\<close>,
  \<open>open_env\<close>, \<open>codec_api\<close>), SDL's results and events, the JSON library (\<open>rapidjson\<close>), number
  formatting, and the Reed-Solomon code (\<open>encode\<close>, \<open>decode\<close>). What is assumed of them is named in
  the statements: \<open>packets_of\<close> (the packets of the demuxer, \<open>demuxes\<close>, or of the filter, \<open>filters\<close>),
  \<open>finite_stream\<close>, \<open>encoder_gives\<close> and \<open>encoder_ok\<close>, \<open>decoder_sound\<close>, \<open>decoder_complete\<close>. Each witness instantiates them with concrete functions.

  \<^bold>\<open>Bounds and loops.\<close> Loops over third-party code (\<open>ReadPacketFromStream\<close>, \<open>ReadTo\<close>,
  \<open>client_loop\<close>, the decoder's loops) are \<open>partial_function (option)\<close>: not returning is \<open>None\<close>,
  and the termination theorems show \<open>Some\<close> for finite input. No fuel is used. Endless loops
  of threads are sequences of their passes. Times are milliseconds as natural numbers; a pass is
  \<open>screen_show\<close> and then \<open>screen_sleep\<close>. A file sent in encoded mode is taken to have fewer
  than \<open>2^16\<close> units of fewer than \<open>2^16\<close> blocks (\<open>few\<close>, a hypothesis of its own wherever it is
  needed): beyond that two blocks share an identifier (\<open>block_id_collisions\<close>).

  \<^bold>\<open>Not modelled.\<close> \<open>monitoring/monitoring.py\<close> only plots the statistics file; \<open>json-schema/\<close>
  holds documentation (compared with the readers in the findings); the build. Exhaustion of
  memory is not modelled, nor are data races outside the critical sections. \<open>Player::Run\<close>
  reads \<open>it->first\<close> after erasing the element; the model gives it the erased element's key.
  The mutex of the logger and those of the server are taken as making each operation atomic;
  the locks of \<open>Statistics\<close> are modelled where they matter, in the shutdown and in the line, whose
  shared lock lets increments in. A stream of the statistics whose output fails stays in its
  error state; what its buffer still holds is taken as lost, also when the file is closed. The
  stream of the logger is taken to write or to raise. \<open>sws_getCachedContext\<close> is taken to give a
  scaler, which nothing reads. \<open>Instance\<close> has no
  definition: a singleton is the record its methods are applied to, \<open>~Statistics\<close> is the call of
  \<open>Stop\<close> the shutdown is about, and the order in which static objects are destroyed is left out.
  What \<open>getCurrentTime\<close> writes is a parameter of the logger.
\<close>

end
